(* ===== verification/Prelude.thy ===== *)
theory Prelude
  imports Main "HOL-Library.Monad_Syntax" "HOL-Library.Multiset"
begin

text \<open>
  Shared vocabulary of the development.

  \<^item> \<open>'a run\<close> is the result of Rust code that may panic: \<open>Some x\<close> returns \<open>x\<close>, \<open>None\<close> is a
    panic (a \<open>BigUint\<close> subtraction below zero, a division by zero, an index out of range).
    A Rust \<open>Option\<close> returned by such code is an \<open>option\<close> inside the \<open>run\<close>; a Rust
    \<open>Result<T, E>\<close> is a sum \<open>'e + 't\<close>, with \<open>Inl\<close> the error.
  \<^item> \<open>BigUint\<close> is \<open>nat\<close>, with the two partial operations \<open>biguint_sub\<close> and \<open>biguint_div\<close>
    written out; \<open>BigInt\<close> is \<open>int\<close>.
  \<^item> An \<open>Address\<close>, a \<open>ComponentId\<close> and every Rust string is a \<open>string\<close>: Isabelle's \<open>char\<close>
    is a byte.
  \<^item> The list operations of the standard library that the sources use and that \<open>List\<close> does
    not have: the binary search of a sorted vector, the position of the first match,
    the last maximum (\<open>Iterator::max_by\<close>) and the first minimum (\<open>Iterator::min_by_key\<close>),
    and the stable descending sort.
\<close>

type_synonym 'a run = "'a option"

type_synonym address = string

type_synonym component_id = string

type_synonym state_label = string

type_synonym biguint = nat

abbreviation panic :: "'a run" where
  "panic \<equiv> None"

abbreviation ret :: "'a \<Rightarrow> 'a run" where
  "ret x \<equiv> Some x"

named_theorems run_simps "evaluation of code that may panic"

named_theorems model_defs "definitions unfolded by the component proofs"

named_theorems no_panic "introduction rules for code that does not panic"

text \<open>The \<open>?\<close> operator of Rust: an error returns at once, a value goes on.\<close>

definition or_return :: "'e + 'a \<Rightarrow> ('a \<Rightarrow> ('e + 'b) run) \<Rightarrow> ('e + 'b) run" where
  "or_return r f = (case r of Inl e \<Rightarrow> ret (Inl e) | Inr x \<Rightarrow> f x)"

lemma or_return_simps [simp, run_simps]:
  "or_return (Inl e) f = ret (Inl e)"
  "or_return (Inr x) f = f x"
  by (simp_all add: or_return_def)

lemma or_return_Inr_iff:
  "or_return r f = Some (Inr y) \<longleftrightarrow> (\<exists>x. r = Inr x \<and> f x = Some (Inr y))"
  by (cases r) simp_all

lemma map_sum_id_Inr [simp]: "map_sum f id y = Inr x \<longleftrightarrow> y = Inr x"
  by (cases y) auto

lemma case_sum_Inr_iff:
  "(case r of Inl e \<Rightarrow> ret (Inl (g e)) | Inr x \<Rightarrow> f x) = ret (Inr y) \<longleftrightarrow>
     (\<exists>x. r = Inr x \<and> f x = ret (Inr y))"
  by (cases r) simp_all

lemma or_return_panic_iff: "or_return r f = panic \<longleftrightarrow> (\<exists>x. r = Inr x \<and> f x = panic)"
  by (cases r) auto

lemma no_panic_rules [no_panic]:
  "ret x \<noteq> panic"
  "(\<And>x. r = Inr x \<Longrightarrow> f x \<noteq> panic) \<Longrightarrow> or_return r f \<noteq> panic"
  "m \<noteq> panic \<Longrightarrow> (\<And>x. m = ret x \<Longrightarrow> g x \<noteq> panic) \<Longrightarrow> Option.bind m g \<noteq> panic"
  "(\<And>e. r = Inl e \<Longrightarrow> h e \<noteq> panic) \<Longrightarrow> (\<And>x. r = Inr x \<Longrightarrow> k x \<noteq> panic) \<Longrightarrow>
     (case r of Inl e \<Rightarrow> h e | Inr x \<Rightarrow> k x) \<noteq> panic"
  "(v = None \<Longrightarrow> n \<noteq> panic) \<Longrightarrow> (\<And>x. v = Some x \<Longrightarrow> s x \<noteq> panic) \<Longrightarrow>
     (case v of None \<Rightarrow> n | Some x \<Rightarrow> s x) \<noteq> panic"
  "(\<And>a b. z = (a, b) \<Longrightarrow> p a b \<noteq> panic) \<Longrightarrow> (case z of (a, b) \<Rightarrow> p a b) \<noteq> panic"
  "(c \<Longrightarrow> t \<noteq> panic) \<Longrightarrow> (\<not> c \<Longrightarrow> u \<noteq> panic) \<Longrightarrow> (if c then t else u) \<noteq> panic"
  by (auto simp: or_return_panic_iff bind_eq_None_conv split: sum.splits option.splits prod.splits)

subsection \<open>Sequencing fallible steps\<close>

fun try_each :: "('a \<Rightarrow> ('e + 'b) run) \<Rightarrow> 'a list \<Rightarrow> ('e + 'b list) run" where
  "try_each f [] = ret (Inr [])"
| "try_each f (x # xs) =
     do {
       r \<leftarrow> f x;
       or_return r (\<lambda>y. do {
         rs \<leftarrow> try_each f xs;
         or_return rs (\<lambda>ys. ret (Inr (y # ys)))
       })
     }"

fun run_each :: "('a \<Rightarrow> 'b run) \<Rightarrow> 'a list \<Rightarrow> 'b list run" where
  "run_each f [] = ret []"
| "run_each f (x # xs) = do { y \<leftarrow> f x; ys \<leftarrow> run_each f xs; ret (y # ys) }"

lemma list_all2_set2: "list_all2 P xs ys \<Longrightarrow> y \<in> set ys \<Longrightarrow> \<exists>x \<in> set xs. P x y"
  by (induction xs ys rule: list_all2_induct) auto

lemma try_each_Inr:
  "try_each f xs = ret (Inr ys) \<longleftrightarrow> list_all2 (\<lambda>x y. f x = ret (Inr y)) xs ys"
proof (induction xs arbitrary: ys)
  case (Cons x xs)
  have "try_each f (x # xs) = ret (Inr ys) \<longleftrightarrow>
      (\<exists>y ys'. f x = ret (Inr y) \<and> try_each f xs = ret (Inr ys') \<and> ys = y # ys')"
    by (cases "f x"; cases "try_each f xs") (auto simp: or_return_Inr_iff)
  then show ?case by (auto simp: Cons.IH list_all2_Cons1)
qed auto

lemma run_each_ret: "run_each f xs = ret ys \<longleftrightarrow> list_all2 (\<lambda>x y. f x = ret y) xs ys"
  by (induction xs arbitrary: ys) (auto simp: bind_eq_Some_conv list_all2_Cons1)

lemma run_each_no_panic: "(\<And>x. x \<in> set xs \<Longrightarrow> f x \<noteq> panic) \<Longrightarrow> run_each f xs \<noteq> panic"
  by (induction xs) (auto simp: bind_eq_None_conv)

lemma try_each_not_panic [no_panic]:
  "(\<And>x. x \<in> set xs \<Longrightarrow> f x \<noteq> panic) \<Longrightarrow> try_each f xs \<noteq> panic"
  by (induction xs) (auto simp: or_return_def split: sum.splits bind_splits)

subsection \<open>BigUint\<close>

definition biguint_sub :: "biguint \<Rightarrow> biguint \<Rightarrow> biguint run" where
  "biguint_sub a b = (if b \<le> a then ret (a - b) else panic)"

definition biguint_div :: "biguint \<Rightarrow> biguint \<Rightarrow> biguint run" where
  "biguint_div a b = (if b = 0 then panic else ret (a div b))"

lemma biguint_sub_ret [simp, run_simps]: "b \<le> a \<Longrightarrow> biguint_sub a b = ret (a - b)"
  by (simp add: biguint_sub_def)

lemma biguint_sub_panic [simp, run_simps]: "a < b \<Longrightarrow> biguint_sub a b = panic"
  by (simp add: biguint_sub_def)

lemma biguint_sub_Some_iff: "biguint_sub a b = Some c \<longleftrightarrow> b \<le> a \<and> c = a - b"
  by (auto simp: biguint_sub_def)

lemma biguint_div_ret [simp, run_simps]: "b \<noteq> 0 \<Longrightarrow> biguint_div a b = ret (a div b)"
  by (simp add: biguint_div_def)

lemma biguint_div_0 [simp, run_simps]: "biguint_div a 0 = panic"
  by (simp add: biguint_div_def)

lemma biguint_div_Some_iff: "biguint_div a b = Some c \<longleftrightarrow> b \<noteq> 0 \<and> c = a div b"
  by (auto simp: biguint_div_def)

text \<open>Rounding of an integer division, up and down.\<close>

lemma div_ceil_le_iff:
  fixes a d c :: nat
  assumes "0 < d"
  shows "(a + d - 1) div d \<le> c \<longleftrightarrow> a \<le> c * d"
proof
  assume "(a + d - 1) div d \<le> c"
  then have "a + d - 1 < (c + 1) * d"
    using assms by (metis add.commute div_less_iff_less_mult le_imp_less_Suc plus_1_eq_Suc)
  then show "a \<le> c * d" using assms by simp
next
  assume "a \<le> c * d"
  then have "a + d - 1 < (c + 1) * d" using assms by simp
  then show "(a + d - 1) div d \<le> c"
    using assms by (metis Suc_eq_plus1 div_less_iff_less_mult less_Suc_eq_le)
qed

lemma div_ceil_ge:
  fixes a d :: nat
  assumes "0 < d"
  shows "a \<le> (a + d - 1) div d * d"
  using div_ceil_le_iff [OF assms, of a "(a + d - 1) div d"] by simp

lemma mult_div_le_self:
  fixes a b c :: nat
  assumes "b \<le> c"
  shows "a * b div c \<le> a"
proof -
  have "a * b div c \<le> a * c div c"
    using assms by (intro div_le_mono mult_le_mono2)
  also have "a * c div c \<le> a" by simp
  finally show ?thesis .
qed

subsection \<open>Vectors and iterators\<close>

text \<open>
  \<open>slice::binary_search_by\<close> over keys: \<open>Ok i\<close> is \<open>Inr i\<close> (an index holding the key), \<open>Err i\<close> is
  \<open>Inl i\<close> (where the key would be inserted). On a vector sorted by key both are what the
  documented contract of the standard library fixes; with distinct keys the index is unique,
  so this linear definition and a bisection return the same value.
\<close>

fun binary_search :: "('k::linorder \<times> 'v) list \<Rightarrow> 'k \<Rightarrow> nat + nat" where
  "binary_search [] k = Inl 0"
| "binary_search ((k', v) # xs) k =
     (if k' = k then Inr 0
      else if k < k' then Inl 0
      else (case binary_search xs k of Inl i \<Rightarrow> Inl (Suc i) | Inr i \<Rightarrow> Inr (Suc i)))"

definition insert_at :: "nat \<Rightarrow> 'a \<Rightarrow> 'a list \<Rightarrow> 'a list" where
  "insert_at i x xs = take i xs @ x # drop i xs"

lemma set_insert_at [simp]: "set (insert_at i x xs) = insert x (set xs)"
  by (metis Un_insert_right append_take_drop_id insert_at_def list.simps(15) set_append)

lemma length_insert_at [simp]: "length (insert_at i x xs) = Suc (length xs)"
  by (simp add: insert_at_def)

lemma binary_search_Inr:
  "binary_search xs k = Inr i \<Longrightarrow> i < length xs \<and> fst (xs ! i) = k"
proof (induction xs k arbitrary: i rule: binary_search.induct)
  case (1 k)
  then show ?case by simp
next
  case (2 k' v xs k)
  show ?case
  proof (cases i)
    case 0
    with 2 show ?thesis by (auto split: if_splits sum.splits)
  next
    case (Suc j)
    with 2 show ?thesis by (auto split: if_splits sum.splits)
  qed
qed

lemma binary_search_Inl:
  "binary_search xs k = Inl i \<Longrightarrow> sorted_wrt (<) (map fst xs) \<Longrightarrow>
   i \<le> length xs \<and> (\<forall>x \<in> set (take i xs). fst x < k) \<and> (\<forall>x \<in> set (drop i xs). k < fst x)"
proof (induction xs k arbitrary: i rule: binary_search.induct)
  case (1 k)
  then show ?case by simp
next
  case (2 k' v xs k)
  show ?case
  proof (cases i)
    case 0
    with 2 show ?thesis by (fastforce split: if_splits sum.splits)
  next
    case (Suc j)
    with 2 show ?thesis by (fastforce split: if_splits sum.splits)
  qed
qed

lemma sorted_insert_at:
  assumes "sorted_wrt (<) (map fst xs)"
    and "\<forall>x \<in> set (take i xs). fst x < k" and "\<forall>x \<in> set (drop i xs). k < fst x"
  shows "sorted_wrt (<) (map fst (insert_at i (k, v) xs))"
proof -
  have "sorted_wrt (<) (map fst (take i xs) @ map fst (drop i xs))"
    using assms(1) by (metis append_take_drop_id map_append)
  with assms(2,3) show ?thesis
    by (auto simp: insert_at_def sorted_wrt_append)
qed

text \<open>\<open>Iterator::position\<close>\<close>

fun position :: "('a \<Rightarrow> bool) \<Rightarrow> 'a list \<Rightarrow> nat option" where
  "position p [] = None"
| "position p (x # xs) = (if p x then Some 0 else map_option Suc (position p xs))"

lemma position_Some:
  "position p xs = Some i \<Longrightarrow>
   i < length xs \<and> p (xs ! i) \<and> (\<forall>x \<in> set (take i xs). \<not> p x)"
  by (induction xs arbitrary: i) (auto split: if_splits)

lemma position_None: "position p xs = None \<longleftrightarrow> (\<forall>x \<in> set xs. \<not> p x)"
  by (induction xs) auto

text \<open>A loop that returns an error at the first element that satisfies a condition.\<close>

lemma case_find_Inr:
  "(case find p xs of None \<Rightarrow> r | Some x \<Rightarrow> Inl (e x)) = Inr y \<longleftrightarrow>
   (\<forall>x \<in> set xs. \<not> p x) \<and> r = Inr y"
proof (cases "find p xs")
  case None
  then have "\<forall>x \<in> set xs. \<not> p x" by (simp add: find_None_iff)
  with None show ?thesis by simp
next
  case (Some x)
  then have "x \<in> set xs" and "p x" by (auto simp: find_Some_iff)
  with Some show ?thesis by auto
qed

text \<open>\<open>Iterator::max_by\<close> keeps the last of several maxima, \<open>min_by_key\<close> the first minimum.\<close>

fun last_max_by :: "('a \<Rightarrow> 'k::linorder) \<Rightarrow> 'a list \<Rightarrow> 'a option" where
  "last_max_by f [] = None"
| "last_max_by f (x # xs) =
     (case last_max_by f xs of
        None \<Rightarrow> Some x
      | Some y \<Rightarrow> if f x \<le> f y then Some y else Some x)"

fun first_min_by :: "('a \<Rightarrow> 'k::linorder) \<Rightarrow> 'a list \<Rightarrow> 'a option" where
  "first_min_by f [] = None"
| "first_min_by f (x # xs) =
     (case first_min_by f xs of
        None \<Rightarrow> Some x
      | Some y \<Rightarrow> if f x \<le> f y then Some x else Some y)"

lemma last_max_by_None [simp]: "last_max_by f xs = None \<longleftrightarrow> xs = []"
  by (cases xs) (auto split: option.splits)

lemma last_max_by_Some:
  "last_max_by f xs = Some m \<Longrightarrow> m \<in> set xs \<and> (\<forall>x \<in> set xs. f x \<le> f m)"
  by (induction xs arbitrary: m) (fastforce split: option.splits if_splits)+

lemma first_min_by_None [simp]: "first_min_by f xs = None \<longleftrightarrow> xs = []"
  by (cases xs) (auto split: option.splits)

lemma first_min_by_Some:
  "first_min_by f xs = Some m \<Longrightarrow> m \<in> set xs \<and> (\<forall>x \<in> set xs. f m \<le> f x)"
  by (induction xs arbitrary: m) (fastforce split: option.splits if_splits)+

text \<open>
  \<open>sort_by (|a, b| key b .cmp (key a))\<close>: a stable sort, descending by key. Reversing before and
  after a stable ascending sort keeps the order of equal elements.
\<close>

definition sort_desc_by :: "('a \<Rightarrow> 'k::linorder) \<Rightarrow> 'a list \<Rightarrow> 'a list" where
  "sort_desc_by f xs = rev (sort_key f (rev xs))"

lemma set_sort_desc_by [simp]: "set (sort_desc_by f xs) = set xs"
  by (simp add: sort_desc_by_def)

lemma mset_sort_desc_by [simp]: "mset (sort_desc_by f xs) = mset xs"
  by (simp add: sort_desc_by_def)

lemma length_sort_desc_by [simp]: "length (sort_desc_by f xs) = length xs"
  by (simp add: sort_desc_by_def)

lemma sort_desc_by_Nil_iff [simp]: "sort_desc_by f xs = [] \<longleftrightarrow> xs = []"
  by (metis length_0_conv length_sort_desc_by)

abbreviation descending_by :: "('a \<Rightarrow> 'k::linorder) \<Rightarrow> 'a list \<Rightarrow> bool" where
  "descending_by f \<equiv> sorted_wrt (\<lambda>a b. f b \<le> f a)"

lemma descending_sort_desc_by: "descending_by f (sort_desc_by f xs)"
proof -
  have "sorted_wrt (\<lambda>x y. f x \<le> f y) (sort_key f (rev xs))"
    using sorted_sort_key [of f "rev xs"] by (simp add: sorted_wrt_map)
  then show ?thesis by (simp add: sort_desc_by_def sorted_wrt_rev)
qed

lemma sort_desc_by_stable:
  "filter (\<lambda>x. f x = k) (sort_desc_by f xs) = filter (\<lambda>x. f x = k) xs"
proof -
  have "filter (\<lambda>x. f x = k) (sort_key f (rev xs)) = filter (\<lambda>x. f x = k) (rev xs)"
    by (rule sort_key_stable)
  then show ?thesis by (simp add: sort_desc_by_def rev_filter [symmetric])
qed

text \<open>Inserting before the first element with an equal or lower key keeps a descending list.\<close>

lemma descending_insert_at:
  assumes "descending_by f xs"
    and "i = (case position (\<lambda>y. f y \<le> f x) xs of Some j \<Rightarrow> j | None \<Rightarrow> length xs)"
  shows "descending_by f (insert_at i x xs)"
proof -
  have split: "descending_by f (take i xs @ drop i xs)" using assms(1) by simp
  have above: "f x \<le> f y" if "y \<in> set (take i xs)" for y
    using that assms(2) position_Some [of "\<lambda>y. f y \<le> f x" xs] position_None [of "\<lambda>y. f y \<le> f x" xs]
    by (auto split: option.splits)
  have below: "f y \<le> f x" if "y \<in> set (drop i xs)" for y
  proof (cases "position (\<lambda>y. f y \<le> f x) xs")
    case None
    then show ?thesis using that assms(2) by simp
  next
    case (Some j)
    then have j: "j < length xs" "f (xs ! j) \<le> f x" "i = j"
      using position_Some [OF Some] assms(2) by auto
    then have "y = xs ! j \<or> y \<in> set (drop (Suc j) xs)"
      using that by (metis Cons_nth_drop_Suc set_ConsD)
    moreover have "descending_by f (xs ! j # drop (Suc j) xs)"
      using split j by (simp add: sorted_wrt_append Cons_nth_drop_Suc)
    ultimately show ?thesis using j(2) by auto
  qed
  show ?thesis
    using split above below by (fastforce simp: insert_at_def sorted_wrt_append)
qed

lemma mset_insert_at [simp]: "mset (insert_at i x xs) = add_mset x (mset xs)"
  by (metis append_take_drop_id insert_at_def mset.simps(2) mset_append union_mset_add_mset_right)

end
