(* ===== verification/F64.thy ===== *)
theory F64
  imports Prelude Complex_Main "HOL-Library.Log_Nat"
begin

text \<open>
  IEEE 754 binary64, as far as the sources use \<open>f64\<close>: a value is NaN, an infinity or a rational,
  and an operation on finite values is the exact rational result rounded to nearest, ties to
  even, with 53 significant bits, subnormals down to \<open>2^-1074\<close> and overflow to infinity at
  \<open>2^1024\<close>. The two zeros are one value: Rust's comparisons do not tell them apart, and the
  modelled code never divides by a zero or reads a sign bit.

  The lemmas that the components use: rounding is monotone, and it keeps 0 and 1. Hence a
  comparison of a rounded sum with 0 or 1 decides the same comparison of the exact sum.
\<close>

datatype f64 = NaN | Infinite bool | Finite rat

definition ilog2 :: "rat \<Rightarrow> int" where
  "ilog2 x =
     (let (p, q) = quotient_of x; k = bitlen p - bitlen q
      in if power_int 2 k \<le> x then k else k - 1)"

definition round_even :: "rat \<Rightarrow> int" where
  "round_even x =
     (let f = \<lfloor>x\<rfloor>; r = x - of_int f
      in if r < 1 / 2 then f else if 1 / 2 < r then f + 1 else if even f then f else f + 1)"

definition ulp_exp :: "rat \<Rightarrow> int" where
  "ulp_exp x = max (- 1074) (ilog2 \<bar>x\<bar> - 52)"

definition round_rat :: "rat \<Rightarrow> rat" where
  "round_rat x =
     (if x = 0 then 0
      else of_int (round_even (x / power_int 2 (ulp_exp x))) * power_int 2 (ulp_exp x))"

definition round_f64 :: "rat \<Rightarrow> f64" where
  "round_f64 x =
     (let y = round_rat x in if power_int 2 1024 \<le> \<bar>y\<bar> then Infinite (0 < x) else Finite y)"

fun f64_add :: "f64 \<Rightarrow> f64 \<Rightarrow> f64" where
  "f64_add NaN _ = NaN"
| "f64_add _ NaN = NaN"
| "f64_add (Infinite s) (Infinite t) = (if s = t then Infinite s else NaN)"
| "f64_add (Infinite s) (Finite _) = Infinite s"
| "f64_add (Finite _) (Infinite t) = Infinite t"
| "f64_add (Finite a) (Finite b) = round_f64 (a + b)"

fun f64_less :: "f64 \<Rightarrow> f64 \<Rightarrow> bool" where
  "f64_less NaN _ = False"
| "f64_less _ NaN = False"
| "f64_less (Infinite s) (Infinite t) = (\<not> s \<and> t)"
| "f64_less (Infinite s) (Finite _) = (\<not> s)"
| "f64_less (Finite _) (Infinite t) = t"
| "f64_less (Finite a) (Finite b) = (a < b)"

fun f64_eq :: "f64 \<Rightarrow> f64 \<Rightarrow> bool" where
  "f64_eq NaN _ = False"
| "f64_eq _ NaN = False"
| "f64_eq a b = (a = b)"

definition f64_le :: "f64 \<Rightarrow> f64 \<Rightarrow> bool" where
  "f64_le a b = (f64_less a b \<or> f64_eq a b)"

fun f64_mul :: "f64 \<Rightarrow> f64 \<Rightarrow> f64" where
  "f64_mul NaN _ = NaN"
| "f64_mul _ NaN = NaN"
| "f64_mul (Infinite s) (Infinite t) = Infinite (s = t)"
| "f64_mul (Infinite s) (Finite b) = (if b = 0 then NaN else Infinite (s = (0 < b)))"
| "f64_mul (Finite a) (Infinite t) = (if a = 0 then NaN else Infinite (t = (0 < a)))"
| "f64_mul (Finite a) (Finite b) = round_f64 (a * b)"

fun f64_div :: "f64 \<Rightarrow> f64 \<Rightarrow> f64" where
  "f64_div NaN _ = NaN"
| "f64_div _ NaN = NaN"
| "f64_div (Infinite s) (Infinite t) = NaN"
| "f64_div (Infinite s) (Finite b) = Infinite (s = (0 \<le> b))"
| "f64_div (Finite a) (Infinite t) = Finite 0"
| "f64_div (Finite a) (Finite b) =
     (if b \<noteq> 0 then round_f64 (a / b) else if a = 0 then NaN else Infinite (0 < a))"

text \<open>\<open>as u64\<close> and the like: truncation towards zero, saturating at the bounds, NaN to zero.\<close>

fun f64_to_uint :: "nat \<Rightarrow> f64 \<Rightarrow> nat" where
  "f64_to_uint w NaN = 0"
| "f64_to_uint w (Infinite s) = (if s then 2 ^ w - 1 else 0)"
| "f64_to_uint w (Finite a) = (if a < 0 then 0 else min (nat \<lfloor>a\<rfloor>) (2 ^ w - 1))"

text \<open>\<open>f64::round\<close>: to the nearest integer, halves away from zero.\<close>

fun f64_round :: "f64 \<Rightarrow> f64" where
  "f64_round (Finite a) = Finite (if 0 \<le> a then of_int \<lfloor>a + 1 / 2\<rfloor> else - of_int \<lfloor>- a + 1 / 2\<rfloor>)"
| "f64_round x = x"

definition f64_clamp :: "f64 \<Rightarrow> f64 \<Rightarrow> f64 \<Rightarrow> f64" where
  "f64_clamp lo hi x = (if f64_less x lo then lo else if f64_less hi x then hi else x)"

fun f64_is_finite :: "f64 \<Rightarrow> bool" where
  "f64_is_finite (Finite _) = True"
| "f64_is_finite _ = False"

fun f64_ceil :: "f64 \<Rightarrow> f64" where
  "f64_ceil (Finite a) = Finite (of_int \<lceil>a\<rceil>)"
| "f64_ceil x = x"

text \<open>\<open>f64::min\<close> and \<open>f64::max\<close> ignore a NaN.\<close>

definition f64_min :: "f64 \<Rightarrow> f64 \<Rightarrow> f64" where
  "f64_min x y = (if x = NaN then y else if y = NaN then x else if f64_less y x then y else x)"

definition f64_max :: "f64 \<Rightarrow> f64 \<Rightarrow> f64" where
  "f64_max x y = (if x = NaN then y else if y = NaN then x else if f64_less x y then y else x)"

lemma f64_le_Finite [simp]: "f64_le (Finite a) (Finite b) = (a \<le> b)"
  by (auto simp: f64_le_def)

subsection \<open>Rounding is monotone and keeps 0 and 1\<close>

lemma bitlen_bounds_rat:
  assumes "0 < p"
  shows "(2::rat) powi (bitlen p - 1) \<le> of_int p" and "of_int p < (2::rat) powi (bitlen p)"
proof -
  have "0 < bitlen p" 
    using assms bitlen_eq_zero_iff [of p] bitlen_nonneg [of p] by linarith
  have b: "2 ^ nat (bitlen p - 1) \<le> p \<and> p < 2 ^ nat (bitlen p)"
    using bitlen_bounds [OF assms] .
  then have "of_int (2 ^ nat (bitlen p - 1)) \<le> (of_int p :: rat)"
    and "(of_int p :: rat) < of_int (2 ^ nat (bitlen p))"
    by (simp_all only: of_int_le_iff of_int_less_iff)
  then show "(2::rat) powi (bitlen p - 1) \<le> of_int p" and "of_int p < (2::rat) powi (bitlen p)"
    using \<open>0 < bitlen p\<close> by (simp_all add: power_int_def)
qed

lemma ilog2_bounds:
  assumes "0 < x"
  shows "2 powi (ilog2 x) \<le> x" and "x < 2 powi (ilog2 x + 1)"
proof -
  obtain p q where pq: "quotient_of x = (p, q)" by force
  have q: "0 < q" using quotient_of_denom_pos [OF pq] .
  have x: "x = of_int p / of_int q" using quotient_of_div [OF pq] .
  have p: "0 < p" using assms q unfolding x by (simp add: zero_less_divide_iff)
  note bp = bitlen_bounds_rat [OF p]
  note bq = bitlen_bounds_rat [OF q]
  have up: "x < 2 powi (bitlen p - bitlen q + 1)"
  proof -
    have "x < 2 powi (bitlen p) / of_int q"
      unfolding x using bp(2) q by (simp add: divide_strict_right_mono)
    also have "\<dots> \<le> 2 powi (bitlen p) / 2 powi (bitlen q - 1)"
      using bq(1) by (intro divide_left_mono) (simp_all add: q)
    also have "\<dots> = 2 powi (bitlen p - (bitlen q - 1))"
      by (simp add: power_int_diff)
    finally show ?thesis by (simp add: algebra_simps)
  qed
  have lo: "2 powi (bitlen p - bitlen q - 1) \<le> x"
  proof -
    have "2 powi (bitlen p - bitlen q - 1) = (2::rat) powi (bitlen p - 1) / 2 powi (bitlen q)"
      by (simp add: power_int_diff [symmetric] algebra_simps)
    also have "\<dots> \<le> of_int p / 2 powi (bitlen q)"
      using bp(1) by (intro divide_right_mono) simp_all
    also have "\<dots> \<le> x"
      unfolding x using bq(2) p q by (intro divide_left_mono) simp_all
    finally show ?thesis .
  qed
  show "2 powi (ilog2 x) \<le> x" and "x < 2 powi (ilog2 x + 1)"
    using up lo by (auto simp: ilog2_def pq Let_def)
qed

lemma round_even_mono: "x \<le> y \<Longrightarrow> round_even x \<le> round_even y"
proof -
  assume le: "x \<le> y"
  show ?thesis
  proof (cases "\<lfloor>x\<rfloor> = \<lfloor>y\<rfloor>")
    case True
    with le show ?thesis by (auto simp: round_even_def Let_def)
  next
    case False
    with floor_mono [OF le] have "\<lfloor>x\<rfloor> + 1 \<le> \<lfloor>y\<rfloor>" by simp
    moreover have "round_even x \<le> \<lfloor>x\<rfloor> + 1" and "\<lfloor>y\<rfloor> \<le> round_even y"
      by (simp_all add: round_even_def Let_def)
    ultimately show ?thesis by linarith
  qed
qed

lemma round_even_of_int [simp]: "round_even (of_int k) = k"
  by (simp add: round_even_def)

lemma round_even_minus: "round_even (- x) = - round_even x"
proof (cases "x = of_int \<lfloor>x\<rfloor>")
  case True
  then show ?thesis by (metis of_int_minus round_even_of_int)
next
  case False
  then have "\<lfloor>- x\<rfloor> = - \<lfloor>x\<rfloor> - 1"
    by (metis ceiling_altdef ceiling_def floor_uminus_of_int diff_minus_eq_add minus_add_distrib
        minus_equation_iff uminus_add_conv_diff)
  then show ?thesis by (auto simp: round_even_def Let_def)
qed

lemma ilog2_mono: "0 < x \<Longrightarrow> x \<le> y \<Longrightarrow> ilog2 x \<le> ilog2 y"
proof (rule ccontr)
  assume "0 < x" and "x \<le> y" and "\<not> ilog2 x \<le> ilog2 y"
  then have "(2::rat) powi (ilog2 y + 1) \<le> 2 powi (ilog2 x)"
    by (intro power_int_increasing) simp_all
  with ilog2_bounds(1) [of x] ilog2_bounds(2) [of y] \<open>0 < x\<close> \<open>x \<le> y\<close> show False
    by linarith
qed

lemma power_int_multiple:
  assumes "e \<le> k"
  shows "(2::rat) powi k = of_int (2 ^ nat (k - e)) * 2 powi e"
proof -
  have "(2::rat) powi k = 2 powi (k - e) * 2 powi e"
    by (simp flip: power_int_add)
  with assms show ?thesis by (simp add: power_int_def)
qed

lemma round_rat_le_grid:
  assumes "0 < x" and "x \<le> 2 powi k" and "ulp_exp x \<le> k"
  shows "round_rat x \<le> 2 powi k"
proof -
  let ?e = "ulp_exp x" and ?m = "2 ^ nat (k - ulp_exp x) :: int"
  have "x / 2 powi ?e \<le> of_int ?m"
    using assms(2) power_int_multiple [OF assms(3)] by (simp add: pos_divide_le_eq)
  then have "round_even (x / 2 powi ?e) \<le> ?m"
    using round_even_mono [of _ "of_int ?m"] by (metis round_even_of_int)
  then have "(of_int (round_even (x / 2 powi ?e)) :: rat) \<le> of_int ?m"
    by (simp only: of_int_le_iff)
  then have "of_int (round_even (x / 2 powi ?e)) * 2 powi ?e \<le> of_int ?m * (2::rat) powi ?e"
    by (intro mult_right_mono) simp_all
  then show ?thesis
    using assms(1) power_int_multiple [OF assms(3)] by (simp add: round_rat_def)
qed

lemma round_rat_ge_grid:
  assumes "0 < x" and "2 powi k \<le> x" and "ulp_exp x \<le> k"
  shows "2 powi k \<le> round_rat x"
proof -
  let ?e = "ulp_exp x" and ?m = "2 ^ nat (k - ulp_exp x) :: int"
  have "of_int ?m \<le> x / 2 powi ?e"
    using assms(2) power_int_multiple [OF assms(3)] by (simp add: pos_le_divide_eq)
  then have "?m \<le> round_even (x / 2 powi ?e)"
    using round_even_mono [of "of_int ?m"] by (metis round_even_of_int)
  then have "(of_int ?m :: rat) \<le> of_int (round_even (x / 2 powi ?e))"
    by (simp only: of_int_le_iff)
  then have "of_int ?m * (2::rat) powi ?e \<le> of_int (round_even (x / 2 powi ?e)) * 2 powi ?e"
    by (intro mult_right_mono) simp_all
  then show ?thesis
    using assms(1) power_int_multiple [OF assms(3)] by (simp add: round_rat_def)
qed

lemma round_rat_mono_pos:
  assumes "0 < x" and "x \<le> y"
  shows "round_rat x \<le> round_rat y"
proof (cases "ulp_exp x = ulp_exp y")
  case True
  have "round_even (x / 2 powi (ulp_exp y)) \<le> round_even (y / 2 powi (ulp_exp y))"
    using assms(2) by (intro round_even_mono divide_right_mono) simp_all
  then have "(of_int (round_even (x / 2 powi (ulp_exp y))) :: rat)
      \<le> of_int (round_even (y / 2 powi (ulp_exp y)))"
    by (simp only: of_int_le_iff)
  with assms True show ?thesis
    by (simp add: round_rat_def mult_right_mono)
next
  case False
  have abs: "\<bar>x\<bar> = x" "\<bar>y\<bar> = y" using assms by simp_all
  have lt: "ilog2 x < ilog2 y" "ulp_exp y = ilog2 y - 52" "ulp_exp x < ilog2 y - 52"
    using False ilog2_mono [OF assms] unfolding ulp_exp_def abs by linarith+
  have "x \<le> 2 powi (ilog2 x + 1)" using ilog2_bounds(2) [OF assms(1)] by simp
  also have "\<dots> \<le> (2::rat) powi (ilog2 y)" using lt by (intro power_int_increasing) simp_all
  finally have "round_rat x \<le> 2 powi (ilog2 y)"
    using lt by (intro round_rat_le_grid assms(1)) simp_all
  also have "\<dots> \<le> round_rat y"
    using ilog2_bounds(1) [of y] assms lt by (intro round_rat_ge_grid) simp_all
  finally show ?thesis .
qed

lemma round_rat_minus: "round_rat (- x) = - round_rat x"
  by (simp add: round_rat_def ulp_exp_def round_even_minus flip: minus_divide_left)

lemma round_rat_nonneg: "0 \<le> x \<Longrightarrow> 0 \<le> round_rat x"
  using round_even_mono [of 0 "x / 2 powi (ulp_exp x)"] round_even_of_int [of 0]
  by (simp add: round_rat_def)

lemma round_rat_mono: "x \<le> y \<Longrightarrow> round_rat x \<le> round_rat y"
proof -
  assume le: "x \<le> y"
  consider "0 < x" | "y < 0" | "x \<le> 0" "0 \<le> y" using le by linarith
  then show ?thesis
  proof cases
    case 1
    then show ?thesis using le by (rule round_rat_mono_pos)
  next
    case 2
    then have "round_rat (- y) \<le> round_rat (- x)"
      using le by (intro round_rat_mono_pos) simp_all
    then show ?thesis by (simp add: round_rat_minus)
  next
    case 3
    then show ?thesis
      using round_rat_nonneg [of y] round_rat_nonneg [of "- x"] by (simp add: round_rat_minus)
  qed
qed

lemma round_rat_0 [simp]: "round_rat 0 = 0"
  by (simp add: round_rat_def)

lemma ilog2_1 [simp]: "ilog2 1 = 0"
  by (simp add: ilog2_def)

lemma round_rat_1 [simp]: "round_rat 1 = 1"
proof (rule antisym)
  have u: "ulp_exp 1 = - 52" by (simp add: ulp_exp_def)
  show "round_rat 1 \<le> 1" using round_rat_le_grid [of 1 0] by (simp add: u)
  show "1 \<le> round_rat 1" using round_rat_ge_grid [of 1 0] by (simp add: u)
qed

lemma round_f64_less_1: "f64_less (round_f64 x) (Finite 1) \<Longrightarrow> x < 1"
proof (rule ccontr)
  assume l: "f64_less (round_f64 x) (Finite 1)" and "\<not> x < 1"
  then have "1 \<le> round_rat x" and "0 < x" using round_rat_mono [of 1 x] by simp_all
  with l show False by (simp add: round_f64_def Let_def split: if_splits)
qed

lemma round_rat_of_nat:
  assumes "n < 2 ^ 53"
  shows "round_rat (of_nat n) = of_nat n"
proof (cases "n = 0")
  case False
  let ?x = "of_nat n :: rat"
  have "2 powi (ilog2 ?x) \<le> ?x" using ilog2_bounds(1) [of ?x] False by simp
  also have "?x < 2 powi 53"
    using assms by (metis of_nat_less_iff of_nat_numeral of_nat_power power_int_numeral)
  finally have "(2::rat) powi (ilog2 ?x) < 2 powi 53" .
  then have "ilog2 ?x < 53"
    by (metis linorder_not_le one_le_numeral power_int_increasing)
  then have e: "ulp_exp ?x \<le> 0" by (simp add: ulp_exp_def)
  have "(2::rat) powi (- ulp_exp ?x) = of_int (2 ^ nat (- ulp_exp ?x))"
    using e by (simp add: power_int_def)
  then have "?x / 2 powi (ulp_exp ?x) = of_int (int n * 2 ^ nat (- ulp_exp ?x))"
    by (simp add: power_int_minus divide_inverse)
  then have "of_int (round_even (?x / 2 powi (ulp_exp ?x))) = ?x / 2 powi (ulp_exp ?x)"
    by (metis round_even_of_int)
  then show ?thesis using False by (simp add: round_rat_def)
qed simp

lemma round_rat_shifted:
  assumes "n < 2 ^ 53"
  shows "round_rat (of_nat (n * 2 ^ k)) = of_nat (n * 2 ^ k)"
proof (cases "n = 0")
  case False
  let ?x = "of_nat (n * 2 ^ k) :: rat"
  have "2 powi (ilog2 ?x) \<le> ?x" using ilog2_bounds(1) [of ?x] False by simp
  also have "?x < of_nat (2 ^ 53 * 2 ^ k)" using assms by (intro of_nat_less_iff [THEN iffD2]) simp
  also have "\<dots> = 2 powi int (53 + k)" by (simp only: power_add [symmetric] power_int_of_nat) simp
  finally have "(2::rat) powi (ilog2 ?x) < 2 powi int (53 + k)" .
  then have "ilog2 ?x < int (53 + k)"
    by (metis linorder_not_le one_le_numeral power_int_increasing)
  then have e: "ulp_exp ?x \<le> int k" by (simp add: ulp_exp_def)
  have "?x / 2 powi (ulp_exp ?x) = of_nat n * 2 powi (int k - ulp_exp ?x)"
    by (simp add: power_int_diff)
  also have "\<dots> = of_int (int n * 2 ^ nat (int k - ulp_exp ?x))"
    using e by (simp add: power_int_def)
  finally have "of_int (round_even (?x / 2 powi (ulp_exp ?x))) = ?x / 2 powi (ulp_exp ?x)"
    by (metis round_even_of_int)
  then show ?thesis using False by (simp add: round_rat_def)
qed simp

lemma f64_mul_fraction:
  assumes "0 \<le> a" "a \<le> 1" "n < 2 ^ 53"
  shows "\<exists>y. f64_mul (Finite a) (Finite (of_nat n)) = Finite y \<and> 0 \<le> y \<and> y \<le> of_nat n"
proof -
  have "a * of_nat n \<le> of_nat n" using assms mult_right_mono [of a 1 "of_nat n"] by simp
  then have up: "round_rat (a * of_nat n) \<le> of_nat n"
    using round_rat_mono round_rat_of_nat [OF assms(3)] by metis
  have lo: "0 \<le> round_rat (a * of_nat n)" using assms by (intro round_rat_nonneg) simp
  have "(of_nat n :: rat) < 2 powi 53"
    using assms(3) by (metis of_nat_less_iff of_nat_numeral of_nat_power power_int_numeral)
  also have "\<dots> \<le> 2 powi 1024" by (rule power_int_increasing) simp_all
  finally have "\<bar>round_rat (a * of_nat n)\<bar> < 2 powi 1024" using up lo by linarith
  then show ?thesis using up lo by (simp add: round_f64_def Let_def)
qed

lemma f64_to_uint_le:
  assumes "f64_less (Finite 0) x \<or> f64_eq (Finite 0) x" "f64_le x (Finite (of_nat n))"
  shows "f64_to_uint w x \<le> n"
proof (cases x)
  case (Finite a)
  then have "a \<le> of_nat n" using assms(2) by simp
  then have "\<lfloor>a\<rfloor> \<le> int n" by (simp add: floor_le_iff)
  then show ?thesis using Finite by auto
qed (use assms in \<open>auto simp: f64_le_def split: if_splits\<close>)

lemma f64_to_uint_bound:
  assumes "f64_le x (Finite (of_nat n))"
  shows "f64_to_uint w x \<le> n"
proof (cases x)
  case (Finite a)
  then have "\<lfloor>a\<rfloor> \<le> int n" using assms by (simp add: floor_le_iff)
  then show ?thesis using Finite by auto
qed (use assms in \<open>auto simp: f64_le_def split: if_splits\<close>)

lemma f64_min_le: "f64_le (f64_min x (Finite b)) (Finite b)"
  by (cases x) (auto simp: f64_min_def f64_le_def)

end
