(* ===== verification/Routes.thy ===== *)
theory Routes
  imports F64
begin

text \<open>
  Swaps and routes: \<open>src/fynd-core/src/types/quote.rs\<close>, the section ROUTE & SWAP TYPES.

  \<open>ProtocolComponent\<close> and \<open>Token\<close> belong to the Tycho crates; the records here hold the fields
  that the modelled sources read. The state of a pool (\<open>Box<dyn ProtocolSim>\<close>) is the type
  parameter \<open>'s\<close>. The message of an \<open>InvalidSplit\<close> error is represented by which of its four
  format strings was used.
\<close>

record protocol_component =
  pc_id :: component_id
  pc_protocol_system :: string
  pc_chain :: string
  pc_tokens :: "address list"
  pc_static_attributes :: "string \<rightharpoonup> string"

record token =
  tk_address :: address
  tk_symbol :: string
  tk_decimals :: nat

record 's fallback_leg =
  fl_protocol_component :: protocol_component
  fl_protocol_state :: 's
  fl_amount_out :: biguint

record 's swap =
  sw_component_id :: component_id
  sw_protocol :: string
  sw_token_in :: address
  sw_token_out :: address
  sw_amount_in :: biguint
  sw_amount_out :: biguint
  sw_gas_estimate :: biguint
  sw_protocol_component :: protocol_component
  sw_protocol_state :: 's
  sw_split :: f64
  sw_committed_amount_out :: "biguint option"
  sw_fallback :: "'s fallback_leg option"

record 's route =
  rt_swaps :: "'s swap list"
  rt_tokens :: "address \<rightharpoonup> token"
  rt_fallback_amount_out :: "biguint option"

datatype split_violation =
    SingleSwapSplit
  | BranchSplitRange nat
  | LastBranchSplit
  | SplitSumTooLarge

datatype route_validation_error =
    EmptyRoute
  | DisconnectedSwaps address address
  | UnsupportedCycle address address address
  | InvalidSplit split_violation
  | DisconnectedSplitEnd address address
  | DisconnectedSplitStart address address

subsection \<open>Construction and accessors\<close>

definition swap_new ::
  "component_id \<Rightarrow> string \<Rightarrow> address \<Rightarrow> address \<Rightarrow> biguint \<Rightarrow> biguint \<Rightarrow> biguint \<Rightarrow>
   protocol_component \<Rightarrow> 's \<Rightarrow> 's swap" where
  "swap_new component_id protocol token_in token_out amount_in amount_out gas_estimate pc st =
     \<lparr>sw_component_id = component_id, sw_protocol = protocol, sw_token_in = token_in,
      sw_token_out = token_out, sw_amount_in = amount_in, sw_amount_out = amount_out,
      sw_gas_estimate = gas_estimate, sw_protocol_component = pc, sw_protocol_state = st,
      sw_split = Finite 0, sw_committed_amount_out = None, sw_fallback = None\<rparr>"

definition retarget :: "'s swap \<Rightarrow> address \<Rightarrow> address \<Rightarrow> f64 \<Rightarrow> 's swap" where
  "retarget s token_in token_out split =
     s\<lparr>sw_token_in := token_in, sw_token_out := token_out, sw_split := split\<rparr>"

definition route_new ::
  "'s swap list \<Rightarrow> (address \<rightharpoonup> token) \<Rightarrow> route_validation_error + 's route" where
  "route_new swaps tokens =
     (if swaps = [] then Inl EmptyRoute
      else Inr \<lparr>rt_swaps = swaps, rt_tokens = tokens, rt_fallback_amount_out = None\<rparr>)"

definition input_token :: "'s route \<Rightarrow> address option" where
  "input_token r = (case rt_swaps r of [] \<Rightarrow> None | s # _ \<Rightarrow> Some (sw_token_in s))"

definition output_token :: "'s route \<Rightarrow> address option" where
  "output_token r =
     (if rt_swaps r = [] then None else Some (sw_token_out (last (rt_swaps r))))"

definition intermediate_tokens :: "'s route \<Rightarrow> address list" where
  "intermediate_tokens r =
     (if length (rt_swaps r) \<le> 1 then [] else map sw_token_out (butlast (rt_swaps r)))"

definition route_amount_out :: "'s route \<Rightarrow> address \<Rightarrow> biguint" where
  "route_amount_out r t = sum_list (map sw_amount_out (filter (\<lambda>s. sw_token_out s = t) (rt_swaps r)))"

definition total_gas :: "'s route \<Rightarrow> biguint" where
  "total_gas r = foldl (\<lambda>acc g. acc + g) 0 (map sw_gas_estimate (rt_swaps r))"

definition has_exclusive_leg :: "'s route \<Rightarrow> bool" where
  "has_exclusive_leg r = list_ex (\<lambda>s. sw_committed_amount_out s \<noteq> None) (rt_swaps r)"

definition is_split :: "'s route \<Rightarrow> bool" where
  "is_split r = list_ex (\<lambda>s. f64_less (Finite 0) (sw_split s)) (rt_swaps r)"

subsection \<open>Branch collections\<close>

text \<open>
  \<open>branch_collections\<close> groups items by the token each consumes, in order of first appearance.
  The source keeps an index from token to position; \<open>push_collection\<close> finds the position by
  walking the collections, whose keys are distinct.
\<close>

fun push_collection ::
  "address \<Rightarrow> 'a \<Rightarrow> (address \<times> 'a list) list \<Rightarrow> (address \<times> 'a list) list" where
  "push_collection t x [] = [(t, [x])]"
| "push_collection t x ((t', xs) # cols) =
     (if t' = t then (t', xs @ [x]) # cols else (t', xs) # push_collection t x cols)"

definition branch_collections ::
  "('a \<Rightarrow> address) \<Rightarrow> 'a list \<Rightarrow> (address \<times> 'a list) list" where
  "branch_collections tok items = foldl (\<lambda>cols x. push_collection (tok x) x cols) [] items"

definition input_amount :: "'s route \<Rightarrow> biguint option" where
  "input_amount r =
     (case branch_collections sw_token_in (rt_swaps r) of
        [] \<Rightarrow> None
      | (_, first_collection) # _ \<Rightarrow>
          Some (foldl (\<lambda>total s. total + sw_amount_in s) 0 first_collection))"

subsection \<open>Validation of a sequential route\<close>

fun check_connected :: "'s swap list \<Rightarrow> route_validation_error + unit" where
  "check_connected (a # b # rest) =
     (if sw_token_out a \<noteq> sw_token_in b
      then Inl (DisconnectedSwaps (sw_token_out a) (sw_token_in b))
      else check_connected (b # rest))"
| "check_connected _ = Inr ()"

fun check_cycle ::
  "address \<Rightarrow> address \<Rightarrow> address set \<Rightarrow> 's swap list \<Rightarrow> route_validation_error + unit" where
  "check_cycle first_token last_token seen [] = Inr ()"
| "check_cycle first_token last_token seen (s # rest) =
     (if sw_token_out s \<in> seen \<and> \<not> (rest = [] \<and> sw_token_out s = first_token)
      then Inl (UnsupportedCycle (sw_token_out s) first_token last_token)
      else check_cycle first_token last_token (insert (sw_token_out s) seen) rest)"

definition validate_sequential_route :: "'s route \<Rightarrow> (route_validation_error + unit) run" where
  "validate_sequential_route r =
     or_return (check_connected (rt_swaps r))
       (\<lambda>_. case rt_swaps r of
              [] \<Rightarrow> panic
            | s # rest \<Rightarrow>
                ret (check_cycle (sw_token_in s) (sw_token_out (last (s # rest)))
                       {sw_token_in s} (s # rest)))"

subsection \<open>Validation of a split route\<close>

fun check_branch_splits ::
  "f64 \<Rightarrow> nat \<Rightarrow> 's swap list \<Rightarrow> route_validation_error + f64" where
  "check_branch_splits split_sum i [] = Inr split_sum"
| "check_branch_splits split_sum i (s # rest) =
     (if rest \<noteq> [] then
        (if f64_le (sw_split s) (Finite 0) \<or> f64_le (Finite 1) (sw_split s)
         then Inl (InvalidSplit (BranchSplitRange i))
         else check_branch_splits (f64_add split_sum (sw_split s)) (Suc i) rest)
      else if \<not> f64_eq (sw_split s) (Finite 0) then Inl (InvalidSplit LastBranchSplit)
      else Inr split_sum)"

fun validate_split_amounts ::
  "(address \<times> 's swap list) list \<Rightarrow> route_validation_error + unit" where
  "validate_split_amounts [] = Inr ()"
| "validate_split_amounts ((t, [s]) # cols) =
     (if \<not> f64_eq (sw_split s) (Finite 0) then Inl (InvalidSplit SingleSwapSplit)
      else validate_split_amounts cols)"
| "validate_split_amounts ((t, branch) # cols) =
     (case check_branch_splits (Finite 0) 0 branch of
        Inl e \<Rightarrow> Inl e
      | Inr split_sum \<Rightarrow>
          if f64_le (Finite 1) split_sum then Inl (InvalidSplit SplitSumTooLarge)
          else validate_split_amounts cols)"

text \<open>One turn of the BFS: the outputs of a collection that were not reached before are reached
  and queued, in order.\<close>

fun visit_outputs :: "address list \<Rightarrow> address set \<Rightarrow> address list \<Rightarrow> address set \<times> address list" where
  "visit_outputs [] reachable queue = (reachable, queue)"
| "visit_outputs (t # ts) reachable queue =
     (if t \<in> reachable then visit_outputs ts reachable queue
      else visit_outputs ts (insert t reachable) (queue @ [t]))"

text \<open>The map \<open>token_in_to_index\<close>, and the output tokens of the collection it gives for a token.\<close>

definition token_in_to_index :: "(address \<times> 'a list) list \<Rightarrow> address \<rightharpoonup> nat" where
  "token_in_to_index cols = map_of (rev (zip (map fst cols) [0..<length cols]))"

definition collection_outputs :: "(address \<times> 's swap list) list \<Rightarrow> address \<Rightarrow> address list" where
  "collection_outputs cols t =
     (case token_in_to_index cols t of
        None \<Rightarrow> []
      | Some i \<Rightarrow> map sw_token_out (snd (cols ! i)))"

definition all_outputs :: "(address \<times> 's swap list) list \<Rightarrow> address list" where
  "all_outputs cols = map sw_token_out (concat (map snd cols))"

lemma token_in_to_index_Some:
  assumes "token_in_to_index cols t = Some i"
  shows "i < length cols \<and> fst (cols ! i) = t"
proof -
  have "(t, i) \<in> set (zip (map fst cols) [0..<length cols])"
    using map_of_SomeD [OF assms [unfolded token_in_to_index_def]] by simp
  then show ?thesis by (auto simp: set_zip)
qed

lemma collection_outputs_subset: "set (collection_outputs cols t) \<subseteq> set (all_outputs cols)"
proof (cases "token_in_to_index cols t")
  case None
  then show ?thesis by (simp add: collection_outputs_def)
next
  case (Some i)
  then have "cols ! i \<in> set cols" using token_in_to_index_Some [OF Some] by simp
  then have "set (snd (cols ! i)) \<subseteq> set (concat (map snd cols))" by auto
  then show ?thesis
    using Some by (simp add: collection_outputs_def all_outputs_def image_mono)
qed

lemma visit_outputs_spec:
  assumes "visit_outputs ts reachable queue = (reachable', queue')"
  shows "reachable' = reachable \<union> set ts
    \<and> (\<exists>new. queue' = queue @ new \<and> set new = set ts - reachable \<and> distinct new)"
  using assms
proof (induction ts arbitrary: reachable queue)
  case Nil
  then show ?case by simp
next
  case (Cons t ts)
  show ?case
  proof (cases "t \<in> reachable")
    case True
    with Cons.prems Cons.IH [of reachable queue] show ?thesis by auto
  next
    case False
    with Cons.prems Cons.IH [of "insert t reachable" "queue @ [t]"]
    obtain new where "reachable' = insert t reachable \<union> set ts"
      and "queue' = (queue @ [t]) @ new" and "set new = set ts - insert t reachable"
      and "distinct new"
      by auto
    with False show ?thesis by (intro conjI exI [of _ "t # new"]) auto
  qed
qed

lemma visit_outputs_measure:
  assumes "visit_outputs ts reachable queue = (reachable', queue')"
    and "set ts \<subseteq> U" and "finite U"
  shows "card (U - reachable') + length queue' = card (U - reachable) + length queue"
proof -
  obtain new where new: "reachable' = reachable \<union> set ts" "queue' = queue @ new"
    "set new = set ts - reachable" "distinct new"
    using visit_outputs_spec [OF assms(1)] by blast
  have "U - reachable = (U - reachable') \<union> set new" and "(U - reachable') \<inter> set new = {}"
    using new assms(2) by auto
  then have "card (U - reachable) = card (U - reachable') + length new"
    using assms(3) new(4) by (metis card_Un_disjoint distinct_card finite_Diff finite_set)
  then show ?thesis by (simp add: new(2))
qed

function bfs_loop ::
  "(address \<times> 's swap list) list \<Rightarrow> address set \<Rightarrow> address list \<Rightarrow> address set" where
  "bfs_loop cols reachable [] = reachable"
| "bfs_loop cols reachable (t # queue) =
     (let (reachable', queue') = visit_outputs (collection_outputs cols t) reachable queue
      in bfs_loop cols reachable' queue')"
  by pat_completeness auto
termination
proof (relation "measure (\<lambda>(cols, reachable, queue).
    card (set (all_outputs cols) - reachable) + length queue)", goal_cases)
  case 1
  then show ?case by simp
next
  case (2 cols reachable t queue x reachable' queue')
  then have "visit_outputs (collection_outputs cols t) reachable queue = (reachable', queue')"
    by simp
  from visit_outputs_measure [OF this collection_outputs_subset] show ?case by simp
qed

definition validate_bfs_connectivity ::
  "(address \<times> 's swap list) list \<Rightarrow> (route_validation_error + unit) run" where
  "validate_bfs_connectivity cols =
     (case cols of
        [] \<Rightarrow> panic
      | (first_token, _) # _ \<Rightarrow>
          (let reachable = bfs_loop cols {first_token} [first_token]
           in case find (\<lambda>(token_in, _). token_in \<notin> reachable) cols of
                Some (token_in, _) \<Rightarrow> ret (Inl (DisconnectedSplitStart token_in first_token))
              | None \<Rightarrow> ret (Inr ())))"

definition validate_dead_ends ::
  "(address \<times> 's swap list) list \<Rightarrow> 's swap list \<Rightarrow> route_validation_error + unit" where
  "validate_dead_ends cols swaps =
     (if swaps = [] then Inl EmptyRoute
      else let terminal_token = sw_token_out (last swaps);
               non_first_input_tokens = set (map fst (drop 1 cols))
           in case find (\<lambda>s. sw_token_out s \<notin> non_first_input_tokens
                           \<and> sw_token_out s \<noteq> terminal_token) (concat (map snd cols)) of
                Some s \<Rightarrow> Inl (DisconnectedSplitEnd (sw_token_out s) terminal_token)
              | None \<Rightarrow> Inr ())"

fun check_collection_cycles ::
  "bool \<Rightarrow> address \<Rightarrow> address \<Rightarrow> address set \<Rightarrow> (address \<times> 's swap list) list \<Rightarrow>
   route_validation_error + unit" where
  "check_collection_cycles is_round_trip first_token terminal_token earlier [] = Inr ()"
| "check_collection_cycles is_round_trip first_token terminal_token earlier ((t, branch) # cols) =
     (let earlier' = insert t earlier
      in case find (\<lambda>s. sw_token_out s \<in> earlier'
                      \<and> \<not> (is_round_trip \<and> sw_token_out s = first_token)) branch of
           Some s \<Rightarrow> Inl (UnsupportedCycle (sw_token_out s) first_token terminal_token)
         | None \<Rightarrow> check_collection_cycles is_round_trip first_token terminal_token earlier' cols)"

definition validate_cycles ::
  "(address \<times> 's swap list) list \<Rightarrow> 's swap list \<Rightarrow> (route_validation_error + unit) run" where
  "validate_cycles cols swaps =
     (if swaps = [] then ret (Inl EmptyRoute)
      else let terminal_token = sw_token_out (last swaps)
           in case cols of
                [] \<Rightarrow> panic
              | (first_token, _) # _ \<Rightarrow>
                  (let is_round_trip = (first_token = terminal_token)
                   in if is_round_trip \<and> length cols \<le> 1
                      then ret (Inl (UnsupportedCycle first_token first_token terminal_token))
                      else ret (check_collection_cycles is_round_trip first_token terminal_token
                                  {} cols)))"

definition validate_split_route :: "'s route \<Rightarrow> (route_validation_error + unit) run" where
  "validate_split_route r =
     (let cols = branch_collections sw_token_in (rt_swaps r)
      in or_return (validate_split_amounts cols) (\<lambda>_.
         do {
           connected \<leftarrow> validate_bfs_connectivity cols;
           or_return connected (\<lambda>_.
             or_return (validate_dead_ends cols (rt_swaps r)) (\<lambda>_.
               do {
                 acyclic \<leftarrow> validate_cycles cols (rt_swaps r);
                 or_return acyclic (\<lambda>_. ret (Inr ()))
               }))
         }))"

definition validate_route :: "'s route \<Rightarrow> (route_validation_error + unit) run" where
  "validate_route r =
     (if rt_swaps r = [] then ret (Inl EmptyRoute)
      else if is_split r then validate_split_route r
      else validate_sequential_route r)"

subsection \<open>Branch collections group by token, in order of first appearance\<close>

definition first_seen :: "'a list \<Rightarrow> 'a list" where
  "first_seen xs = rev (remdups (rev xs))"

lemma first_seen_snoc:
  "first_seen (xs @ [x]) = (if x \<in> set xs then first_seen xs else first_seen xs @ [x])"
  by (simp add: first_seen_def)

lemma distinct_first_seen [simp]: "distinct (first_seen xs)"
  by (simp add: first_seen_def)

lemma set_first_seen [simp]: "set (first_seen xs) = set xs"
  by (simp add: first_seen_def)

lemma hd_first_seen: "xs \<noteq> [] \<Longrightarrow> first_seen xs \<noteq> [] \<and> hd (first_seen xs) = hd xs"
  by (induction xs rule: rev_induct) (auto simp: first_seen_snoc hd_append first_seen_def)

lemma push_collection_map:
  "distinct ks \<Longrightarrow>
   push_collection t x (map (\<lambda>k. (k, g k)) ks) =
     (if t \<in> set ks then map (\<lambda>k. (k, if k = t then g k @ [x] else g k)) ks
      else map (\<lambda>k. (k, g k)) ks @ [(t, [x])])"
  by (induction ks) auto

lemma branch_collections_eq:
  "branch_collections tok xs =
     map (\<lambda>t. (t, filter (\<lambda>x. tok x = t) xs)) (first_seen (map tok xs))"
proof (induction xs rule: rev_induct)
  case Nil
  then show ?case by (simp add: branch_collections_def first_seen_def)
next
  case (snoc x xs)
  have "branch_collections tok (xs @ [x]) =
      push_collection (tok x) x (branch_collections tok xs)"
    by (simp add: branch_collections_def)
  also have "\<dots> = map (\<lambda>t. (t, filter (\<lambda>x. tok x = t) (xs @ [x])))
      (first_seen (map tok (xs @ [x])))"
    by (auto simp: snoc push_collection_map first_seen_snoc filter_empty_conv
        intro: rev_image_eqI)
  finally show ?case .
qed

lemma map_fst_branch_collections [simp]:
  "map fst (branch_collections tok xs) = first_seen (map tok xs)"
  by (simp add: branch_collections_eq comp_def)

lemma length_branch_collections [simp]:
  "length (branch_collections tok xs) = length (first_seen (map tok xs))"
  by (simp add: branch_collections_eq)

lemma in_branch_collections:
  "(t, b) \<in> set (branch_collections tok xs) \<longleftrightarrow>
   t \<in> tok ` set xs \<and> b = filter (\<lambda>x. tok x = t) xs"
  by (auto simp: branch_collections_eq)

lemma set_concat_branch_collections:
  "set (concat (map snd (branch_collections tok xs))) = set xs"
  by (auto simp: branch_collections_eq)

lemma branch_collections_Cons:
  "\<exists>cols. branch_collections tok (x # xs) =
     (tok x, filter (\<lambda>y. tok y = tok x) (x # xs)) # cols"
proof -
  have "first_seen (map tok (x # xs)) \<noteq> []" "hd (first_seen (map tok (x # xs))) = tok x"
    using hd_first_seen [of "map tok (x # xs)"] by simp_all
  then obtain ks where "first_seen (map tok (x # xs)) = tok x # ks"
    by (metis list.collapse)
  then show ?thesis by (simp add: branch_collections_eq)
qed

lemma foldl_plus_sum_list: "foldl (\<lambda>acc x. acc + f x) (a::nat) xs = a + sum_list (map f xs)"
  by (induction xs arbitrary: a) simp_all

lemma input_amount_eq:
  "input_amount r =
     (case rt_swaps r of
        [] \<Rightarrow> None
      | s # _ \<Rightarrow> Some (sum_list (map sw_amount_in
                   (filter (\<lambda>s'. sw_token_in s' = sw_token_in s) (rt_swaps r)))))"
proof (cases "rt_swaps r")
  case Nil
  then show ?thesis by (simp add: input_amount_def branch_collections_def)
next
  case (Cons s rest)
  then show ?thesis
    using branch_collections_Cons [of sw_token_in s rest]
    by (auto simp: input_amount_def foldl_plus_sum_list)
qed

subsection \<open>What validation guarantees\<close>

text \<open>The tokens a sequential route visits, and the shape the validator accepts.\<close>

definition route_tokens :: "'s swap list \<Rightarrow> address list" where
  "route_tokens swaps =
     (case swaps of [] \<Rightarrow> [] | s # _ \<Rightarrow> sw_token_in s # map sw_token_out swaps)"

fun connected_swaps :: "'s swap list \<Rightarrow> bool" where
  "connected_swaps (a # b # rest) = (sw_token_out a = sw_token_in b \<and> connected_swaps (b # rest))"
| "connected_swaps _ = True"

lemma check_connected_Inr: "check_connected swaps = Inr () \<longleftrightarrow> connected_swaps swaps"
  by (induction swaps rule: check_connected.induct) auto

lemma check_cycle_Inr:
  "swaps \<noteq> [] \<Longrightarrow> first \<in> seen \<Longrightarrow>
   check_cycle first l seen swaps = Inr () \<longleftrightarrow>
     distinct (map sw_token_out (butlast swaps))
     \<and> set (map sw_token_out (butlast swaps)) \<inter> seen = {}
     \<and> (let t = sw_token_out (last swaps)
        in t \<notin> set (map sw_token_out (butlast swaps)) \<and> (t \<notin> seen \<or> t = first))"
proof (induction swaps arbitrary: seen)
  case Nil
  then show ?case by simp
next
  case (Cons s rest)
  show ?case
  proof (cases "rest = []")
    case True
    then show ?thesis by auto
  next
    case False
    with Cons show ?thesis by (auto simp: Let_def)
  qed
qed

lemma validate_sequential_route_Inr:
  assumes "rt_swaps r \<noteq> []"
  shows "validate_sequential_route r = ret (Inr ()) \<longleftrightarrow>
    connected_swaps (rt_swaps r)
    \<and> distinct (butlast (route_tokens (rt_swaps r)))
    \<and> last (route_tokens (rt_swaps r)) \<notin> set (tl (butlast (route_tokens (rt_swaps r))))"
proof -
  obtain s rest where sw: "rt_swaps r = s # rest" using assms by (cases "rt_swaps r") auto
  have bl: "butlast (route_tokens (s # rest)) = sw_token_in s # map sw_token_out (butlast (s # rest))"
    by (simp add: route_tokens_def map_butlast)
  have la: "last (route_tokens (s # rest)) = sw_token_out (last (s # rest))"
    by (simp add: route_tokens_def last_map)
  have cyc: "check_cycle (sw_token_in s) l {sw_token_in s} (s # rest) = Inr () \<longleftrightarrow>
      distinct (butlast (route_tokens (s # rest)))
      \<and> last (route_tokens (s # rest)) \<notin> set (tl (butlast (route_tokens (s # rest))))" for l
    unfolding bl la
    by (subst check_cycle_Inr) (auto simp: Let_def simp del: butlast.simps last.simps)
  have "validate_sequential_route r = ret (Inr ()) \<longleftrightarrow>
      check_connected (s # rest) = Inr ()
      \<and> check_cycle (sw_token_in s) (sw_token_out (last (s # rest))) {sw_token_in s} (s # rest)
          = Inr ()"
    unfolding validate_sequential_route_def sw
    by (cases "check_connected (s # rest)") (auto simp del: check_cycle.simps check_connected.simps)
  then show ?thesis by (simp only: sw cyc check_connected_Inr)
qed

lemma collection_outputs_branch:
  "collection_outputs (branch_collections sw_token_in swaps) t =
     map sw_token_out (filter (\<lambda>s. sw_token_in s = t) swaps)"
proof -
  let ?cols = "branch_collections sw_token_in swaps"
  show ?thesis
  proof (cases "token_in_to_index ?cols t")
    case None
    then have "t \<notin> set (map fst ?cols)"
      by (simp add: token_in_to_index_def map_of_eq_None_iff flip: set_map)
    then show ?thesis
      using None by (auto simp: collection_outputs_def filter_empty_conv)
  next
    case (Some i)
    then have "?cols ! i \<in> set ?cols" and "fst (?cols ! i) = t"
      using token_in_to_index_Some [OF Some] nth_mem by blast+
    then have "(t, snd (?cols ! i)) \<in> set ?cols" by (metis prod.collapse)
    then have "snd (?cols ! i) = filter (\<lambda>s. sw_token_in s = t) swaps"
      by (simp only: in_branch_collections)
    with Some show ?thesis by (simp add: collection_outputs_def)
  qed
qed

text \<open>The tokens that the swaps reach from a token: the specification of the BFS.\<close>

definition swap_edges :: "'s swap list \<Rightarrow> (address \<times> address) set" where
  "swap_edges swaps = (\<lambda>s. (sw_token_in s, sw_token_out s)) ` set swaps"

lemma bfs_loop_closure:
  assumes "R = {(a, b). b \<in> set (collection_outputs cols a)}"
    and "f \<in> reachable" and "reachable \<subseteq> R\<^sup>* `` {f}" and "set queue \<subseteq> reachable"
    and "\<forall>a \<in> reachable - set queue. set (collection_outputs cols a) \<subseteq> reachable"
  shows "bfs_loop cols reachable queue = R\<^sup>* `` {f}"
  using assms
proof (induction cols reachable queue rule: bfs_loop.induct)
  case (1 cols reachable)
  have "R\<^sup>* `` {f} \<subseteq> reachable"
  proof
    fix t assume "t \<in> R\<^sup>* `` {f}"
    then have "(f, t) \<in> R\<^sup>*" by simp
    then show "t \<in> reachable"
      by (induction rule: rtrancl_induct) (use 1 in auto)
  qed
  with 1 show ?case by auto
next
  case (2 cols reachable t queue)
  obtain reachable' queue' where
    v: "visit_outputs (collection_outputs cols t) reachable queue = (reachable', queue')"
    by force
  obtain new where new: "reachable' = reachable \<union> set (collection_outputs cols t)"
    "queue' = queue @ new" "set new = set (collection_outputs cols t) - reachable"
    using visit_outputs_spec [OF v] by blast
  have "(f, t) \<in> R\<^sup>*" using 2 by auto
  then have "set (collection_outputs cols t) \<subseteq> R\<^sup>* `` {f}"
    using 2 by (auto intro: rtrancl_into_rtrancl)
  then have "bfs_loop cols reachable' queue' = R\<^sup>* `` {f}"
    using 2 v new by (intro "2.IH" [OF v [symmetric] refl]) auto
  with v show ?case by simp
qed

lemma bfs_loop_reach:
  "bfs_loop (branch_collections sw_token_in swaps) {f} [f] = (swap_edges swaps)\<^sup>* `` {f}"
proof -
  have edges: "swap_edges swaps =
      {(a, b). b \<in> set (collection_outputs (branch_collections sw_token_in swaps) a)}"
    by (auto simp: swap_edges_def collection_outputs_branch)
  show ?thesis by (rule bfs_loop_closure [OF edges]) simp_all
qed

lemma check_collection_cycles_Inr:
  "check_collection_cycles trip f l earlier cols = Inr () \<longleftrightarrow>
   (\<forall>i < length cols. \<forall>s \<in> set (snd (cols ! i)).
      sw_token_out s \<in> earlier \<union> set (map fst (take (Suc i) cols)) \<longrightarrow>
      trip \<and> sw_token_out s = f)"
proof (induction cols arbitrary: earlier)
  case Nil
  then show ?case by simp
next
  case (Cons c cols)
  obtain t branch where c: "c = (t, branch)" by force
  have "check_collection_cycles trip f l earlier (c # cols) = Inr () \<longleftrightarrow>
      (\<forall>s \<in> set branch. sw_token_out s \<in> insert t earlier \<longrightarrow> trip \<and> sw_token_out s = f)
      \<and> check_collection_cycles trip f l (insert t earlier) cols = Inr ()"
    by (auto simp: c Let_def case_find_Inr)
  then show ?case by (auto simp: Cons.IH All_less_Suc2 c)
qed

lemma token_in_to_index_iff:
  assumes "distinct (map fst cols)"
  shows "token_in_to_index cols t = Some i \<longleftrightarrow> i < length cols \<and> fst (cols ! i) = t"
proof -
  have "distinct (map fst (rev (zip (map fst cols) [0..<length cols])))"
    using assms by (simp flip: rev_map)
  then show ?thesis
    by (auto simp: token_in_to_index_def map_of_eq_Some_iff set_zip intro!: exI [of _ i])
qed

lemma validate_split_route_Inr:
  assumes "validate_split_route r = ret (Inr ())" and "rt_swaps r = s0 # rest"
  defines "cols \<equiv> branch_collections sw_token_in (rt_swaps r)"
    and "first \<equiv> sw_token_in s0" and "terminal \<equiv> sw_token_out (last (rt_swaps r))"
  shows "validate_split_amounts cols = Inr ()"
    and "\<forall>s \<in> set (rt_swaps r). (first, sw_token_in s) \<in> (swap_edges (rt_swaps r))\<^sup>*"
    and "\<forall>s \<in> set (rt_swaps r). sw_token_out s \<in> set (map fst (drop 1 cols)) \<or> sw_token_out s = terminal"
    and "check_collection_cycles (first = terminal) first terminal {} cols = Inr ()"
proof -
  obtain b rest_cols where cols: "cols = (first, b) # rest_cols"
    using branch_collections_Cons [of sw_token_in s0 rest] assms(2)
    unfolding cols_def first_def by auto
  have reach: "bfs_loop cols {first} [first] = (swap_edges (rt_swaps r))\<^sup>* `` {first}"
    unfolding cols_def by (rule bfs_loop_reach)
  have all: "validate_split_amounts cols = Inr ()"
    "validate_bfs_connectivity cols = ret (Inr ())"
    "validate_dead_ends cols (rt_swaps r) = Inr ()"
    "validate_cycles cols (rt_swaps r) = ret (Inr ())"
    using assms(1) unfolding validate_split_route_def cols_def [symmetric]
    by (auto simp: or_return_Inr_iff bind_eq_Some_conv Let_def)
  show "validate_split_amounts cols = Inr ()" by (fact all(1))
  have "\<forall>c \<in> set cols. fst c \<in> bfs_loop cols {first} [first]"
    using all(2) unfolding validate_bfs_connectivity_def
    by (auto simp: cols Let_def find_None_iff split: option.splits prod.splits if_splits)
  then show "\<forall>s \<in> set (rt_swaps r). (first, sw_token_in s) \<in> (swap_edges (rt_swaps r))\<^sup>*"
    unfolding reach by (force simp: cols_def branch_collections_eq)
  have "set (concat (map snd cols)) = set (rt_swaps r)"
    unfolding cols_def by (rule set_concat_branch_collections)
  then show "\<forall>s \<in> set (rt_swaps r).
      sw_token_out s \<in> set (map fst (drop 1 cols)) \<or> sw_token_out s = terminal"
    using all(3) assms(2) unfolding validate_dead_ends_def terminal_def
    by (auto simp: Let_def find_None_iff simp del: set_concat split: option.splits)
  show "check_collection_cycles (first = terminal) first terminal {} cols = Inr ()"
    using all(4) assms(2) unfolding validate_cycles_def terminal_def
    by (auto simp: Let_def cols split: if_splits)
qed

lemma split_output_not_earlier:
  assumes "validate_split_route r = ret (Inr ())" and "rt_swaps r = s0 # rest"
    and "s \<in> set (rt_swaps r)"
    and "token_in_to_index (branch_collections sw_token_in (rt_swaps r)) (sw_token_in s) = Some i"
    and "token_in_to_index (branch_collections sw_token_in (rt_swaps r)) (sw_token_out s) = Some j"
    and "j \<le> i"
  shows "sw_token_out s = sw_token_in s0 \<and> sw_token_in s0 = sw_token_out (last (rt_swaps r))"
proof -
  let ?cols = "branch_collections sw_token_in (rt_swaps r)"
  have i: "i < length ?cols" "fst (?cols ! i) = sw_token_in s"
    and j: "j < length ?cols" "fst (?cols ! j) = sw_token_out s"
    using token_in_to_index_Some [OF assms(4)] token_in_to_index_Some [OF assms(5)] by blast+
  have "(sw_token_in s, snd (?cols ! i)) \<in> set ?cols"
    using i by (metis nth_mem prod.collapse)
  then have "snd (?cols ! i) = filter (\<lambda>s'. sw_token_in s' = sw_token_in s) (rt_swaps r)"
    by (simp only: in_branch_collections)
  then have "s \<in> set (snd (?cols ! i))" using assms(3) by simp
  moreover have "sw_token_out s \<in> set (map fst (take (Suc i) ?cols))"
  proof -
    have "?cols ! j \<in> set (take (Suc i) ?cols)"
      using assms(6) i(1) by (auto simp: set_conv_nth intro!: exI [of _ j])
    then show ?thesis using j(2) by force
  qed
  ultimately show ?thesis
    using validate_split_route_Inr(4) [OF assms(1,2)] i(1)
    unfolding check_collection_cycles_Inr by blast
qed

lemma swap_token_in_index:
  assumes "s \<in> set swaps"
  obtains i where "token_in_to_index (branch_collections sw_token_in swaps) (sw_token_in s) = Some i"
proof -
  have d: "distinct (map fst (branch_collections sw_token_in swaps))" by simp
  have "sw_token_in s \<in> set (map fst (branch_collections sw_token_in swaps))"
    using assms by simp
  then obtain c where "c \<in> set (branch_collections sw_token_in swaps)" and "fst c = sw_token_in s"
    by (auto simp del: map_fst_branch_collections)
  then obtain i where "i < length (branch_collections sw_token_in swaps)"
    and "fst (branch_collections sw_token_in swaps ! i) = sw_token_in s"
    by (auto simp: in_set_conv_nth)
  then show thesis using that token_in_to_index_iff [OF d] by blast
qed

lemma first_token_index:
  assumes "swaps = s0 # rest"
  shows "token_in_to_index (branch_collections sw_token_in swaps) (sw_token_in s0) = Some 0"
proof -
  have d: "distinct (map fst (branch_collections sw_token_in swaps))" by simp
  obtain cols where "branch_collections sw_token_in swaps =
      (sw_token_in s0, filter (\<lambda>y. sw_token_in y = sw_token_in s0) (s0 # rest)) # cols"
    using branch_collections_Cons [of sw_token_in s0 rest] assms by auto
  then show ?thesis using token_in_to_index_iff [OF d, of "sw_token_in s0" 0] by simp
qed

lemma sequential_input_not_produced:
  assumes "validate_sequential_route r = ret (Inr ())" and "rt_swaps r = s0 # rest"
    and "sw_token_in s0 \<noteq> sw_token_out (last (rt_swaps r))" and "s \<in> set (rt_swaps r)"
  shows "sw_token_out s \<noteq> sw_token_in s0"
proof -
  let ?outs = "map sw_token_out (rt_swaps r)"
  have ne: "?outs \<noteq> []" using assms(2) by simp
  have rt: "route_tokens (rt_swaps r) = sw_token_in s0 # ?outs"
    by (simp add: route_tokens_def assms(2))
  have "distinct (butlast (route_tokens (rt_swaps r)))"
    using assms(1,2) by (subst (asm) validate_sequential_route_Inr) auto
  then have "sw_token_in s0 \<notin> set (butlast ?outs)" using ne by (simp add: rt)
  moreover have "sw_token_in s0 \<noteq> last ?outs" using assms(3) ne by (simp add: last_map)
  ultimately have "sw_token_in s0 \<notin> set ?outs"
    by (metis append_butlast_last_id in_set_conv_decomp ne rotate1.simps(2) set_ConsD set_rotate1)
  with assms(4) show ?thesis by force
qed

subsection \<open>Properties\<close>

text \<open>Validation of a route never panics: the indexings of the first collection, the first and
  the last swap are guarded by the checks before them.\<close>

lemma validate_route_no_panic: "validate_route r \<noteq> panic"
proof (cases "rt_swaps r")
  case Nil
  then show ?thesis by (simp add: validate_route_def)
next
  case (Cons s rest)
  obtain f b cols where cols: "branch_collections sw_token_in (rt_swaps r) = (f, b) # cols"
    using branch_collections_Cons [of sw_token_in s rest] Cons by auto
  have "validate_bfs_connectivity ((f, b) # cols) \<noteq> panic"
    by (auto simp: validate_bfs_connectivity_def Let_def simp del: find.simps bfs_loop.simps
        split: option.splits prod.splits)
  then obtain x where bfs: "validate_bfs_connectivity ((f, b) # cols) = Some x" by auto
  have "validate_cycles ((f, b) # cols) (rt_swaps r) \<noteq> panic"
    by (simp add: validate_cycles_def Let_def)
  then obtain y where cyc: "validate_cycles ((f, b) # cols) (rt_swaps r) = Some y" by auto
  have "validate_split_route r \<noteq> panic"
    unfolding validate_split_route_def cols Let_def by (simp add: bfs cyc or_return_def split: sum.split)
  moreover have "validate_sequential_route r \<noteq> panic"
    unfolding validate_sequential_route_def Cons by (simp add: or_return_def split: sum.split)
  ultimately show ?thesis by (simp add: validate_route_def)
qed

text \<open>C9: a validated route whose input and output token differ feeds its input token only from
  the order: no swap produces it, and \<open>input_amount\<close> is the whole input that the swaps taking
  the input token consume.\<close>

theorem validated_input_exact:
  assumes "validate_route r = ret (Inr ())" and "input_token r \<noteq> output_token r"
  shows "(\<forall>s \<in> set (rt_swaps r). Some (sw_token_out s) \<noteq> input_token r)
    \<and> input_amount r = Some (sum_list (map sw_amount_in
         (filter (\<lambda>s. Some (sw_token_in s) = input_token r) (rt_swaps r))))"
proof -
  obtain s0 rest where sw: "rt_swaps r = s0 # rest"
    using assms(1) by (cases "rt_swaps r") (auto simp: validate_route_def)
  have tin: "input_token r = Some (sw_token_in s0)" by (simp add: input_token_def sw)
  have ne: "sw_token_in s0 \<noteq> sw_token_out (last (rt_swaps r))"
    using assms(2) by (simp add: input_token_def output_token_def sw)
  have "sw_token_out s \<noteq> sw_token_in s0" if s: "s \<in> set (rt_swaps r)" for s
  proof (cases "is_split r")
    case True
    then have v: "validate_split_route r = ret (Inr ())"
      using assms(1) by (simp add: validate_route_def sw)
    obtain i where
      i: "token_in_to_index (branch_collections sw_token_in (rt_swaps r)) (sw_token_in s) = Some i"
      using swap_token_in_index [OF s] by blast
    show ?thesis
      using split_output_not_earlier [OF v sw s i, of 0] first_token_index [OF sw] ne by auto
  next
    case False
    then have v: "validate_sequential_route r = ret (Inr ())"
      using assms(1) by (simp add: validate_route_def sw)
    show ?thesis by (rule sequential_input_not_produced [OF v sw ne s])
  qed
  then show ?thesis by (simp add: tin input_amount_eq sw)
qed

text \<open>The example routes of the witnesses: \<open>A \<rightarrow> B \<rightarrow> C\<close>, and a split over two pools \<open>A \<rightarrow> B\<close> followed
  by \<open>B \<rightarrow> C\<close>.\<close>

definition example_component :: protocol_component where
  "example_component =
     \<lparr>pc_id = ''pool'', pc_protocol_system = ''uniswap_v2'', pc_chain = ''ethereum'',
      pc_tokens = [''A'', ''B''], pc_static_attributes = Map.empty\<rparr>"

definition example_swap :: "address \<Rightarrow> address \<Rightarrow> biguint \<Rightarrow> biguint \<Rightarrow> unit swap" where
  "example_swap a b x y = swap_new ''pool'' ''uniswap_v2'' a b x y 100 example_component ()"

definition example_route :: "unit route" where
  "example_route =
     \<lparr>rt_swaps = [example_swap ''A'' ''B'' 10 20, example_swap ''B'' ''C'' 20 30],
      rt_tokens = Map.empty, rt_fallback_amount_out = None\<rparr>"

definition example_split_route :: "unit route" where
  "example_split_route =
     \<lparr>rt_swaps = [(example_swap ''A'' ''B'' 4 8)\<lparr>sw_split := Finite (1 / 2)\<rparr>,
                  example_swap ''A'' ''B'' 6 12, example_swap ''B'' ''C'' 20 30],
      rt_tokens = Map.empty, rt_fallback_amount_out = None\<rparr>"

lemma example_route_valid: "validate_route example_route = ret (Inr ())"
  by (simp add: validate_route_def example_route_def example_swap_def swap_new_def is_split_def
      validate_sequential_route_def)

lemma round_rat_half: "round_rat (1 / 2) = 1 / 2"
proof -
  have "quotient_of (1 / 2) = (1, 2)" by code_simp
  moreover have "bitlen 2 = 2" by (simp add: bitlen_def floorlog_def)
  moreover have "bitlen 1 = 1" by (simp add: bitlen_def floorlog_def)
  ultimately have "ilog2 (1 / 2) = - 1"
    by (simp add: ilog2_def)
  then have "ulp_exp (1 / 2) = - 53" by (simp add: ulp_exp_def)
  then show ?thesis by (simp add: round_rat_def round_even_def)
qed

lemma example_split_route_valid: "validate_split_route example_split_route = ret (Inr ())"
  by (simp add: validate_split_route_def example_split_route_def example_swap_def swap_new_def
      branch_collections_def round_f64_def round_rat_half validate_bfs_connectivity_def
      collection_outputs_def token_in_to_index_def validate_dead_ends_def validate_cycles_def)

theorem validated_input_exact_witness:
  "validate_route example_route = ret (Inr ())
   \<and> input_token example_route \<noteq> output_token example_route
   \<and> input_amount example_route = Some 10"
proof -
  have ne: "input_token example_route \<noteq> output_token example_route"
    by (simp add: input_token_def output_token_def example_route_def example_swap_def swap_new_def)
  show ?thesis
    using validated_input_exact [OF example_route_valid ne] ne example_route_valid
    by (simp add: input_token_def example_route_def example_swap_def swap_new_def)
qed



text \<open>C10: a non-split route is accepted exactly when consecutive swaps share a token and no token
  repeats, the last one excepted when it closes the round trip to the first.\<close>

theorem validate_sequential_characterisation:
  assumes "\<not> is_split r" and "rt_swaps r \<noteq> []"
  shows "validate_route r = ret (Inr ()) \<longleftrightarrow>
    connected_swaps (rt_swaps r)
    \<and> distinct (butlast (route_tokens (rt_swaps r)))
    \<and> last (route_tokens (rt_swaps r)) \<notin> set (tl (butlast (route_tokens (rt_swaps r))))"
  using validate_sequential_route_Inr [OF assms(2)] assms by (simp add: validate_route_def)

theorem validate_sequential_characterisation_witness:
  "\<not> is_split example_route \<and> rt_swaps example_route \<noteq> []
   \<and> distinct (butlast (route_tokens (rt_swaps example_route)))"
proof -
  have h: "\<not> is_split example_route" "rt_swaps example_route \<noteq> []"
    by (simp_all add: is_split_def example_route_def example_swap_def swap_new_def)
  show ?thesis
    using validate_sequential_characterisation [OF h] example_route_valid h by blast
qed

text \<open>C11: the breadth-first search of the split validator terminates and visits exactly the tokens
  that the swaps reach from the start token.\<close>

theorem bfs_visits_reachable:
  "bfs_loop (branch_collections sw_token_in swaps) {f} [f] = (swap_edges swaps)\<^sup>* `` {f}"
  by (rule bfs_loop_reach)

end
