(* ===== verification/Quotes.thy ===== *)
theory Quotes
  imports Routes
begin

text \<open>
  Requests, quotes and errors: \<open>src/fynd-core/src/types/quote.rs\<close> and
  \<open>src/fynd-core/src/types/internal.rs\<close>.

  The accessors of the sources are the record selectors here. Fields of \<open>EncodingOptions\<close> that only
  the Tycho encoder reads (transfer type, permits, watermark, hooks) are not part of the record.
\<close>

datatype no_path_reason =
    SourceTokenNotInGraph | DestinationTokenNotInGraph | NoGraphPath | NoScorablePaths | AmountTooSmall

datatype route_rejection =
    FallbackPoolMissing | FallbackNotSimulatable | FallbackExcluded | FallbackBelowMinAmountOut

datatype solve_error =
    NoRouteFound string "no_path_reason option"
  | RouteRejected string route_rejection
  | InsufficientLiquidity biguint biguint
  | Timeout nat
  | AlgorithmError string
  | MarketDataStale nat
  | QueueFull
  | InvalidOrder string
  | Internal string
  | InvalidWorkerPools string
  | NotReady string
  | ComputationFailed string
  | FailedEncoding string
  | EncodingUnavailable string
  | PriceCheckFailed string
  | MaxGasExceeded
  | RequiredTokensNotSupported
  | MissingData string
  | SimulationFailed string

definition is_retryable :: "solve_error \<Rightarrow> bool" where
  "is_retryable e = (case e of Timeout _ \<Rightarrow> True | MarketDataStale _ \<Rightarrow> True | QueueFull \<Rightarrow> True | _ \<Rightarrow> False)"

fun solve_error_label :: "solve_error \<Rightarrow> string" where
  "solve_error_label (Timeout _) = ''timeout''"
| "solve_error_label (NoRouteFound _ _) = ''no_route''"
| "solve_error_label (RouteRejected _ _) = ''route_rejected''"
| "solve_error_label (InsufficientLiquidity _ _) = ''insufficient_liquidity''"
| "solve_error_label QueueFull = ''queue_full''"
| "solve_error_label (Internal _) = ''internal''"
| "solve_error_label (InvalidWorkerPools _) = ''invalid_worker_pools''"
| "solve_error_label (PriceCheckFailed _) = ''price_check_failed''"
| "solve_error_label (AlgorithmError _) = ''algorithm_error''"
| "solve_error_label (MarketDataStale _) = ''market_data_stale''"
| "solve_error_label (InvalidOrder _) = ''invalid_order''"
| "solve_error_label (NotReady _) = ''not_ready''"
| "solve_error_label (ComputationFailed _) = ''computation_failed''"
| "solve_error_label (FailedEncoding _) = ''encoding_failed''"
| "solve_error_label (EncodingUnavailable _) = ''encoding_unavailable''"
| "solve_error_label MaxGasExceeded = ''max_gas_exceeded''"
| "solve_error_label RequiredTokensNotSupported = ''required_tokens_not_supported''"
| "solve_error_label (MissingData _) = ''missing_data''"
| "solve_error_label (SimulationFailed _) = ''simulation_failed''"

datatype quote_status =
    QSuccess | QNoRouteFound | QInsufficientLiquidity | QTimeout | QNotReady
  | QPriceCheckFailed | QEncodingFailed

datatype algorithm_error =
    InvalidConfiguration string
  | NoPath address address no_path_reason
  | AlgInsufficientLiquidity
  | AlgTimeout nat
  | ExactOutNotSupported
  | AlgSimulationFailed component_id string
  | DataNotFound string "string option"
  | OtherAlgorithmError string

fun status_of_algorithm_error :: "algorithm_error \<Rightarrow> quote_status" where
  "status_of_algorithm_error (NoPath _ _ _) = QNoRouteFound"
| "status_of_algorithm_error AlgInsufficientLiquidity = QInsufficientLiquidity"
| "status_of_algorithm_error (AlgTimeout _) = QTimeout"
| "status_of_algorithm_error ExactOutNotSupported = QNoRouteFound"
| "status_of_algorithm_error (OtherAlgorithmError _) = QNoRouteFound"
| "status_of_algorithm_error (InvalidConfiguration _) = QNoRouteFound"
| "status_of_algorithm_error (AlgSimulationFailed _ _) = QNoRouteFound"
| "status_of_algorithm_error (DataNotFound _ _) = QNoRouteFound"

subsection \<open>Requests\<close>

datatype order_side = Sell

record order =
  od_id :: string
  od_token_in :: address
  od_token_out :: address
  od_amount :: biguint
  od_side :: order_side
  od_sender :: address
  od_receiver :: "address option"

definition effective_receiver :: "order \<Rightarrow> address" where
  "effective_receiver d = (case od_receiver d of Some a \<Rightarrow> a | None \<Rightarrow> od_sender d)"

datatype order_validation_error = SameTokens | ZeroAmount

definition validate_order :: "order \<Rightarrow> order_validation_error + unit" where
  "validate_order d =
     (if od_token_in d = od_token_out d then Inl SameTokens
      else if od_amount d = 0 then Inl ZeroAmount
      else Inr ())"

record route_constraints =
  rc_excluded_pools :: "component_id set"
  rc_excluded_protocols :: "string set"
  rc_excluded_tokens :: "address set"
  rc_required_tokens :: "address set"

definition route_constraints_is_empty :: "route_constraints \<Rightarrow> bool" where
  "route_constraints_is_empty c =
     (rc_excluded_pools c = {} \<and> rc_excluded_protocols c = {} \<and> rc_excluded_tokens c = {}
      \<and> rc_required_tokens c = {})"

datatype route_constraints_error = RequiredTokenExcluded address

text \<open>\<open>next\<close> is the first element of a hash set in its iteration order, which the standard library
  leaves open.\<close>

definition validate_route_constraints ::
  "(address set \<Rightarrow> address option) \<Rightarrow> route_constraints \<Rightarrow> route_constraints_error + unit" where
  "validate_route_constraints next_of c =
     (case next_of (rc_required_tokens c \<inter> rc_excluded_tokens c) of
        Some t \<Rightarrow> Inl (RequiredTokenExcluded t)
      | None \<Rightarrow> Inr ())"

record resolved_route_constraints =
  rr_excluded_pools :: "component_id set"
  rr_excluded_tokens :: "address set"
  rr_required_tokens :: "address set"
  rr_unsynced_pools :: "component_id set"

definition is_unsynced_pool :: "resolved_route_constraints \<Rightarrow> component_id \<Rightarrow> bool" where
  "is_unsynced_pool c p = (p \<in> rr_unsynced_pools c)"

definition excludes_pool :: "resolved_route_constraints \<Rightarrow> component_id \<Rightarrow> bool" where
  "excludes_pool c p = (p \<in> rr_excluded_pools c \<or> is_unsynced_pool c p)"

definition excludes_token :: "resolved_route_constraints \<Rightarrow> address \<Rightarrow> bool" where
  "excludes_token c t = (t \<in> rr_excluded_tokens c)"

definition allows_token :: "resolved_route_constraints \<Rightarrow> address \<Rightarrow> address \<times> address \<Rightarrow> bool" where
  "allows_token c t endpoints = (t = fst endpoints \<or> t = snd endpoints \<or> \<not> excludes_token c t)"

definition resolved_is_empty :: "resolved_route_constraints \<Rightarrow> bool" where
  "resolved_is_empty c =
     (rr_excluded_pools c = {} \<and> rr_excluded_tokens c = {} \<and> rr_unsynced_pools c = {})"

definition visits_all_required_tokens :: "resolved_route_constraints \<Rightarrow> address list \<Rightarrow> bool" where
  "visits_all_required_tokens c path = (\<forall>t \<in> rr_required_tokens c. t \<in> set path)"

record client_fee_params =
  cf_bps :: nat
  cf_receiver :: address
  cf_max_contribution :: biguint
  cf_deadline :: nat
  cf_signature :: string

record price_guard_config =
  pg_lower_tolerance_bps :: nat
  pg_upper_tolerance_bps :: nat
  pg_fail_on_provider_error :: bool
  pg_fail_on_token_price_not_found :: bool
  pg_enabled :: bool

definition default_price_guard_config :: price_guard_config where
  "default_price_guard_config =
     \<lparr>pg_lower_tolerance_bps = 300, pg_upper_tolerance_bps = 10000,
      pg_fail_on_provider_error = False, pg_fail_on_token_price_not_found = False,
      pg_enabled = False\<rparr>"

datatype user_transfer_type = TransferFromPermit2 | TransferFrom | UseVaultsFunds

record permit_details =
  pd_token :: address
  pd_amount :: biguint
  pd_expiration :: biguint
  pd_nonce :: biguint

record permit_single =
  ps_details :: permit_details
  ps_spender :: address
  ps_sig_deadline :: biguint

record encoding_options =
  eo_slippage :: f64
  eo_transfer_type :: user_transfer_type
  eo_permit :: "permit_single option"
  eo_permit2_signature :: "string option"
  eo_client_fee_params :: "client_fee_params option"
  eo_price_guard :: price_guard_config
  eo_simulate :: bool
  eo_calldata_watermark :: "string option"
  eo_jit_router :: bool

definition encoding_options_new :: "f64 \<Rightarrow> encoding_options" where
  "encoding_options_new slippage =
     \<lparr>eo_slippage = slippage, eo_transfer_type = TransferFrom, eo_permit = None,
      eo_permit2_signature = None, eo_client_fee_params = None,
      eo_price_guard = default_price_guard_config, eo_simulate = False,
      eo_calldata_watermark = None, eo_jit_router = False\<rparr>"

datatype encoding_options_error = InvalidSlippage f64 | ClientFeeTooHigh nat

definition legacy_bps_denominator :: nat where
  "legacy_bps_denominator = 10000"

definition validate_encoding_options :: "encoding_options \<Rightarrow> encoding_options_error + unit" where
  "validate_encoding_options opts =
     (if \<not> (f64_le (Finite 0) (eo_slippage opts) \<and> f64_less (eo_slippage opts) (Finite 1))
      then Inl (InvalidSlippage (eo_slippage opts))
      else case eo_client_fee_params opts of
             Some params \<Rightarrow>
               if legacy_bps_denominator < cf_bps params
               then Inl (ClientFeeTooHigh (cf_bps params))
               else Inr ()
           | None \<Rightarrow> Inr ())"

record quote_options =
  qo_timeout_ms :: "nat option"
  qo_min_responses :: "nat option"
  qo_max_gas :: "biguint option"
  qo_encoding_options :: "encoding_options option"
  qo_state_label :: "state_label option"
  qo_worker_pools :: "string list option"
  qo_route_filter :: route_constraints

record quote_request =
  qr_orders :: "order list"
  qr_options :: quote_options

subsection \<open>Responses\<close>

record block_info =
  bi_number :: nat
  bi_hash :: string
  bi_timestamp :: nat

record surplus_info =
  si_surplus_amount :: biguint
  si_committed_amount_out :: biguint

record fee_breakdown =
  fb_router_fee :: biguint
  fb_client_fee :: biguint
  fb_max_slippage :: biguint
  fb_min_amount_received :: biguint
  fb_swaps_hash :: "string option"

record transaction =
  tx_to :: address
  tx_value :: biguint
  tx_data :: string
  tx_client_fee_signature_offset :: "nat option"

record event_log =
  el_address :: address
  el_topics :: "string list"
  el_data :: string

datatype simulation_result =
    SimSuccess biguint nat "event_log list"
  | SimReverted string
  | SimFailure string
  | SimBlockUnavailable string

record 's order_quote =
  oq_order_id :: string
  oq_status :: quote_status
  oq_route :: "'s route option"
  oq_amount_in :: biguint
  oq_amount_out :: biguint
  oq_gas_estimate :: biguint
  oq_price_impact_bps :: "int option"
  oq_amount_out_net_gas :: biguint
  oq_block :: block_info
  oq_algorithm :: string
  oq_worker_pool :: string
  oq_post_processed_by :: "string list"
  oq_gas_price :: "biguint option"
  oq_transaction :: "transaction option"
  oq_fee_breakdown :: "fee_breakdown option"
  oq_simulation_result :: "simulation_result option"
  oq_sender :: address
  oq_receiver :: address
  oq_solved_against :: state_label
  oq_no_route_cause :: "solve_error option"
  oq_surplus :: "surplus_info option"
  oq_subsidy_amount :: "biguint option"

definition order_quote_new ::
  "string \<Rightarrow> quote_status \<Rightarrow> biguint \<Rightarrow> biguint \<Rightarrow> biguint \<Rightarrow> biguint \<Rightarrow> block_info \<Rightarrow> string \<Rightarrow>
   address \<Rightarrow> address \<Rightarrow> state_label \<Rightarrow> 's order_quote" where
  "order_quote_new order_id status amount_in amount_out gas_estimate amount_out_net_gas block
     algorithm sender receiver solved_against =
     \<lparr>oq_order_id = order_id, oq_status = status, oq_route = None, oq_amount_in = amount_in,
      oq_amount_out = amount_out, oq_gas_estimate = gas_estimate, oq_price_impact_bps = None,
      oq_amount_out_net_gas = amount_out_net_gas, oq_block = block, oq_algorithm = algorithm,
      oq_worker_pool = [], oq_post_processed_by = [], oq_gas_price = None, oq_transaction = None,
      oq_fee_breakdown = None, oq_simulation_result = None, oq_sender = sender,
      oq_receiver = receiver, oq_solved_against = solved_against, oq_no_route_cause = None,
      oq_surplus = None, oq_subsidy_amount = None\<rparr>"

definition with_surplus :: "'s order_quote \<Rightarrow> surplus_info \<Rightarrow> 's order_quote" where
  "with_surplus q si = q\<lparr>oq_surplus := Some si\<rparr>"

definition set_status :: "'s order_quote \<Rightarrow> quote_status \<Rightarrow> 's order_quote" where
  "set_status q st = q\<lparr>oq_status := st\<rparr>"

definition set_amount_in :: "'s order_quote \<Rightarrow> biguint \<Rightarrow> 's order_quote" where
  "set_amount_in q v =
     q\<lparr>oq_amount_in := v, oq_transaction := None, oq_fee_breakdown := None,
       oq_simulation_result := None, oq_subsidy_amount := None\<rparr>"

definition set_amount_out :: "'s order_quote \<Rightarrow> biguint \<Rightarrow> 's order_quote run" where
  "set_amount_out q v =
     (if oq_amount_out q \<le> v then
        (if 0 < oq_amount_out_net_gas q then
           do {
             gained \<leftarrow> biguint_sub v (oq_amount_out q);
             ret (q\<lparr>oq_amount_out_net_gas := oq_amount_out_net_gas q + gained, oq_amount_out := v\<rparr>)
           }
         else ret (q\<lparr>oq_amount_out := v\<rparr>))
      else
        do {
          lost \<leftarrow> biguint_sub (oq_amount_out q) v;
          net \<leftarrow> (if lost < oq_amount_out_net_gas q then biguint_sub (oq_amount_out_net_gas q) lost
                  else ret 0);
          ret (q\<lparr>oq_amount_out_net_gas := net, oq_amount_out := v\<rparr>)
        })"

definition retract :: "'s order_quote \<Rightarrow> quote_status \<Rightarrow> 's order_quote" where
  "retract q st =
     q\<lparr>oq_status := st, oq_route := None, oq_transaction := None, oq_fee_breakdown := None,
       oq_simulation_result := None, oq_surplus := None, oq_subsidy_amount := None,
       oq_price_impact_bps := None, oq_amount_out := 0, oq_amount_out_net_gas := 0,
       oq_gas_estimate := 0\<rparr>"

definition set_amount_out_net_gas :: "'s order_quote \<Rightarrow> biguint \<Rightarrow> 's order_quote" where
  "set_amount_out_net_gas q v = q\<lparr>oq_amount_out_net_gas := v\<rparr>"

definition set_gas_estimate :: "'s order_quote \<Rightarrow> biguint \<Rightarrow> 's order_quote" where
  "set_gas_estimate q v = q\<lparr>oq_gas_estimate := v\<rparr>"

definition set_worker_pool :: "'s order_quote \<Rightarrow> string \<Rightarrow> 's order_quote" where
  "set_worker_pool q p = q\<lparr>oq_worker_pool := p\<rparr>"

definition set_no_route_cause :: "'s order_quote \<Rightarrow> solve_error option \<Rightarrow> 's order_quote" where
  "set_no_route_cause q c = q\<lparr>oq_no_route_cause := c\<rparr>"

definition set_simulation_result :: "'s order_quote \<Rightarrow> simulation_result \<Rightarrow> 's order_quote" where
  "set_simulation_result q r = q\<lparr>oq_simulation_result := Some r\<rparr>"

definition with_route :: "'s order_quote \<Rightarrow> 's route \<Rightarrow> 's order_quote" where
  "with_route q r = q\<lparr>oq_route := Some r\<rparr>"

definition with_gas_price :: "'s order_quote \<Rightarrow> biguint \<Rightarrow> 's order_quote" where
  "with_gas_price q g = q\<lparr>oq_gas_price := Some g\<rparr>"

definition with_price_impact_bps :: "'s order_quote \<Rightarrow> int \<Rightarrow> 's order_quote" where
  "with_price_impact_bps q b = q\<lparr>oq_price_impact_bps := Some b\<rparr>"

definition set_transaction :: "'s order_quote \<Rightarrow> transaction \<Rightarrow> 's order_quote" where
  "set_transaction q t = q\<lparr>oq_transaction := Some t\<rparr>"

definition set_fee_breakdown :: "'s order_quote \<Rightarrow> fee_breakdown \<Rightarrow> 's order_quote" where
  "set_fee_breakdown q b = q\<lparr>oq_fee_breakdown := Some b\<rparr>"

definition set_subsidy_amount :: "'s order_quote \<Rightarrow> biguint option \<Rightarrow> 's order_quote" where
  "set_subsidy_amount q a = q\<lparr>oq_subsidy_amount := a\<rparr>"

definition set_post_processed_by :: "'s order_quote \<Rightarrow> string list \<Rightarrow> 's order_quote" where
  "set_post_processed_by q ns = q\<lparr>oq_post_processed_by := ns\<rparr>"

definition no_route_reason :: "'s order_quote \<Rightarrow> no_path_reason option" where
  "no_route_reason q =
     (case oq_no_route_cause q of Some (NoRouteFound _ reason) \<Rightarrow> reason | _ \<Rightarrow> None)"

lemmas order_quote_setters =
  with_surplus_def set_status_def set_amount_in_def retract_def set_amount_out_net_gas_def
  set_gas_estimate_def set_worker_pool_def set_no_route_cause_def set_simulation_result_def
  with_route_def with_gas_price_def with_price_impact_bps_def set_transaction_def
  set_fee_breakdown_def set_subsidy_amount_def set_post_processed_by_def

record 's single_order_quote =
  so_order :: "'s order_quote"
  so_solve_time_ms :: nat

record 's quote =
  qt_orders :: "'s order_quote list"
  qt_total_gas_estimate :: biguint
  qt_solve_time_ms :: nat

record commitment =
  cm_committed_amount_out :: biguint
  cm_reference_amount_out :: biguint

record 's route_result =
  rs_route :: "'s route"
  rs_net_amount_out :: int
  rs_gas_price :: biguint
  rs_commitment :: "commitment option"

definition route_result_new :: "'s route \<Rightarrow> int \<Rightarrow> biguint \<Rightarrow> 's route_result" where
  "route_result_new r net gas_price =
     \<lparr>rs_route = r, rs_net_amount_out = net, rs_gas_price = gas_price, rs_commitment = None\<rparr>"

definition with_commitment :: "'s route_result \<Rightarrow> biguint \<Rightarrow> biguint \<Rightarrow> 's route_result" where
  "with_commitment r committed reference =
     r\<lparr>rs_commitment := Some \<lparr>cm_committed_amount_out = committed,
                               cm_reference_amount_out = reference\<rparr>\<rparr>"

subsection \<open>The net amount stays below the output\<close>

definition net_le_out :: "'s order_quote \<Rightarrow> bool" where
  "net_le_out q = (oq_amount_out_net_gas q \<le> oq_amount_out q)"

lemma set_amount_out_eq:
  "set_amount_out q v =
     ret (q\<lparr>oq_amount_out_net_gas :=
             (if oq_amount_out q \<le> v then
                (if oq_amount_out_net_gas q = 0 then 0
                 else oq_amount_out_net_gas q + (v - oq_amount_out q))
              else oq_amount_out_net_gas q - (oq_amount_out q - v)),
            oq_amount_out := v\<rparr>)"
  by (auto simp: set_amount_out_def)

text \<open>C12: \<open>set_amount_out\<close> never panics, moves the net amount by the same difference as the output
  (a net of zero stays zero, a loss that exceeds it leaves zero), keeps the net amount at most the
  output, and changes nothing else.\<close>

theorem set_amount_out_keeps_net:
  assumes "net_le_out q"
  shows "\<exists>q'. set_amount_out q v = ret q' \<and> net_le_out q' \<and> oq_amount_out q' = v
    \<and> int (oq_amount_out_net_gas q') =
        (if oq_amount_out_net_gas q = 0 then 0
         else max 0 (int (oq_amount_out_net_gas q) + (int v - int (oq_amount_out q))))
    \<and> q' = q\<lparr>oq_amount_out_net_gas := oq_amount_out_net_gas q', oq_amount_out := v\<rparr>"
  using assms by (auto simp: set_amount_out_eq net_le_out_def)

definition example_quote :: "biguint \<Rightarrow> biguint \<Rightarrow> unit order_quote" where
  "example_quote out net =
     order_quote_new ''o1'' QSuccess 1000 out 21000 net
       \<lparr>bi_number = 1, bi_hash = ''h'', bi_timestamp = 0\<rparr> ''algo'' ''s'' ''r'' ''1''"

lemma example_quote_simps [simp]:
  "oq_amount_out (example_quote a n) = a" "oq_amount_out_net_gas (example_quote a n) = n"
  "oq_route (example_quote a n) = None" "oq_status (example_quote a n) = QSuccess"
  by (simp_all add: example_quote_def order_quote_new_def)

theorem set_amount_out_keeps_net_witness:
  "\<exists>q'. set_amount_out (example_quote 500 450) 480 = ret q' \<and> oq_amount_out_net_gas q' = 430"
  using set_amount_out_keeps_net [of "example_quote 500 450" 480] by (auto simp: net_le_out_def)

end
