(* ===== verification/Amounts.thy ===== *)
theory Amounts
  imports Prelude
begin

text \<open>
  Integer scaling of amounts: \<open>src/fynd-core/src/bps.rs\<close> and the gas conversions of
  \<open>src/fynd-core/src/derived/types.rs\<close>.

  \<open>BigUint\<close> values are natural numbers; \<open>biguint_sub\<close> and \<open>biguint_div\<close> panic where the crate does.
\<close>

definition denominator_bps :: nat where
  "denominator_bps = 10000"

definition scale_truncating :: "biguint \<Rightarrow> nat \<Rightarrow> biguint" where
  "scale_truncating amount rate_bps = amount * rate_bps div denominator_bps"

record price =
  pr_numerator :: biguint
  pr_denominator :: biguint

type_synonym token_gas_prices = "address \<rightharpoonup> price"

definition mul_div_ceil :: "biguint \<Rightarrow> biguint \<Rightarrow> biguint \<Rightarrow> biguint option run" where
  "mul_div_ceil v multiplier den =
     (if den = 0 then ret None
      else do {
        lifted \<leftarrow> biguint_sub (v * multiplier + den) 1;
        q \<leftarrow> biguint_div lifted den;
        ret (Some q)
      })"

definition gas_cost_in_token :: "biguint \<Rightarrow> biguint \<Rightarrow> price \<Rightarrow> biguint option run" where
  "gas_cost_in_token gas gas_price_wei p =
     mul_div_ceil (gas * gas_price_wei) (pr_numerator p) (pr_denominator p)"

lemma mul_div_ceil_eq:
  "mul_div_ceil v m d = ret (if d = 0 then None else Some ((v * m + d - 1) div d))"
  by (simp add: mul_div_ceil_def)

lemma scale_truncating_le: "r \<le> denominator_bps \<Longrightarrow> scale_truncating a r \<le> a"
  unfolding scale_truncating_def by (rule mult_div_le_self)

lemma scale_truncating_mono: "a \<le> b \<Longrightarrow> scale_truncating a r \<le> scale_truncating b r"
  unfolding scale_truncating_def by (simp add: div_le_mono)

text \<open>\<open>mul_div_ceil\<close> returns the least integer not below the exact quotient, for every
  non-zero denominator, and answers \<open>None\<close> only for a zero denominator; it never panics.\<close>

lemma mul_div_ceil_least:
  "\<exists>r. mul_div_ceil v m d = ret r \<and> (r = None \<longleftrightarrow> d = 0)
     \<and> (\<forall>c. r = Some c \<longrightarrow> (\<forall>n. c \<le> n \<longleftrightarrow> v * m \<le> n * d))"
  using div_ceil_le_iff [of d "v * m"] by (auto simp: mul_div_ceil_eq)

end
