(* ===== verification/Exclusive.thy ===== *)
theory Exclusive
  imports Quotes Amounts
begin

text \<open>
  Exclusive liquidity: \<open>src/fynd-core/src/exclusive_route.rs\<close> and
  \<open>src/fynd-core/src/feed/exclusivity.rs\<close>.

  A route may have one leg through a component that needs off-chain authorization. The module
  decides the shape of such a route, how much of its output the user is committed to, and which
  part of the leg's output the protocol captures. Metrics and log lines are left out. The path
  vector that the recursion of \<open>token_route_output\<close> pushes to and pops from is passed by value.
\<close>

subsection \<open>Shape of an exclusive route\<close>

definition is_exclusive :: "protocol_component \<Rightarrow> bool" where
  "is_exclusive c = (pc_static_attributes c ''is_exclusive'' \<noteq> None)"

datatype exclusive_shape = Valid | NoExclusiveLeg | MultipleLegs | DoesNotReachOutput

definition is_exclusive_leg :: "'s swap \<Rightarrow> bool" where
  "is_exclusive_leg s = is_exclusive (sw_protocol_component s)"

definition routes_through_exclusive :: "'s swap list \<Rightarrow> bool" where
  "routes_through_exclusive swaps = list_ex is_exclusive_leg swaps"

definition total_amount_in_for_token :: "'s swap list \<Rightarrow> address \<Rightarrow> biguint" where
  "total_amount_in_for_token swaps t =
     sum_list (map sw_amount_in (filter (\<lambda>s. sw_token_in s = t) swaps))"

definition add_fraction :: "biguint \<times> biguint \<Rightarrow> biguint \<times> biguint \<Rightarrow> biguint \<times> biguint" where
  "add_fraction acc f =
     (if fst f = 0 then acc
      else (fst acc * snd f + fst f * snd acc, snd acc * snd f))"

function (sequential)
  token_route_output :: "'s swap list \<Rightarrow> address \<Rightarrow> address \<Rightarrow> address list \<Rightarrow> (biguint \<times> biguint) option"
  and route_output_loop ::
    "'s swap list \<Rightarrow> address \<Rightarrow> address list \<Rightarrow> 's swap list \<Rightarrow> biguint \<times> biguint \<Rightarrow> (biguint \<times> biguint) option"
where
  "token_route_output swaps t out_tok path =
     (if t \<in> set path then None
      else route_output_loop swaps out_tok (path @ [t])
             (filter (\<lambda>s. sw_token_in s = t) swaps) (0, 1))"
| "route_output_loop swaps out_tok path [] acc = Some acc"
| "route_output_loop swaps out_tok path (s # rest) acc =
     (if sw_token_out s = out_tok then
        route_output_loop swaps out_tok path rest (add_fraction acc (sw_amount_out s, 1))
      else
        case token_route_output swaps (sw_token_out s) out_tok path of
          None \<Rightarrow> None
        | Some (next_num, next_den) \<Rightarrow>
            route_output_loop swaps out_tok path rest
              (add_fraction acc
                 (sw_amount_out s * next_num,
                  next_den * total_amount_in_for_token swaps (sw_token_out s))))"
  by pat_completeness auto

text \<open>Every recursive call takes a token that is not yet on the path, and a path never leaves the
  tokens the swaps produce.\<close>

termination
proof (relation "measures
    [(\<lambda>x. case x of
        Inl (swaps, t, out, path) \<Rightarrow> card (insert t (sw_token_out ` set swaps) - set path)
      | Inr (swaps, out, path, todo, acc) \<Rightarrow>
          card (sw_token_out ` set swaps \<union> sw_token_out ` set todo - set path)),
     (\<lambda>x. case x of Inl _ \<Rightarrow> 0 | Inr (swaps, out, path, todo, acc) \<Rightarrow> length todo)]", goal_cases)
  case 1
  then show ?case by simp
next
  case (2 swaps t out path)
  have "sw_token_out ` set swaps \<union> sw_token_out ` set (filter (\<lambda>s. sw_token_in s = t) swaps)
          - set (path @ [t]) \<subset> insert t (sw_token_out ` set swaps) - set path"
    using 2 by auto
  then show ?case by (simp add: psubset_card_mono)
next
  case (3 swaps out path s rest acc)
  have "card (sw_token_out ` set swaps \<union> sw_token_out ` set rest - set path)
          \<le> card (sw_token_out ` set swaps \<union> sw_token_out ` set (s # rest) - set path)"
    by (rule card_mono) auto
  then show ?case by (auto simp: le_less)
next
  case (4 swaps out path s rest acc)
  have "card (insert (sw_token_out s) (sw_token_out ` set swaps) - set path)
          \<le> card (sw_token_out ` set swaps \<union> sw_token_out ` set (s # rest) - set path)"
    by (rule card_mono) auto
  then show ?case by (auto simp: le_less)
next
  case (5 swaps out path s rest acc)
  have "card (sw_token_out ` set swaps \<union> sw_token_out ` set rest - set path)
          \<le> card (sw_token_out ` set swaps \<union> sw_token_out ` set (s # rest) - set path)"
    by (rule card_mono) auto
  then show ?case by (auto simp: le_less)
qed

definition leg_route_output :: "'s swap list \<Rightarrow> 's swap \<Rightarrow> address \<Rightarrow> (biguint \<times> biguint) option" where
  "leg_route_output swaps leg out_tok =
     (if sw_token_out leg = out_tok then Some (sw_amount_out leg, 1)
      else
        let consumed = total_amount_in_for_token swaps (sw_token_out leg) in
        if consumed = 0 then Some (0, 1)
        else case token_route_output swaps (sw_token_out leg) out_tok [] of
               None \<Rightarrow> None
             | Some (num, den) \<Rightarrow> Some (sw_amount_out leg * num, den * consumed))"

definition exclusive_route_shape :: "'s swap list \<Rightarrow> address \<Rightarrow> exclusive_shape" where
  "exclusive_route_shape swaps out_tok =
     (case filter is_exclusive_leg swaps of
        [] \<Rightarrow> NoExclusiveLeg
      | [leg] \<Rightarrow>
          (case leg_route_output swaps leg out_tok of
             Some (num, _) \<Rightarrow> if 0 < num then Valid else DoesNotReachOutput
           | None \<Rightarrow> DoesNotReachOutput)
      | _ \<Rightarrow> MultipleLegs)"

subsection \<open>The user's share of the improvement\<close>

definition is_whitespace :: "char \<Rightarrow> bool" where
  "is_whitespace c = ((of_char c :: nat) \<in> {9, 10, 11, 12, 13, 32, 133, 160})"

definition trim :: "string \<Rightarrow> string" where
  "trim cs = rev (dropWhile is_whitespace (rev (dropWhile is_whitespace cs)))"

definition digit_value :: "char \<Rightarrow> nat option" where
  "digit_value c = (let n = of_char c :: nat in if 48 \<le> n \<and> n \<le> 57 then Some (n - 48) else None)"

fun parse_digits :: "string \<Rightarrow> nat \<Rightarrow> nat option" where
  "parse_digits [] acc = Some acc"
| "parse_digits (c # cs) acc =
     (case digit_value c of
        None \<Rightarrow> None
      | Some d \<Rightarrow> if 2 ^ 32 \<le> acc * 10 + d then None else parse_digits cs (acc * 10 + d))"

text \<open>\<open>str::parse::<u32>\<close>: an optional plus sign, then at least one digit, without overflow.\<close>

definition parse_u32 :: "string \<Rightarrow> nat option" where
  "parse_u32 cs =
     (let body = (case cs of c # rest \<Rightarrow> if c = CHR ''+'' then rest else cs | [] \<Rightarrow> []) in
      if body = [] then None else parse_digits body 0)"

definition default_user_improvement_share_bps :: nat where
  "default_user_improvement_share_bps = 1000"

definition parse_user_improvement_share_bps :: "string \<Rightarrow> nat option" where
  "parse_user_improvement_share_bps raw =
     (case parse_u32 (trim raw) of
        Some share \<Rightarrow> if share \<le> denominator_bps then Some share else None
      | None \<Rightarrow> None)"

text \<open>The argument is the value of the environment variable, \<open>None\<close> when it cannot be read.\<close>

definition user_improvement_share_bps_env :: "string option \<Rightarrow> nat" where
  "user_improvement_share_bps_env var =
     (case var of
        None \<Rightarrow> default_user_improvement_share_bps
      | Some raw \<Rightarrow>
          (case parse_user_improvement_share_bps raw of
             Some bps \<Rightarrow> bps
           | None \<Rightarrow> default_user_improvement_share_bps))"

definition user_improvement_amount :: "biguint \<Rightarrow> nat \<Rightarrow> biguint" where
  "user_improvement_amount improvement user_share_bps =
     (improvement * user_share_bps + (denominator_bps - 1)) div denominator_bps"

record route_output =
  ro_amount_out :: biguint
  ro_amount_out_net_gas :: biguint

definition route_output_from_quote :: "'s order_quote \<Rightarrow> route_output" where
  "route_output_from_quote q =
     \<lparr>ro_amount_out = oq_amount_out q, ro_amount_out_net_gas = oq_amount_out_net_gas q\<rparr>"

definition matched_commitment :: "route_output \<Rightarrow> route_output \<Rightarrow> nat \<Rightarrow> biguint option run" where
  "matched_commitment public_reference exclusive_candidate user_share_bps =
     (let public_net = ro_amount_out_net_gas public_reference in
      if ro_amount_out_net_gas exclusive_candidate < public_net then ret None
      else do {
        improvement \<leftarrow> biguint_sub (ro_amount_out_net_gas exclusive_candidate) public_net;
        let required_net = public_net + user_improvement_amount improvement user_share_bps;
        let public_amount_out = ro_amount_out public_reference;
        if ro_amount_out exclusive_candidate < public_amount_out then ret None
        else do {
          gas_cost \<leftarrow> biguint_sub (ro_amount_out exclusive_candidate)
                        (ro_amount_out_net_gas exclusive_candidate);
          ret (Some (max (required_net + gas_cost) public_amount_out))
        }
      })"

subsection \<open>Pinning a commitment on the exclusive legs\<close>

definition set_committed_amount_out :: "'s swap \<Rightarrow> biguint \<Rightarrow> 's swap" where
  "set_committed_amount_out s v = s\<lparr>sw_committed_amount_out := Some v\<rparr>"

definition leg_route_outputs :: "'s route \<Rightarrow> (biguint \<times> biguint) option list" where
  "leg_route_outputs r =
     map (\<lambda>s. case output_token r of
                None \<Rightarrow> None
              | Some t \<Rightarrow>
                  if \<not> is_exclusive (sw_protocol_component s) then None
                  else leg_route_output (rt_swaps r) s t)
       (rt_swaps r)"

definition pin_leg ::
  "(biguint \<times> biguint) option \<Rightarrow> biguint \<Rightarrow> 's swap \<Rightarrow> (biguint \<times> 's swap) run" where
  "pin_leg leg_output surplus s =
     (if is_exclusive (sw_protocol_component s) then
        (case leg_output of
           None \<Rightarrow> ret (surplus, s)
         | Some (num, den) \<Rightarrow>
             if num = 0 then ret (surplus, s)
             else do {
               produced \<leftarrow> biguint_div num den;
               let captured = min surplus produced;
               captured_swap \<leftarrow> biguint_div (captured * sw_amount_out s * den) num;
               if \<not> captured_swap \<le> sw_amount_out s then panic
               else do {
                 committed_swap \<leftarrow> biguint_sub (sw_amount_out s) captured_swap;
                 left \<leftarrow> biguint_sub surplus captured;
                 ret (left, set_committed_amount_out s committed_swap)
               }
             })
      else ret (surplus, s))"

fun pin_legs :: "(biguint \<times> biguint) option list \<Rightarrow> biguint \<Rightarrow> 's swap list \<Rightarrow> 's swap list run" where
  "pin_legs outputs surplus [] = ret []"
| "pin_legs outputs surplus (s # ss) =
     do {
       (left, s') \<leftarrow> pin_leg (case outputs of [] \<Rightarrow> None | out # _ \<Rightarrow> out) surplus s;
       ss' \<leftarrow> pin_legs (drop 1 outputs) left ss;
       ret (s' # ss')
     }"

definition pin_commitment :: "'s order_quote \<Rightarrow> biguint \<Rightarrow> 's order_quote run" where
  "pin_commitment candidate committed =
     do {
       gas_cost \<leftarrow> biguint_sub (oq_amount_out candidate) (oq_amount_out_net_gas candidate);
       surplus_amount \<leftarrow> biguint_sub (oq_amount_out candidate) committed;
       q1 \<leftarrow> (case oq_route candidate of
                None \<Rightarrow> ret candidate
              | Some r \<Rightarrow>
                  do {
                    surplus \<leftarrow> biguint_sub (oq_amount_out candidate) committed;
                    swaps \<leftarrow> pin_legs (leg_route_outputs r) surplus (rt_swaps r);
                    ret (candidate\<lparr>oq_route := Some (r\<lparr>rt_swaps := swaps\<rparr>)\<rparr>)
                  });
       q2 \<leftarrow> set_amount_out q1 committed;
       net \<leftarrow> biguint_sub committed gas_cost;
       ret (with_surplus (set_amount_out_net_gas q2 net)
              \<lparr>si_surplus_amount = surplus_amount, si_committed_amount_out = committed\<rparr>)
     }"

definition pin_route_commitment :: "'s order_quote \<Rightarrow> commitment \<Rightarrow> 's order_quote run" where
  "pin_route_commitment q c = pin_commitment q (cm_committed_amount_out c)"

definition to_gas_token_wei ::
  "'s order_quote \<Rightarrow> biguint \<Rightarrow> token_gas_prices option \<Rightarrow> biguint option run" where
  "to_gas_token_wei q amount token_prices =
     (case Option.bind (oq_route q) output_token of
        None \<Rightarrow> ret None
      | Some t \<Rightarrow>
          (case Option.bind token_prices (\<lambda>prices. prices t) of
             None \<Rightarrow> ret None
           | Some p \<Rightarrow>
               if pr_numerator p = 0 \<or> pr_denominator p = 0 then ret None
               else do {
                 w \<leftarrow> biguint_div (amount * pr_denominator p) (pr_numerator p);
                 ret (Some w)
               }))"

subsection \<open>Correctness of the commitment\<close>

lemma user_improvement_amount_eq:
  "user_improvement_amount i b = (i * b + denominator_bps - 1) div denominator_bps"
  by (simp add: user_improvement_amount_def denominator_bps_def)

lemma user_improvement_amount_le:
  assumes "b \<le> denominator_bps"
  shows "user_improvement_amount i b \<le> i"
proof -
  have "0 < denominator_bps" by (simp add: denominator_bps_def)
  moreover have "i * b \<le> i * denominator_bps" using assms by simp
  ultimately show ?thesis by (simp only: user_improvement_amount_eq div_ceil_le_iff)
qed

lemma user_improvement_amount_ge:
  "i * b \<le> user_improvement_amount i b * denominator_bps"
  unfolding user_improvement_amount_eq by (rule div_ceil_ge) (simp add: denominator_bps_def)

lemma user_improvement_share_bps_env_le: "user_improvement_share_bps_env var \<le> denominator_bps"
  by (auto simp: user_improvement_share_bps_env_def parse_user_improvement_share_bps_def
      default_user_improvement_share_bps_def denominator_bps_def split: option.splits if_splits)

lemma matched_commitment_eq:
  assumes "ro_amount_out_net_gas e \<le> ro_amount_out e"
  shows "matched_commitment p e b = ret
    (if ro_amount_out_net_gas e < ro_amount_out_net_gas p \<or> ro_amount_out e < ro_amount_out p then None
     else Some (max (ro_amount_out_net_gas p
            + user_improvement_amount (ro_amount_out_net_gas e - ro_amount_out_net_gas p) b
            + (ro_amount_out e - ro_amount_out_net_gas e)) (ro_amount_out p)))"
  using assms by (auto simp: matched_commitment_def Let_def)

text \<open>C13: with a user share of at most the whole improvement, which is all the environment can
  configure, the commitment matched against a public
  route is refused exactly when the exclusive route pays less, gross or net of gas. Otherwise it
  lies between the public output and the output of the exclusive route, and what is left after the
  gas of the exclusive route is at least the public net output plus the user's share of the
  improvement. No smaller amount does both.\<close>

theorem matched_commitment_bounds:
  assumes "ro_amount_out_net_gas e \<le> ro_amount_out e"
    and "b \<le> denominator_bps"
  shows "\<exists>r. matched_commitment p e b = ret r
    \<and> (r = None \<longleftrightarrow> ro_amount_out_net_gas e < ro_amount_out_net_gas p
                    \<or> ro_amount_out e < ro_amount_out p)
    \<and> (\<forall>c. r = Some c \<longrightarrow>
          ro_amount_out p \<le> c \<and> c \<le> ro_amount_out e
        \<and> ro_amount_out e - ro_amount_out_net_gas e \<le> c
        \<and> b * (ro_amount_out_net_gas e - ro_amount_out_net_gas p)
            \<le> denominator_bps * (c - (ro_amount_out e - ro_amount_out_net_gas e) - ro_amount_out_net_gas p)
        \<and> (\<forall>c'. ro_amount_out p \<le> c'
               \<and> b * (ro_amount_out_net_gas e - ro_amount_out_net_gas p)
                   + denominator_bps * (ro_amount_out_net_gas p + (ro_amount_out e - ro_amount_out_net_gas e))
                   \<le> denominator_bps * c' \<longrightarrow> c \<le> c'))"
proof (cases "ro_amount_out_net_gas e < ro_amount_out_net_gas p \<or> ro_amount_out e < ro_amount_out p")
  case True
  then show ?thesis by (simp add: matched_commitment_eq [OF assms(1)])
next
  case False
  define i where "i = ro_amount_out_net_gas e - ro_amount_out_net_gas p"
  define u where "u = user_improvement_amount i b"
  define g where "g = ro_amount_out e - ro_amount_out_net_gas e"
  define c where "c = max (ro_amount_out_net_gas p + u + g) (ro_amount_out p)"
  have m: "matched_commitment p e b = ret (Some c)"
    using False by (simp add: matched_commitment_eq [OF assms(1)] c_def u_def g_def i_def)
  have ui: "u \<le> i"
    unfolding u_def by (rule user_improvement_amount_le [OF assms(2)])
  have up: "c \<le> ro_amount_out e"
    using ui False assms(1) by (auto simp: c_def g_def i_def)
  have "b * i \<le> denominator_bps * u"
    using user_improvement_amount_ge [of i b] by (simp add: u_def mult.commute)
  also have "u \<le> c - g - ro_amount_out_net_gas p" by (simp add: c_def)
  finally have share: "b * i \<le> denominator_bps * (c - g - ro_amount_out_net_gas p)" by simp
  have least: "c \<le> c'" if "ro_amount_out p \<le> c'"
    "b * i + denominator_bps * (ro_amount_out_net_gas p + g) \<le> denominator_bps * c'" for c'
  proof -
    have "ro_amount_out_net_gas p + g \<le> c'"
      using that(2) by (simp add: denominator_bps_def)
    moreover have "u \<le> c' - (ro_amount_out_net_gas p + g)"
      unfolding u_def user_improvement_amount_eq
      using that(2) by (subst div_ceil_le_iff) (simp_all add: denominator_bps_def algebra_simps)
    ultimately show ?thesis using that(1) by (simp add: c_def)
  qed
  show ?thesis
    using False m up share least by (auto simp: i_def [symmetric] g_def [symmetric]) (auto simp: c_def)
qed

theorem matched_commitment_bounds_witness:
  "\<exists>c. matched_commitment \<lparr>ro_amount_out = 1000, ro_amount_out_net_gas = 900\<rparr>
      \<lparr>ro_amount_out = 1100, ro_amount_out_net_gas = 1050\<rparr> (user_improvement_share_bps_env None)
      = ret (Some c) \<and> 1000 \<le> c \<and> c \<le> 1100"
  using matched_commitment_bounds [of "\<lparr>ro_amount_out = 1100, ro_amount_out_net_gas = 1050\<rparr>"
      "user_improvement_share_bps_env None" "\<lparr>ro_amount_out = 1000, ro_amount_out_net_gas = 900\<rparr>"]
  by (auto simp: user_improvement_share_bps_env_le)

subsection \<open>Correctness of the pinned legs\<close>

definition no_free_output :: "'s swap list \<Rightarrow> bool" where
  "no_free_output swaps = list_all (\<lambda>s. sw_amount_in s = 0 \<longrightarrow> sw_amount_out s = 0) swaps"

declare token_route_output.simps [simp del]

lemma route_output_loop_zero:
  "route_output_loop swaps t path todo acc = Some (n, d) \<Longrightarrow> fst acc = 0 \<Longrightarrow>
   \<forall>s \<in> set todo. sw_amount_out s = 0 \<Longrightarrow> n = 0"
  by (induction todo arbitrary: acc) (auto simp: add_fraction_def split: option.splits if_splits)

lemma total_amount_in_pos:
  assumes "no_free_output swaps" "token_route_output swaps t out path = Some (n, d)" "n \<noteq> 0"
  shows "0 < total_amount_in_for_token swaps t"
proof (rule ccontr)
  assume "\<not> 0 < total_amount_in_for_token swaps t"
  then have "\<forall>s \<in> set (filter (\<lambda>s. sw_token_in s = t) swaps). sw_amount_in s = 0"
    by (simp add: total_amount_in_for_token_def)
  then have "\<forall>s \<in> set (filter (\<lambda>s. sw_token_in s = t) swaps). sw_amount_out s = 0"
    using assms(1) by (simp add: no_free_output_def list_all_iff)
  moreover have "route_output_loop swaps out (path @ [t]) (filter (\<lambda>s. sw_token_in s = t) swaps) (0, 1)
      = Some (n, d)"
    using assms(2) by (simp add: token_route_output.simps split: if_splits)
  ultimately show False using route_output_loop_zero assms(3) by fastforce
qed

lemma route_output_denominators:
  "no_free_output swaps \<Longrightarrow> token_route_output swaps t out path = Some (n, d) \<Longrightarrow> 0 < d"
  "no_free_output swaps \<Longrightarrow> 0 < snd acc \<Longrightarrow>
   route_output_loop swaps out path todo acc = Some (n, d) \<Longrightarrow> 0 < d"
proof (induction swaps t out path and swaps out path todo acc
    arbitrary: n d and n d rule: token_route_output_route_output_loop.induct)
  case (1 swaps t out path)
  then show ?case by (simp add: token_route_output.simps split: if_splits)
next
  case (2 swaps out path acc)
  then show ?case by (cases acc) simp
next
  case (3 swaps out path s rest acc)
  show ?case
  proof (cases "sw_token_out s = out")
    case True
    have "0 < snd (add_fraction acc (sw_amount_out s, 1))"
      using "3.prems"(2) by (simp add: add_fraction_def)
    then show ?thesis using "3.IH"(1) True "3.prems" by simp
  next
    case False
    then obtain nn nd where r: "token_route_output swaps (sw_token_out s) out path = Some (nn, nd)"
      using "3.prems"(3) by (auto split: option.splits)
    have "0 < nd" using "3.IH"(2) False "3.prems"(1) r by simp
    then have "0 < snd (add_fraction acc
        (sw_amount_out s * nn, nd * total_amount_in_for_token swaps (sw_token_out s)))"
      using "3.prems"(2) total_amount_in_pos [OF "3.prems"(1) r] by (simp add: add_fraction_def)
    then show ?thesis using "3.IH"(3) [OF False r] "3.prems" False r by simp
  qed
qed

lemma leg_route_output_denominator:
  assumes "no_free_output swaps" "leg_route_output swaps leg t = Some (n, d)"
  shows "0 < d"
  using assms route_output_denominators(1)
  by (fastforce simp: leg_route_output_def Let_def split: if_splits option.splits)

definition leg_pinned :: "'s swap \<Rightarrow> 's swap \<Rightarrow> bool" where
  "leg_pinned s s' =
     (s' = s \<or> is_exclusive_leg s
        \<and> (\<exists>c \<le> sw_amount_out s. s' = s\<lparr>sw_committed_amount_out := Some c\<rparr>))"

text \<open>The part of the route output that a pinned leg gives up, at the average price of the pools
  after the leg.\<close>

definition captured_value :: "(biguint \<times> biguint) option \<Rightarrow> 's swap \<Rightarrow> rat" where
  "captured_value leg_output s =
     (case (sw_committed_amount_out s, leg_output) of
        (Some c, Some (num, den)) \<Rightarrow>
          of_nat (sw_amount_out s - c) * of_nat num / (of_nat den * of_nat (sw_amount_out s))
      | _ \<Rightarrow> 0)"

lemma rat_quotient_le:
  fixes x n d a c :: nat
  assumes "x * n \<le> c * a * d" "0 < d"
  shows "(of_nat x * of_nat n / (of_nat d * of_nat a) :: rat) \<le> of_nat c"
proof (cases "a = 0")
  case False
  have "(of_nat (x * n) :: rat) \<le> of_nat (c * (d * a))"
    using assms(1) by (simp only: of_nat_le_iff) (simp add: mult.commute mult.left_commute)
  then show ?thesis using False assms(2) by (simp add: divide_le_eq)
qed simp

lemma pin_leg_ok:
  assumes "\<And>n d. leg_output = Some (n, d) \<Longrightarrow> 0 < d" "sw_committed_amount_out s = None"
  shows "\<exists>left s'. pin_leg leg_output surplus s = ret (left, s') \<and> left \<le> surplus
           \<and> leg_pinned s s' \<and> captured_value leg_output s' \<le> of_nat (surplus - left)"
proof (cases "is_exclusive (sw_protocol_component s) \<and> (\<exists>n d. leg_output = Some (n, d) \<and> n \<noteq> 0)")
  case False
  then show ?thesis
    using assms(2) by (cases leg_output) (auto simp: pin_leg_def leg_pinned_def captured_value_def)
next
  case True
  then obtain n d where o: "leg_output = Some (n, d)" "n \<noteq> 0" by blast
  have d: "0 < d" using assms(1) o(1) by simp
  define cap where "cap = min surplus (n div d)"
  define x where "x = cap * sw_amount_out s * d div n"
  have "cap * d \<le> n div d * d" by (simp add: cap_def)
  then have cd: "cap * d \<le> n" using div_times_less_eq_dividend le_trans by blast
  have reorder: "cap * sw_amount_out s * d = sw_amount_out s * (cap * d)" by (simp add: ac_simps)
  have x: "x \<le> sw_amount_out s" unfolding x_def reorder by (rule mult_div_le_self [OF cd])
  have "x * n \<le> cap * sw_amount_out s * d" by (simp add: x_def)
  then have "(of_nat x * of_nat n / (of_nat d * of_nat (sw_amount_out s)) :: rat) \<le> of_nat cap"
    by (rule rat_quotient_le) (rule d)
  moreover have "pin_leg leg_output surplus s =
      ret (surplus - cap, set_committed_amount_out s (sw_amount_out s - x))"
    using True o d x by (simp add: pin_leg_def cap_def [symmetric] x_def [symmetric] Let_def)
      (simp add: cap_def)
  moreover have "leg_pinned s (set_committed_amount_out s (sw_amount_out s - x))"
    using True unfolding leg_pinned_def is_exclusive_leg_def set_committed_amount_out_def
    by (intro disjI2 conjI exI [of _ "sw_amount_out s - x"]) simp_all
  moreover have "cap \<le> surplus" by (simp add: cap_def)
  ultimately show ?thesis
    using o x by (simp add: captured_value_def) (simp add: set_committed_amount_out_def)
qed

lemma pin_legs_ok:
  assumes "length outs = length swaps" "\<And>n d. Some (n, d) \<in> set outs \<Longrightarrow> 0 < d"
    and "\<forall>s \<in> set swaps. sw_committed_amount_out s = None"
  shows "\<exists>swaps'. pin_legs outs surplus swaps = ret swaps' \<and> list_all2 leg_pinned swaps swaps'
           \<and> sum_list (map2 captured_value outs swaps') \<le> of_nat surplus"
  using assms
proof (induction outs swaps arbitrary: surplus rule: list_induct2)
  case (Cons out outs s swaps)
  obtain left s' where 1: "pin_leg out surplus s = ret (left, s')" "left \<le> surplus"
    "leg_pinned s s'" "captured_value out s' \<le> of_nat (surplus - left)"
    using pin_leg_ok [of out s surplus] Cons.prems by (metis list.set_intros(1))
  obtain swaps' where 2: "pin_legs outs left swaps = ret swaps'" "list_all2 leg_pinned swaps swaps'"
    "sum_list (map2 captured_value outs swaps') \<le> of_nat left"
    using Cons.IH [of left] Cons.prems by auto
  have "captured_value out s' + sum_list (map2 captured_value outs swaps') \<le> of_nat surplus"
    using add_mono [OF 1(4) 2(3)] 1(2) by (simp flip: of_nat_add)
  then show ?case using 1 2 by simp
qed simp

lemma leg_route_outputs_ok:
  "length (leg_route_outputs r) = length (rt_swaps r)"
  "no_free_output (rt_swaps r) \<Longrightarrow> Some (n, d) \<in> set (leg_route_outputs r) \<Longrightarrow> 0 < d"
proof -
  show "length (leg_route_outputs r) = length (rt_swaps r)" by (simp add: leg_route_outputs_def)
  assume nf: "no_free_output (rt_swaps r)" and "Some (n, d) \<in> set (leg_route_outputs r)"
  then obtain s t where "leg_route_output (rt_swaps r) s t = Some (n, d)"
    by (auto simp: leg_route_outputs_def split: option.splits if_splits)
  then show "0 < d" by (rule leg_route_output_denominator [OF nf])
qed

lemma pin_commitment_ok:
  assumes "net_le_out q" "oq_amount_out q - oq_amount_out_net_gas q \<le> c" "c \<le> oq_amount_out q"
    and "\<And>r. oq_route q = Some r \<Longrightarrow> no_free_output (rt_swaps r) \<and> \<not> has_exclusive_leg r"
  shows "\<exists>route'. pin_commitment q c = ret (q\<lparr>oq_route := route', oq_amount_out := c,
      oq_amount_out_net_gas := c - (oq_amount_out q - oq_amount_out_net_gas q),
      oq_surplus := Some \<lparr>si_surplus_amount = oq_amount_out q - c, si_committed_amount_out = c\<rparr>\<rparr>)
    \<and> (oq_route q = None \<longrightarrow> route' = None)
    \<and> (\<forall>r. oq_route q = Some r \<longrightarrow> (\<exists>swaps'. route' = Some (r\<lparr>rt_swaps := swaps'\<rparr>)
          \<and> list_all2 leg_pinned (rt_swaps r) swaps'
          \<and> sum_list (map2 captured_value (leg_route_outputs r) swaps') \<le> of_nat (oq_amount_out q - c)))"
proof (cases "oq_route q")
  case None
  then show ?thesis
    using assms(1-3) by (simp add: pin_commitment_def net_le_out_def set_amount_out_eq
        order_quote_setters)
next
  case (Some r)
  have "\<forall>s \<in> set (rt_swaps r). sw_committed_amount_out s = None"
    using assms(4) Some by (auto simp: has_exclusive_leg_def list_ex_iff)
  then obtain swaps' where
    "pin_legs (leg_route_outputs r) (oq_amount_out q - c) (rt_swaps r) = ret swaps'"
    "list_all2 leg_pinned (rt_swaps r) swaps'"
    "sum_list (map2 captured_value (leg_route_outputs r) swaps') \<le> of_nat (oq_amount_out q - c)"
    using pin_legs_ok [OF leg_route_outputs_ok(1), of r "oq_amount_out q - c"]
      leg_route_outputs_ok(2) [of r] assms(4) [OF Some] by blast
  then show ?thesis
    using Some assms(1-3)
    by (intro exI [of _ "Some (r\<lparr>rt_swaps := swaps'\<rparr>)"])
      (auto simp: pin_commitment_def net_le_out_def set_amount_out_eq order_quote_setters)
qed

lemma matched_commitment_from_quotes:
  assumes "net_le_out e" "b \<le> denominator_bps"
    and "matched_commitment (route_output_from_quote p) (route_output_from_quote e) b = ret (Some c)"
  shows "oq_amount_out p \<le> c" "c \<le> oq_amount_out e"
    "oq_amount_out_net_gas p + (oq_amount_out e - oq_amount_out_net_gas e) \<le> c"
proof -
  have 1: "ro_amount_out_net_gas (route_output_from_quote e) \<le> ro_amount_out (route_output_from_quote e)"
    using assms(1) by (simp add: route_output_from_quote_def net_le_out_def)
  have "user_improvement_amount (oq_amount_out_net_gas e - oq_amount_out_net_gas p) b
      \<le> oq_amount_out_net_gas e - oq_amount_out_net_gas p"
    by (rule user_improvement_amount_le [OF assms(2)])
  then show "oq_amount_out p \<le> c" "c \<le> oq_amount_out e"
    "oq_amount_out_net_gas p + (oq_amount_out e - oq_amount_out_net_gas e) \<le> c"
    using assms(1,3) unfolding matched_commitment_eq [OF 1]
    by (auto simp: route_output_from_quote_def net_le_out_def split: if_splits)
qed

text \<open>C2: an exclusive candidate pinned to the commitment matched against a public quote is built
  without a panic. It pays the user at least the public output and at least the public output net
  of gas. Nothing of its route changes but the committed amounts of exclusive legs, each at most
  what the leg pays. What the exclusive components capture, priced at the average price of the
  pools after them, is at most the reported surplus, the difference between the route output and
  the commitment.\<close>

theorem pinned_quote_never_worse:
  assumes "net_le_out e" "b \<le> denominator_bps" "oq_route e = Some r"
    and "no_free_output (rt_swaps r)" "\<not> has_exclusive_leg r"
    and "matched_commitment (route_output_from_quote p) (route_output_from_quote e) b = ret (Some c)"
  shows "\<exists>q swaps'. pin_commitment e c = ret q
    \<and> oq_amount_out p \<le> oq_amount_out q
    \<and> oq_amount_out_net_gas p \<le> oq_amount_out_net_gas q \<and> net_le_out q
    \<and> oq_surplus q = Some \<lparr>si_surplus_amount = oq_amount_out e - oq_amount_out q,
                            si_committed_amount_out = oq_amount_out q\<rparr>
    \<and> oq_route q = Some (r\<lparr>rt_swaps := swaps'\<rparr>) \<and> list_all2 leg_pinned (rt_swaps r) swaps'
    \<and> sum_list (map2 captured_value (leg_route_outputs r) swaps')
        \<le> of_nat (oq_amount_out e - oq_amount_out q)"
proof -
  note c = matched_commitment_from_quotes [OF assms(1,2,6)]
  then show ?thesis
    using pin_commitment_ok [OF assms(1), of c] assms(3-5) by (fastforce simp: net_le_out_def)
qed

definition example_exclusive_route :: "unit route" where
  "example_exclusive_route =
     \<lparr>rt_swaps = [(example_swap ''A'' ''B'' 1000 500)\<lparr>sw_protocol_component :=
                     example_component\<lparr>pc_static_attributes := [''is_exclusive'' \<mapsto> ''1'']\<rparr>\<rparr>,
                  example_swap ''B'' ''C'' 500 1100],
      rt_tokens = Map.empty, rt_fallback_amount_out = None\<rparr>"

theorem pinned_quote_never_worse_witness:
  "\<exists>q. pin_commitment ((example_quote 1100 1050)\<lparr>oq_route := Some example_exclusive_route\<rparr>) 1000 = ret q
    \<and> 1000 \<le> oq_amount_out q \<and> 900 \<le> oq_amount_out_net_gas q"
proof -
  have "no_free_output (rt_swaps example_exclusive_route)" "\<not> has_exclusive_leg example_exclusive_route"
    by (simp_all add: no_free_output_def has_exclusive_leg_def example_exclusive_route_def
        example_swap_def swap_new_def)
  then show ?thesis
    using pinned_quote_never_worse [of "(example_quote 1100 1050)\<lparr>oq_route := Some example_exclusive_route\<rparr>"
        1000 example_exclusive_route "example_quote 1000 900" 1000]
    by (auto simp: net_le_out_def denominator_bps_def route_output_from_quote_def matched_commitment_def
        user_improvement_amount_def)
qed

subsection \<open>Legs of a sequential route\<close>

fun sequential_flow :: "'s swap list \<Rightarrow> bool" where
  "sequential_flow (s # t # ss) =
     (sw_token_out s = sw_token_in t \<and> sw_amount_out s = sw_amount_in t \<and> sequential_flow (t # ss))"
| "sequential_flow _ = True"

lemma filter_key_unique:
  "distinct (map f xs) \<Longrightarrow> x \<in> set xs \<Longrightarrow> filter (\<lambda>y. f y = f x) xs = [x]"
  by (induction xs) (auto simp: filter_empty_conv image_iff dest: sym)

lemma sequential_token_route_output:
  assumes "distinct (map sw_token_in swaps)" "\<forall>s \<in> set swaps. 0 < sw_amount_in s"
    and "swaps = pre @ s # ss" "sequential_flow (s # ss)"
    and "sw_token_out (last (s # ss)) \<notin> sw_token_in ` set swaps"
    and "set path \<inter> sw_token_in ` set (s # ss) = {}"
  shows "\<exists>n d. token_route_output swaps (sw_token_in s) (sw_token_out (last (s # ss))) path = Some (n, d)
           \<and> 0 < d \<and> n = d * sw_amount_out (last (s # ss))"
  using assms
proof (induction ss arbitrary: pre s path)
  case Nil
  have "filter (\<lambda>y. sw_token_in y = sw_token_in s) swaps = [s]"
    by (rule filter_key_unique [OF Nil.prems(1)]) (simp add: Nil.prems(3))
  then show ?case
    using Nil.prems(6) by (simp add: token_route_output.simps add_fraction_def)
next
  case (Cons t ss)
  have f: "filter (\<lambda>y. sw_token_in y = sw_token_in s) swaps = [s]"
    "filter (\<lambda>y. sw_token_in y = sw_token_in t) swaps = [t]"
    by (rule filter_key_unique [OF Cons.prems(1)], simp add: Cons.prems(3))+
  have pt: "set (path @ [sw_token_in s]) \<inter> sw_token_in ` set (t # ss) = {}"
    using Cons.prems(1,3,6) by auto
  obtain n d where t: "token_route_output swaps (sw_token_in t) (sw_token_out (last (t # ss)))
      (path @ [sw_token_in s]) = Some (n, d)" "0 < d" "n = d * sw_amount_out (last (t # ss))"
    using Cons.IH [of "pre @ [s]" t, OF Cons.prems(1,2) _ _ _ pt] Cons.prems(3-5) by auto
  have a: "sw_token_out s = sw_token_in t" "sw_amount_out s = sw_amount_in t" "0 < sw_amount_in t"
    using Cons.prems(2-4) by auto
  have ne: "sw_token_in t \<noteq> sw_token_out (last (t # ss))"
    using Cons.prems(3,5) by auto
  show ?case
    using Cons.prems(6) f t a ne
    by (simp add: token_route_output.simps [of _ "sw_token_in s"] total_amount_in_for_token_def
        add_fraction_def)
qed

text \<open>C14: on a sequential route, where each swap takes the whole output of the one before it,
  the route output that any leg produces is the whole output of the route.\<close>

theorem sequential_leg_carries_route:
  assumes "distinct (map sw_token_in swaps)" "\<forall>s \<in> set swaps. 0 < sw_amount_in s"
    and "sequential_flow (leg # later)" "swaps = pre @ leg # later"
    and "sw_token_out (last swaps) \<notin> sw_token_in ` set swaps"
  shows "\<exists>num den. leg_route_output swaps leg (sw_token_out (last swaps)) = Some (num, den)
           \<and> 0 < den \<and> num = den * sw_amount_out (last swaps)"
proof (cases later)
  case Nil
  then show ?thesis using assms(4) by (simp add: leg_route_output_def)
next
  case (Cons t ss)
  have f: "filter (\<lambda>y. sw_token_in y = sw_token_in t) swaps = [t]"
    by (rule filter_key_unique [OF assms(1)]) (simp add: assms(4) Cons)
  have l: "last swaps = last (t # ss)" by (simp add: assms(4) Cons)
  obtain n d where t: "token_route_output swaps (sw_token_in t) (sw_token_out (last swaps)) [] = Some (n, d)"
    "0 < d" "n = d * sw_amount_out (last swaps)"
    using sequential_token_route_output [OF assms(1,2), of "pre @ [leg]" t ss "[]"] assms(3-5)
    by (auto simp: Cons l)
  have a: "sw_token_out leg = sw_token_in t" "sw_amount_out leg = sw_amount_in t" "0 < sw_amount_in t"
    using assms(2-4) by (auto simp: Cons)
  have "sw_token_in t \<noteq> sw_token_out (last swaps)"
    using assms(4,5) by (auto simp: Cons)
  then show ?thesis
    using f t a by (simp add: leg_route_output_def total_amount_in_for_token_def Let_def)
qed

theorem sequential_leg_carries_route_witness:
  "\<exists>den. leg_route_output (rt_swaps example_exclusive_route) (rt_swaps example_exclusive_route ! 0) ''C''
     = Some (den * 1100, den) \<and> 0 < den"
  using sequential_leg_carries_route [of "rt_swaps example_exclusive_route"
      "rt_swaps example_exclusive_route ! 0" "tl (rt_swaps example_exclusive_route)" "[]"]
  by (simp add: example_exclusive_route_def example_swap_def swap_new_def)

end
