(* ===== verification/Allocation.thy ===== *)
theory Allocation
  imports Quotes "HOL-Library.Sublist"
begin

text \<open>
  Which worker pools serve an order: \<open>src/fynd-core/src/worker_pool_router/allocation.rs\<close> and the
  pool handles of \<open>src/fynd-core/src/worker_pool_router/mod.rs\<close>.

  The task queue inside a handle is a channel and is not part of the record: the answers of the
  queues are an input of the response collection of the router. The \<open>Debug\<close> rendering of a
  list of names inside an error message is the parameter \<open>show_names\<close>.
\<close>

datatype liquidity_scope = PublicOnly | IncludeExclusive

record solver_pool_handle =
  sp_name :: string
  sp_liquidity_scope :: liquidity_scope
  sp_supports_required_tokens :: bool

datatype exclusive_access = Denied | Granted

record order_class =
  oc_exclusive_access :: exclusive_access
  oc_requires_tokens :: bool

definition without_required_tokens :: "order_class \<Rightarrow> order_class" where
  "without_required_tokens c = c\<lparr>oc_requires_tokens := False\<rparr>"

definition serves :: "solver_pool_handle \<Rightarrow> order_class \<Rightarrow> bool" where
  "serves p c =
     ((case sp_liquidity_scope p of
         PublicOnly \<Rightarrow> True
       | IncludeExclusive \<Rightarrow> oc_exclusive_access c = Granted)
      \<and> (\<not> oc_requires_tokens c \<or> sp_supports_required_tokens p))"

type_synonym pool_scopes = "string \<rightharpoonup> liquidity_scope"

record allocation =
  al_worker_pools :: "solver_pool_handle list"
  al_scopes :: pool_scopes
  al_exclusive_routing_active :: bool

definition allocation_is_exclusive :: "allocation \<Rightarrow> string \<Rightarrow> bool" where
  "allocation_is_exclusive a name = (al_scopes a name = Some IncludeExclusive)"

definition allocation_is_empty :: "allocation \<Rightarrow> bool" where
  "allocation_is_empty a = (al_worker_pools a = [])"

definition validate_pool_allowlist ::
  "(string list \<Rightarrow> string) \<Rightarrow> solver_pool_handle list \<Rightarrow> string list \<Rightarrow> solve_error + unit" where
  "validate_pool_allowlist show_names worker_pools allowlist =
     (if allowlist = [] then
        Inl (InvalidWorkerPools
          ''worker pool allowlist is empty; omit it to use every pool that serves the request'')
      else
        let unknown = filter (\<lambda>name. \<not> list_ex (\<lambda>p. sp_name p = name) worker_pools) allowlist in
        if unknown \<noteq> [] then
          Inl (InvalidWorkerPools (''unknown worker pool(s) '' @ show_names unknown))
        else Inr ())"

text \<open>Collecting pairs into a hash map keeps the last value of a repeated key.\<close>

definition allocate ::
  "solver_pool_handle list \<Rightarrow> order_class \<Rightarrow> string list option \<Rightarrow> allocation" where
  "allocate worker_pools c pool_allowlist =
     (let selected =
            filter (\<lambda>p. case pool_allowlist of
                           None \<Rightarrow> True
                         | Some allowlist \<Rightarrow> list_ex (\<lambda>n. n = sp_name p) allowlist)
              (filter (\<lambda>p. serves p c) worker_pools);
          scopes = map_of (rev (map (\<lambda>p. (sp_name p, sp_liquidity_scope p)) selected))
      in \<lparr>al_worker_pools = selected, al_scopes = scopes,
          al_exclusive_routing_active =
            list_ex (\<lambda>p. scopes (sp_name p) = Some IncludeExclusive) selected\<rparr>)"

subsection \<open>Properties\<close>

lemma allocate_worker_pools:
  "set (al_worker_pools (allocate ps c al)) =
     {p \<in> set ps. serves p c \<and> (\<forall>names. al = Some names \<longrightarrow> sp_name p \<in> set names)}"
  by (auto simp: allocate_def Let_def list_ex_iff split: option.splits)

lemma allocate_scopes_SomeD:
  assumes "al_scopes (allocate ps c al) n = Some sc"
  shows "\<exists>p \<in> set (al_worker_pools (allocate ps c al)). sp_name p = n \<and> sp_liquidity_scope p = sc"
  using map_of_SomeD assms by (fastforce simp: allocate_def Let_def)

lemma allocate_scopes_distinct:
  assumes "distinct (map sp_name ps)" "p \<in> set (al_worker_pools (allocate ps c al))"
  shows "al_scopes (allocate ps c al) (sp_name p) = Some (sp_liquidity_scope p)"
proof -
  let ?sel = "al_worker_pools (allocate ps c al)"
  let ?kvs = "map (\<lambda>p. (sp_name p, sp_liquidity_scope p)) ?sel"
  have "distinct (map sp_name ?sel)"
    using assms(1) by (simp add: allocate_def Let_def distinct_map_filter)
  then have "distinct (map fst (rev ?kvs))"
    by (simp add: rev_map [symmetric] comp_def)
  then have "map_of (rev ?kvs) (sp_name p) = Some (sp_liquidity_scope p)"
    using assms(2) by (intro map_of_is_SomeI) auto
  then show ?thesis by (simp add: allocate_def Let_def)
qed

lemma exclusive_routing_active_iff:
  assumes "distinct (map sp_name ps)"
  shows "al_exclusive_routing_active (allocate ps c al) \<longleftrightarrow>
    (\<exists>p \<in> set (al_worker_pools (allocate ps c al)). sp_liquidity_scope p = IncludeExclusive)"
proof -
  have "al_exclusive_routing_active (allocate ps c al) \<longleftrightarrow>
      (\<exists>p \<in> set (al_worker_pools (allocate ps c al)).
         al_scopes (allocate ps c al) (sp_name p) = Some IncludeExclusive)"
    by (simp add: allocate_def Let_def list_ex_iff)
  then show ?thesis using allocate_scopes_distinct [OF assms] by fastforce
qed

lemma denied_pool_scope:
  assumes "oc_exclusive_access c = Denied" "p \<in> set (al_worker_pools (allocate ps c al))"
  shows "sp_liquidity_scope p = PublicOnly"
  using assms by (auto simp: allocate_worker_pools serves_def split: liquidity_scope.splits)

lemma denied_scopes:
  assumes "oc_exclusive_access c = Denied"
  shows "al_scopes (allocate ps c al) n \<noteq> Some IncludeExclusive"
  using allocate_scopes_SomeD denied_pool_scope [OF assms] by fastforce

lemma denied_inactive:
  assumes "oc_exclusive_access c = Denied"
  shows "\<not> al_exclusive_routing_active (allocate ps c al)"
  using denied_scopes [OF assms] by (simp add: allocate_def Let_def list_ex_iff)

text \<open>C15: without exclusive access, no worker pool that routes through exclusive liquidity is
  allocated, none is reported as exclusive under any name, and the exclusive ranking is not active,
  whatever the configuration, the allowlist and the required tokens are.\<close>

theorem denied_never_exclusive:
  assumes "oc_exclusive_access c = Denied"
  shows "(\<forall>p \<in> set (al_worker_pools (allocate ps c al)). sp_liquidity_scope p = PublicOnly)
    \<and> (\<forall>n. \<not> allocation_is_exclusive (allocate ps c al) n)
    \<and> \<not> al_exclusive_routing_active (allocate ps c al)"
  using denied_scopes [OF assms] denied_inactive [OF assms] denied_pool_scope [OF assms]
  by (simp add: allocation_is_exclusive_def)

definition example_pools :: "solver_pool_handle list" where
  "example_pools =
     [\<lparr>sp_name = ''pub'', sp_liquidity_scope = PublicOnly, sp_supports_required_tokens = False\<rparr>,
      \<lparr>sp_name = ''excl'', sp_liquidity_scope = IncludeExclusive, sp_supports_required_tokens = True\<rparr>]"

theorem denied_never_exclusive_witness:
  "\<not> al_exclusive_routing_active
       (allocate example_pools \<lparr>oc_exclusive_access = Denied, oc_requires_tokens = False\<rparr> None)
   \<and> al_worker_pools (allocate example_pools \<lparr>oc_exclusive_access = Denied, oc_requires_tokens = False\<rparr> None)
       = take 1 example_pools"
  using denied_never_exclusive [of "\<lparr>oc_exclusive_access = Denied, oc_requires_tokens = False\<rparr>"
      example_pools None]
  by (simp add: allocate_def example_pools_def serves_def Let_def)

text \<open>C16: the allocation keeps the configured order and holds exactly the pools that serve the
  class and are on the allowlist; with distinct pool names its scopes are those of the pools it
  holds, and the exclusive ranking is active exactly when it holds an exclusive pool.\<close>

theorem allocate_characterisation:
  assumes "distinct (map sp_name ps)"
  shows "subseq (al_worker_pools (allocate ps c al)) ps
    \<and> set (al_worker_pools (allocate ps c al)) =
        {p \<in> set ps. serves p c \<and> (\<forall>names. al = Some names \<longrightarrow> sp_name p \<in> set names)}
    \<and> (\<forall>n sc. al_scopes (allocate ps c al) n = Some sc \<longleftrightarrow>
          (\<exists>p \<in> set (al_worker_pools (allocate ps c al)). sp_name p = n \<and> sp_liquidity_scope p = sc))
    \<and> (al_exclusive_routing_active (allocate ps c al) \<longleftrightarrow>
          (\<exists>p \<in> set (al_worker_pools (allocate ps c al)). sp_liquidity_scope p = IncludeExclusive))"
proof -
  have "subseq (al_worker_pools (allocate ps c al)) ps"
    by (simp add: allocate_def Let_def del: filter_filter)
      (meson subseq_filter_left subseq_order.order_trans)
  moreover have "\<forall>n sc. al_scopes (allocate ps c al) n = Some sc \<longleftrightarrow>
      (\<exists>p \<in> set (al_worker_pools (allocate ps c al)). sp_name p = n \<and> sp_liquidity_scope p = sc)"
    using allocate_scopes_SomeD allocate_scopes_distinct [OF assms] by blast
  ultimately show ?thesis
    using exclusive_routing_active_iff [OF assms] by (simp add: allocate_worker_pools)
qed

theorem allocate_characterisation_witness:
  "al_exclusive_routing_active
     (allocate example_pools \<lparr>oc_exclusive_access = Granted, oc_requires_tokens = False\<rparr> None)"
  using allocate_characterisation [of example_pools "\<lparr>oc_exclusive_access = Granted, oc_requires_tokens = False\<rparr>" None]
  by (auto simp: example_pools_def allocate_def serves_def Let_def)


end
