(* ===== verification/Ranking.thy ===== *)
theory Ranking
  imports Exclusive Allocation
begin

text \<open>
  Ranking of the candidates of one order and the overlay of exclusive liquidity:
  \<open>src/fynd-core/src/worker_pool_router/mod.rs\<close> (\<open>rank_quotes\<close>, \<open>combine_with_surplus\<close> and their
  helpers, \<open>refined_net_amount_out\<close>).

  Counters, gauges and log lines are left out. \<open>sort_by\<close> of the standard library is a stable sort;
  \<open>max_by\<close> returns the last maximum and \<open>min_by_key\<close> the first minimum.
\<close>

record 's worker_pool_quote =
  wq_worker_pool :: string
  wq_quote :: "'s order_quote"
  wq_solve_time_ms :: nat

record 's order_responses =
  os_order_id :: string
  os_quotes :: "'s worker_pool_quote list"
  os_failed_solvers :: "(string \<times> solve_error) list"

definition public_only :: "'s order_responses \<Rightarrow> pool_scopes \<Rightarrow> 's order_responses" where
  "public_only rs scopes =
     rs\<lparr>os_quotes := filter (\<lambda>wq. scopes (wq_worker_pool wq) \<noteq> Some IncludeExclusive) (os_quotes rs)\<rparr>"

subsection \<open>Why an order has no route\<close>

fun cause_tier :: "solve_error \<Rightarrow> nat" where
  "cause_tier (NoRouteFound _ (Some reason)) =
     (case reason of
        SourceTokenNotInGraph \<Rightarrow> 0
      | DestinationTokenNotInGraph \<Rightarrow> 0
      | AmountTooSmall \<Rightarrow> 1
      | NoScorablePaths \<Rightarrow> 2
      | NoGraphPath \<Rightarrow> 3)"
| "cause_tier (RouteRejected _ _) = 1"
| "cause_tier (InsufficientLiquidity _ _) = 2"
| "cause_tier MaxGasExceeded = 2"
| "cause_tier (MissingData _) = 3"
| "cause_tier (MarketDataStale _) = 3"
| "cause_tier (ComputationFailed _) = 3"
| "cause_tier (NotReady _) = 3"
| "cause_tier (SimulationFailed _) = 4"
| "cause_tier (AlgorithmError _) = 4"
| "cause_tier (Timeout _) = 5"
| "cause_tier QueueFull = 5"
| "cause_tier (Internal _) = 5"
| "cause_tier (InvalidWorkerPools _) = 5"
| "cause_tier (InvalidOrder _) = 5"
| "cause_tier (FailedEncoding _) = 5"
| "cause_tier (EncodingUnavailable _) = 5"
| "cause_tier (PriceCheckFailed _) = 5"
| "cause_tier (NoRouteFound _ None) = 6"
| "cause_tier RequiredTokensNotSupported = 7"

definition lowest_tier_cause :: "solve_error list \<Rightarrow> solve_error option" where
  "lowest_tier_cause causes = first_min_by cause_tier causes"

definition aggregate_no_route_cause :: "(string \<times> solve_error) list \<Rightarrow> solve_error option" where
  "aggregate_no_route_cause failed_solvers = lowest_tier_cause (map snd failed_solvers)"

subsection \<open>Ranking\<close>

definition within_max_gas :: "quote_options \<Rightarrow> 's order_quote \<Rightarrow> bool" where
  "within_max_gas opts q = (case qo_max_gas opts of Some m \<Rightarrow> oq_gas_estimate q \<le> m | None \<Rightarrow> True)"

definition is_rankable :: "'s order_quote \<Rightarrow> quote_options \<Rightarrow> bool" where
  "is_rankable q opts = (oq_status q = QSuccess \<and> within_max_gas opts q)"

definition over_max_gas :: "'s order_responses \<Rightarrow> quote_options \<Rightarrow> bool" where
  "over_max_gas rs opts =
     list_ex (\<lambda>wq. case qo_max_gas opts of
                      Some m \<Rightarrow> m < oq_gas_estimate (wq_quote wq) | None \<Rightarrow> False) (os_quotes rs)"

definition is_timeout :: "solve_error \<Rightarrow> bool" where
  "is_timeout e = (case e of Timeout _ \<Rightarrow> True | _ \<Rightarrow> False)"

definition is_not_ready :: "solve_error \<Rightarrow> bool" where
  "is_not_ready e = (case e of NotReady _ \<Rightarrow> True | _ \<Rightarrow> False)"

definition failure_status :: "(string \<times> solve_error) list \<Rightarrow> quote_status" where
  "failure_status failed =
     (if failed = [] then QNoRouteFound
      else if list_all (\<lambda>(_, e). is_timeout e) failed then QTimeout
      else if list_all (\<lambda>(_, e). is_not_ready e) failed then QNotReady
      else QNoRouteFound)"

definition unanswered_placeholder :: "'s order_responses \<Rightarrow> quote_options \<Rightarrow> 's order_quote" where
  "unanswered_placeholder rs opts =
     set_no_route_cause
       (order_quote_new (os_order_id rs) (failure_status (os_failed_solvers rs)) 0 0 0 0
          \<lparr>bi_number = 0, bi_hash = [], bi_timestamp = 0\<rparr> [] [] []
          (case qo_state_label opts of Some l \<Rightarrow> l | None \<Rightarrow> ''0''))
       (aggregate_no_route_cause (os_failed_solvers rs))"

definition no_route_placeholder ::
  "'s order_responses \<Rightarrow> quote_options \<Rightarrow> 's order_quote \<Rightarrow> 's order_quote" where
  "no_route_placeholder rs opts any_q =
     set_no_route_cause
       (order_quote_new (os_order_id rs) QNoRouteFound (oq_amount_in any_q) 0 0 0 (oq_block any_q) []
          (oq_sender any_q) (oq_receiver any_q) (oq_solved_against any_q))
       (lowest_tier_cause
          (List.map_filter (\<lambda>wq. oq_no_route_cause (wq_quote wq)) (os_quotes rs)
           @ map snd (os_failed_solvers rs)
           @ (if over_max_gas rs opts then [MaxGasExceeded] else [])))"

definition rank_quotes :: "'s order_responses \<Rightarrow> quote_options \<Rightarrow> 's order_quote list" where
  "rank_quotes rs opts =
     (let valid = sort_desc_by (\<lambda>wq. oq_amount_out_net_gas (wq_quote wq))
                    (filter (\<lambda>wq. is_rankable (wq_quote wq) opts) (os_quotes rs)) in
      if valid \<noteq> [] then map wq_quote valid
      else case os_quotes rs of
             wq # _ \<Rightarrow> [no_route_placeholder rs opts (wq_quote wq)]
           | [] \<Rightarrow> [unanswered_placeholder rs opts])"

subsection \<open>The exclusive candidate\<close>

definition find_public_reference :: "'s order_quote list \<Rightarrow> 's order_quote option" where
  "find_public_reference ranked =
     find (\<lambda>q. oq_status q = QSuccess
            \<and> (case oq_route q of
                 None \<Rightarrow> False
               | Some r \<Rightarrow> \<not> routes_through_exclusive (rt_swaps r))) ranked"

definition has_valid_exclusive_route :: "'s order_quote \<Rightarrow> bool" where
  "has_valid_exclusive_route q =
     (case oq_route q of
        None \<Rightarrow> False
      | Some r \<Rightarrow>
          (case output_token r of
             None \<Rightarrow> False
           | Some t \<Rightarrow> exclusive_route_shape (rt_swaps r) t = Valid))"

definition best_exclusive_candidate ::
  "'s order_responses \<Rightarrow> pool_scopes \<Rightarrow> quote_options \<Rightarrow> 's order_quote option" where
  "best_exclusive_candidate rs scopes opts =
     map_option wq_quote
       (last_max_by (\<lambda>wq. oq_amount_out_net_gas (wq_quote wq))
          (filter (\<lambda>wq. has_valid_exclusive_route (wq_quote wq))
            (filter (\<lambda>wq. within_max_gas opts (wq_quote wq))
              (filter (\<lambda>wq. oq_status (wq_quote wq) = QSuccess)
                (filter (\<lambda>wq. scopes (wq_worker_pool wq) = Some IncludeExclusive)
                  (os_quotes rs))))))"

definition no_public_route_fee_bps :: nat where
  "no_public_route_fee_bps = 5"

definition default_fee_commitment :: "'s order_quote \<Rightarrow> biguint option run" where
  "default_fee_commitment q =
     (case oq_route q of
        None \<Rightarrow> ret None
      | Some r \<Rightarrow>
        (case find (\<lambda>s. is_exclusive (sw_protocol_component s)) (rt_swaps r) of
           None \<Rightarrow> ret None
         | Some leg \<Rightarrow>
           (case output_token r of
              None \<Rightarrow> ret None
            | Some t \<Rightarrow>
              (case leg_route_output (rt_swaps r) leg t of
                 None \<Rightarrow> ret None
               | Some (num, den) \<Rightarrow>
                   do {
                     leg_output \<leftarrow> biguint_div num den;
                     committed \<leftarrow> biguint_sub (oq_amount_out q)
                                    (scale_truncating leg_output no_public_route_fee_bps);
                     gas_cost \<leftarrow> biguint_sub (oq_amount_out q) (oq_amount_out_net_gas q);
                     if committed \<le> gas_cost then ret None else ret (Some committed)
                   }))))"

definition combine_with_surplus ::
  "'s order_responses \<Rightarrow> pool_scopes \<Rightarrow> quote_options \<Rightarrow> 's order_quote list \<Rightarrow> nat \<Rightarrow>
   's order_quote list run" where
  "combine_with_surplus rs scopes opts public_ranked user_share_bps =
     (case best_exclusive_candidate rs scopes opts of
        None \<Rightarrow> ret public_ranked
      | Some candidate \<Rightarrow>
          do {
            commitment \<leftarrow>
              (case find_public_reference public_ranked of
                 Some reference \<Rightarrow>
                   matched_commitment (route_output_from_quote reference)
                     (route_output_from_quote candidate) user_share_bps
               | None \<Rightarrow> default_fee_commitment candidate);
            case commitment of
              None \<Rightarrow> ret public_ranked
            | Some committed \<Rightarrow>
                do {
                  _ \<leftarrow> (case find_public_reference public_ranked of
                          Some reference \<Rightarrow> biguint_sub committed (oq_amount_out reference)
                        | None \<Rightarrow> ret 0);
                  pinned \<leftarrow> pin_commitment candidate committed;
                  let pos = (case position (\<lambda>q. oq_amount_out_net_gas q \<le> oq_amount_out_net_gas pinned)
                                    public_ranked of
                               Some i \<Rightarrow> i
                             | None \<Rightarrow> length public_ranked);
                  ret (insert_at pos pinned public_ranked)
                }
          })"

subsection \<open>Gas refinement\<close>

definition refined_net_amount_out :: "biguint \<Rightarrow> biguint \<Rightarrow> biguint \<Rightarrow> biguint \<Rightarrow> biguint run" where
  "refined_net_amount_out amount_out naive_net refined_gas naive_gas =
     (if naive_net = 0 then ret 0
      else do {
        naive_gas_cost \<leftarrow> biguint_sub amount_out naive_net;
        refined \<leftarrow> mul_div_ceil naive_gas_cost refined_gas naive_gas;
        case refined of
          None \<Rightarrow> ret 0
        | Some refined_gas_cost \<Rightarrow>
            ret (if refined_gas_cost \<le> amount_out then amount_out - refined_gas_cost else 0)
      })"

subsection \<open>Correctness of the ranking\<close>

lemma failure_status_cases: "failure_status failed \<in> {QNoRouteFound, QTimeout, QNotReady}"
  by (simp add: failure_status_def)

lemma rank_quotes_descending: "descending_by oq_amount_out_net_gas (rank_quotes rs opts)"
  by (auto simp: rank_quotes_def Let_def sorted_wrt_map descending_sort_desc_by split: list.splits)

text \<open>C18: every order gets a non-empty list of candidates, descending by output net of gas. It
  holds exactly the successful quotes within the gas limit, each as often as it was received and
  equal ones in the order received, or, if there is none, a single placeholder without a route and
  without amounts.\<close>

theorem rank_quotes_ranked:
  "rank_quotes rs opts \<noteq> [] \<and> descending_by oq_amount_out_net_gas (rank_quotes rs opts)
   \<and> (let valid = filter (\<lambda>q. is_rankable q opts) (map wq_quote (os_quotes rs)) in
      if valid \<noteq> [] then
        mset (rank_quotes rs opts) = mset valid
        \<and> (\<forall>n. filter (\<lambda>q. oq_amount_out_net_gas q = n) (rank_quotes rs opts)
               = filter (\<lambda>q. oq_amount_out_net_gas q = n) valid)
      else \<exists>q. rank_quotes rs opts = [q] \<and> oq_status q \<in> {QNoRouteFound, QTimeout, QNotReady}
             \<and> oq_route q = None \<and> oq_amount_out q = 0 \<and> oq_amount_out_net_gas q = 0
             \<and> oq_gas_estimate q = 0 \<and> oq_order_id q = os_order_id rs)"
proof -
  let ?valid = "filter (\<lambda>wq. is_rankable (wq_quote wq) opts) (os_quotes rs)"
  have valid: "filter (\<lambda>q. is_rankable q opts) (map wq_quote (os_quotes rs)) = map wq_quote ?valid"
    by (simp add: filter_map comp_def)
  have stable: "filter (\<lambda>q. oq_amount_out_net_gas q = n) (map wq_quote
        (sort_desc_by (\<lambda>wq. oq_amount_out_net_gas (wq_quote wq)) ?valid))
      = filter (\<lambda>q. oq_amount_out_net_gas q = n) (map wq_quote ?valid)" for n
    by (simp add: filter_map comp_def sort_desc_by_stable del: filter_filter)
  show ?thesis
  proof (cases "?valid = []")
    case True
    then show ?thesis
      using failure_status_cases [of "os_failed_solvers rs"] unfolding valid
      by (auto simp: rank_quotes_def Let_def no_route_placeholder_def unanswered_placeholder_def
          order_quote_new_def set_no_route_cause_def split: list.splits)
  next
    case False
    then have "rank_quotes rs opts =
        map wq_quote (sort_desc_by (\<lambda>wq. oq_amount_out_net_gas (wq_quote wq)) ?valid)"
      by (simp add: rank_quotes_def)
    with False rank_quotes_descending [of rs opts] show ?thesis
      unfolding valid by (simp add: stable del: filter_filter)
  qed
qed


definition example_options :: quote_options where
  "example_options =
     \<lparr>qo_timeout_ms = None, qo_min_responses = None, qo_max_gas = None, qo_encoding_options = None,
      qo_state_label = None, qo_worker_pools = None,
      qo_route_filter = \<lparr>rc_excluded_pools = {}, rc_excluded_protocols = {}, rc_excluded_tokens = {},
                         rc_required_tokens = {}\<rparr>\<rparr>"


subsection \<open>Correctness of the exclusive overlay\<close>

text \<open>What the workers guarantee of a candidate: the net amount is at most the output, no swap pays
  out for nothing, nothing is pinned yet and no leg is credited with more than the route pays.\<close>

definition sound_candidate :: "'s order_quote \<Rightarrow> bool" where
  "sound_candidate q =
     (net_le_out q
      \<and> (case oq_route q of
           None \<Rightarrow> True
         | Some r \<Rightarrow>
             no_free_output (rt_swaps r) \<and> \<not> has_exclusive_leg r
             \<and> (case output_token r of
                  None \<Rightarrow> True
                | Some t \<Rightarrow>
                    list_all (\<lambda>s. case leg_route_output (rt_swaps r) s t of
                                    None \<Rightarrow> True
                                  | Some (num, den) \<Rightarrow> num div den \<le> oq_amount_out q) (rt_swaps r))))"

lemma scale_truncating_bound:
  "denominator_bps * scale_truncating a r \<le> r * a"
  by (simp add: scale_truncating_def mult.commute)

lemma default_fee_commitment_ok:
  assumes "sound_candidate q"
  shows "\<exists>c. default_fee_commitment q = ret c
    \<and> (\<forall>v. c = Some v \<longrightarrow> v \<le> oq_amount_out q \<and> oq_amount_out q - oq_amount_out_net_gas q < v
          \<and> denominator_bps * (oq_amount_out q - v) \<le> no_public_route_fee_bps * oq_amount_out q)"
proof (cases "\<exists>r leg t num den. oq_route q = Some r
    \<and> find (\<lambda>s. is_exclusive (sw_protocol_component s)) (rt_swaps r) = Some leg
    \<and> output_token r = Some t \<and> leg_route_output (rt_swaps r) leg t = Some (num, den)")
  case False
  then have "default_fee_commitment q = ret None"
    by (auto simp: default_fee_commitment_def split: option.splits)
  then show ?thesis by simp
next
  case True
  then obtain r leg t num den where r: "oq_route q = Some r"
    "find (\<lambda>s. is_exclusive (sw_protocol_component s)) (rt_swaps r) = Some leg"
    "output_token r = Some t" "leg_route_output (rt_swaps r) leg t = Some (num, den)" by blast
  have leg: "leg \<in> set (rt_swaps r)" using r(2) by (auto simp: find_Some_iff)
  have den: "0 < den"
    using leg_route_output_denominator [OF _ r(4)] assms r(1) by (simp add: sound_candidate_def)
  have out: "num div den \<le> oq_amount_out q"
    using assms r leg by (fastforce simp: sound_candidate_def list_all_iff)
  define fee where "fee = scale_truncating (num div den) no_public_route_fee_bps"
  have fee: "fee \<le> oq_amount_out q"
    using scale_truncating_le [of no_public_route_fee_bps "num div den"] out
    by (simp add: fee_def no_public_route_fee_bps_def denominator_bps_def)
  have "denominator_bps * fee \<le> no_public_route_fee_bps * (num div den)"
    unfolding fee_def by (rule scale_truncating_bound)
  also have "\<dots> \<le> no_public_route_fee_bps * oq_amount_out q" using out by simp
  finally have bound: "denominator_bps * fee \<le> no_public_route_fee_bps * oq_amount_out q" .
  show ?thesis
    using den bound r fee assms
    by (simp add: default_fee_commitment_def fee_def [symmetric] sound_candidate_def net_le_out_def)
qed

lemma best_exclusive_candidate_SomeD:
  assumes "best_exclusive_candidate rs scopes opts = Some q"
  shows "\<exists>wq \<in> set (os_quotes rs). wq_quote wq = q \<and> scopes (wq_worker_pool wq) = Some IncludeExclusive"
    and "is_rankable q opts" "has_valid_exclusive_route q"
  using assms last_max_by_Some
  by (fastforce simp: best_exclusive_candidate_def is_rankable_def)+

lemma pin_sound_candidate:
  assumes "sound_candidate q" "oq_amount_out q - oq_amount_out_net_gas q \<le> c" "c \<le> oq_amount_out q"
  shows "\<exists>p. pin_commitment q c = ret p \<and> oq_amount_out p = c \<and> net_le_out p
    \<and> oq_amount_out_net_gas p = c - (oq_amount_out q - oq_amount_out_net_gas q)
    \<and> oq_surplus p = Some \<lparr>si_surplus_amount = oq_amount_out q - c, si_committed_amount_out = c\<rparr>"
proof -
  have "\<And>r. oq_route q = Some r \<Longrightarrow> no_free_output (rt_swaps r) \<and> \<not> has_exclusive_leg r"
    using assms(1) by (simp add: sound_candidate_def)
  from pin_commitment_ok [OF _ assms(2,3) this] show ?thesis
    using assms(1) by (auto simp: sound_candidate_def net_le_out_def)
qed

lemma commitment_cases:
  assumes "sound_candidate q" "b \<le> denominator_bps"
  shows "\<exists>c. (case ref of
      Some reference \<Rightarrow> matched_commitment (route_output_from_quote reference) (route_output_from_quote q) b
    | None \<Rightarrow> default_fee_commitment q) = ret c
    \<and> (\<forall>v. c = Some v \<longrightarrow> v \<le> oq_amount_out q \<and> oq_amount_out q - oq_amount_out_net_gas q \<le> v
      \<and> (case ref of
           Some reference \<Rightarrow> oq_amount_out reference \<le> v
             \<and> oq_amount_out_net_gas reference + (oq_amount_out q - oq_amount_out_net_gas q) \<le> v
         | None \<Rightarrow> oq_amount_out q - oq_amount_out_net_gas q < v
             \<and> 10000 * (oq_amount_out q - v) \<le> 5 * oq_amount_out q))"
proof (cases ref)
  case None
  then show ?thesis
    using default_fee_commitment_ok [OF assms(1)]
    by (auto simp: denominator_bps_def no_public_route_fee_bps_def)
next
  case (Some p)
  have net: "net_le_out q" using assms(1) by (simp add: sound_candidate_def)
  then have "\<exists>c. matched_commitment (route_output_from_quote p) (route_output_from_quote q) b = ret c"
    by (subst matched_commitment_eq) (simp_all add: route_output_from_quote_def net_le_out_def)
  then show ?thesis
    using Some matched_commitment_from_quotes [OF net assms(2), of p] by fastforce
qed

text \<open>C5: for sound candidates the overlay never panics and keeps a descending ranking descending.
  It returns the public ranking unchanged, or with the best exclusive candidate inserted, pinned to
  its commitment. With a public reference the pinned quote pays at least the reference, gross and
  net of gas; without one it keeps a positive net amount and gives up at most five basis points of
  its output.\<close>

theorem combine_with_surplus_sound:
  assumes "\<forall>wq \<in> set (os_quotes rs). sound_candidate (wq_quote wq)"
    and "descending_by oq_amount_out_net_gas ranked" "b \<le> denominator_bps"
  shows "\<exists>result. combine_with_surplus rs scopes opts ranked b = ret result
    \<and> descending_by oq_amount_out_net_gas result
    \<and> (result = ranked \<or>
        (\<exists>candidate pinned i. best_exclusive_candidate rs scopes opts = Some candidate
          \<and> result = insert_at i pinned ranked \<and> net_le_out pinned
          \<and> oq_surplus pinned = Some \<lparr>si_surplus_amount = oq_amount_out candidate - oq_amount_out pinned,
                                       si_committed_amount_out = oq_amount_out pinned\<rparr>
          \<and> (case find_public_reference ranked of
               Some reference \<Rightarrow> oq_amount_out reference \<le> oq_amount_out pinned
                 \<and> oq_amount_out_net_gas reference \<le> oq_amount_out_net_gas pinned
             | None \<Rightarrow> 0 < oq_amount_out_net_gas pinned
                 \<and> 10000 * (oq_amount_out candidate - oq_amount_out pinned) \<le> 5 * oq_amount_out candidate)))"
proof (cases "best_exclusive_candidate rs scopes opts")
  case None
  then show ?thesis using assms(2) by (simp add: combine_with_surplus_def)
next
  case (Some q)
  have q: "sound_candidate q"
    using best_exclusive_candidate_SomeD(1) [OF Some] assms(1) by auto
  then have net: "net_le_out q" by (simp add: sound_candidate_def)
  define commitment where "commitment = (case find_public_reference ranked of
      Some reference \<Rightarrow> matched_commitment (route_output_from_quote reference) (route_output_from_quote q) b
    | None \<Rightarrow> default_fee_commitment q)"
  obtain c where c: "commitment = ret c"
    "\<And>v. c = Some v \<Longrightarrow> v \<le> oq_amount_out q \<and> oq_amount_out q - oq_amount_out_net_gas q \<le> v
      \<and> (case find_public_reference ranked of
           Some reference \<Rightarrow> oq_amount_out reference \<le> v
             \<and> oq_amount_out_net_gas reference + (oq_amount_out q - oq_amount_out_net_gas q) \<le> v
         | None \<Rightarrow> oq_amount_out q - oq_amount_out_net_gas q < v
             \<and> 10000 * (oq_amount_out q - v) \<le> 5 * oq_amount_out q)"
    using commitment_cases [OF q assms(3)] unfolding commitment_def by blast
  show ?thesis
  proof (cases c)
    case None
    with c(1) show ?thesis
      using Some assms(2) by (simp add: combine_with_surplus_def commitment_def)
  next
    case (Some v)
    note v = c(2) [OF this]
    obtain p where p: "pin_commitment q v = ret p" "oq_amount_out p = v" "net_le_out p"
      "oq_amount_out_net_gas p = v - (oq_amount_out q - oq_amount_out_net_gas q)"
      "oq_surplus p = Some \<lparr>si_surplus_amount = oq_amount_out q - v, si_committed_amount_out = v\<rparr>"
      using pin_sound_candidate [OF q] v by blast
    define i where "i = (case position (\<lambda>y. oq_amount_out_net_gas y \<le> oq_amount_out_net_gas p) ranked of
        Some j \<Rightarrow> j | None \<Rightarrow> length ranked)"
    have "combine_with_surplus rs scopes opts ranked b = ret (insert_at i p ranked)"
      using \<open>best_exclusive_candidate rs scopes opts = Some q\<close> c(1) Some p(1) v
      by (auto simp: combine_with_surplus_def commitment_def i_def split: option.splits)
    moreover have "descending_by oq_amount_out_net_gas (insert_at i p ranked)"
      by (rule descending_insert_at [OF assms(2) i_def])
    ultimately show ?thesis
      using \<open>best_exclusive_candidate rs scopes opts = Some q\<close> p v
      by (auto simp: split: option.splits)
  qed
qed

definition example_candidate :: "unit order_quote" where
  "example_candidate = (example_quote 1100 1050)\<lparr>oq_route := Some example_exclusive_route\<rparr>"

lemma example_candidate_sound: "sound_candidate example_candidate"
  by (simp add: sound_candidate_def example_candidate_def net_le_out_def no_free_output_def
      has_exclusive_leg_def output_token_def example_exclusive_route_def example_swap_def swap_new_def
      leg_route_output_def total_amount_in_for_token_def token_route_output.simps add_fraction_def)

theorem combine_with_surplus_sound_witness:
  "\<exists>result. combine_with_surplus
      \<lparr>os_order_id = ''o1'', os_quotes = [\<lparr>wq_worker_pool = ''excl'', wq_quote = example_candidate,
         wq_solve_time_ms = 1\<rparr>], os_failed_solvers = []\<rparr>
      [''excl'' \<mapsto> IncludeExclusive] example_options [(example_quote 1000 900)] 1000 = ret result
    \<and> descending_by oq_amount_out_net_gas result"
  using combine_with_surplus_sound [of "\<lparr>os_order_id = ''o1'', os_quotes = [\<lparr>wq_worker_pool = ''excl'',
      wq_quote = example_candidate, wq_solve_time_ms = 1\<rparr>], os_failed_solvers = []\<rparr>"
      "[example_quote 1000 900]" 1000 "[''excl'' \<mapsto> IncludeExclusive]" example_options]
    example_candidate_sound
  by (auto simp: denominator_bps_def)

lemma refined_net_le: "refined_net_amount_out out naive_net refined_gas naive_gas = ret net \<Longrightarrow> net \<le> out"
  by (auto simp: refined_net_amount_out_def mul_div_ceil_eq bind_eq_Some_conv split: if_splits)



end
