(* ===== verification/Fanout.thy ===== *)
theory Fanout
  imports Ranking "HOL-Library.List_Lexorder" "HOL-Library.Char_ord"
begin

text \<open>
  Collecting the answers for one order: \<open>WorkerPoolRouter::solve_order\<close> of
  \<open>src/fynd-core/src/worker_pool_router/mod.rs\<close>.

  The select loop waits for the deadline or for the next answer of a worker pool. Its input is the
  sequence of events it sees: an answer of a pool, or the deadline with the time elapsed; the end
  of the sequence is the end of the pending futures. \<open>on_answer\<close> and \<open>on_deadline\<close> are the two arms
  of the loop body. The order in which a hash set is drained is the parameter \<open>drain\<close>.
\<close>

datatype 's event = Answer string "solve_error + 's single_order_quote" | Deadline nat

record 's collect_state =
  cs_quotes :: "'s worker_pool_quote list"
  cs_failed_solvers :: "(string \<times> solve_error) list"
  cs_remaining :: "string set"
  cs_has_public_response :: bool
  cs_has_exclusive_access_response :: bool

definition collect_start :: "allocation \<Rightarrow> 's collect_state" where
  "collect_start a =
     \<lparr>cs_quotes = [], cs_failed_solvers = [], cs_remaining = set (map sp_name (al_worker_pools a)),
      cs_has_public_response = False, cs_has_exclusive_access_response = False\<rparr>"

definition on_deadline :: "(string set \<Rightarrow> string list) \<Rightarrow> nat \<Rightarrow> 's collect_state \<Rightarrow> 's collect_state" where
  "on_deadline drain elapsed_ms st =
     st\<lparr>cs_remaining := {},
        cs_failed_solvers := cs_failed_solvers st @ map (\<lambda>n. (n, Timeout elapsed_ms)) (drain (cs_remaining st))\<rparr>"

definition on_answer ::
  "allocation \<Rightarrow> string \<Rightarrow> solve_error + 's single_order_quote \<Rightarrow> 's collect_state \<Rightarrow> 's collect_state" where
  "on_answer a name result st =
     (let st1 = st\<lparr>cs_remaining := cs_remaining st - {name}\<rparr> in
      case result of
        Inr single_quote \<Rightarrow>
          let st2 = (if allocation_is_exclusive a name
                     then st1\<lparr>cs_has_exclusive_access_response := True\<rparr>
                     else st1\<lparr>cs_has_public_response := True\<rparr>) in
          st2\<lparr>cs_quotes := cs_quotes st2 @
                [\<lparr>wq_worker_pool = name, wq_quote = set_worker_pool (so_order single_quote) name,
                  wq_solve_time_ms = so_solve_time_ms single_quote\<rparr>]\<rparr>
      | Inl e \<Rightarrow>
          let st2 = (if allocation_is_exclusive a name
                     then st1\<lparr>cs_has_exclusive_access_response := True\<rparr> else st1) in
          st2\<lparr>cs_failed_solvers := cs_failed_solvers st2 @ [(name, e)]\<rparr>)"

definition scope_ready :: "allocation \<Rightarrow> 's collect_state \<Rightarrow> bool" where
  "scope_ready a st =
     (if al_exclusive_routing_active a
      then cs_has_public_response st \<and> cs_has_exclusive_access_response st else True)"

definition early_return :: "allocation \<Rightarrow> nat \<Rightarrow> 's collect_state \<Rightarrow> bool" where
  "early_return a min_responses st =
     (0 < min_responses \<and> min_responses \<le> length (cs_quotes st) \<and> scope_ready a st)"

fun collect_loop ::
  "(string set \<Rightarrow> string list) \<Rightarrow> allocation \<Rightarrow> nat \<Rightarrow> 's event list \<Rightarrow> 's collect_state \<Rightarrow> 's collect_state" where
  "collect_loop drain a m [] st = st"
| "collect_loop drain a m (Deadline elapsed # es) st = on_deadline drain elapsed st"
| "collect_loop drain a m (Answer name (Inl e) # es) st =
     collect_loop drain a m es (on_answer a name (Inl e) st)"
| "collect_loop drain a m (Answer name (Inr q) # es) st =
     (let st' = on_answer a name (Inr q) st in
      if early_return a m st' then st' else collect_loop drain a m es st')"

definition solve_order ::
  "(string set \<Rightarrow> string list) \<Rightarrow> order \<Rightarrow> nat \<Rightarrow> allocation \<Rightarrow> 's event list \<Rightarrow> 's order_responses" where
  "solve_order drain d min_responses a events =
     (let st = collect_loop drain a min_responses events (collect_start a) in
      \<lparr>os_order_id = od_id d, os_quotes = cs_quotes st, os_failed_solvers = cs_failed_solvers st\<rparr>)"

subsection \<open>The collection as a state machine\<close>

text \<open>A pending future yields once, so an answer comes from a pool that has not answered.\<close>

inductive collecting :: "allocation \<Rightarrow> 's collect_state \<Rightarrow> bool" for a where
  start: "collecting a (collect_start a)"
| answer: "collecting a st \<Longrightarrow> name \<in> cs_remaining st \<Longrightarrow> collecting a (on_answer a name result st)"

inductive_cases collectingE: "collecting a st"

definition answered :: "'s collect_state \<Rightarrow> string list" where
  "answered st = map wq_worker_pool (cs_quotes st) @ map fst (cs_failed_solvers st)"

lemma on_answer_simps [simp]:
  "cs_remaining (on_answer a name r st) = cs_remaining st - {name}"
  "set (answered (on_answer a name r st)) = insert name (set (answered st))"
  by (auto simp: on_answer_def answered_def Let_def split: sum.splits)

lemma cs_remaining_start [simp]:
  "cs_remaining (collect_start a) = sp_name ` set (al_worker_pools a)"
  by (simp add: collect_start_def)

lemma distinct_answered:
  "name \<notin> set (answered st) \<Longrightarrow> distinct (answered st) \<Longrightarrow> distinct (answered (on_answer a name r st))"
  by (auto simp: on_answer_def answered_def Let_def split: sum.splits)

text \<open>The invariant: every allocated pool has answered once or is still awaited, every quote is
  credited to the pool it came from, and the two flags say which kinds of pools have answered.\<close>

definition collect_inv :: "allocation \<Rightarrow> 's collect_state \<Rightarrow> bool" where
  "collect_inv a st =
     (distinct (answered st)
      \<and> set (answered st) \<inter> cs_remaining st = {}
      \<and> set (answered st) \<union> cs_remaining st = sp_name ` set (al_worker_pools a)
      \<and> (\<forall>wq \<in> set (cs_quotes st). oq_worker_pool (wq_quote wq) = wq_worker_pool wq)
      \<and> (cs_has_public_response st \<longleftrightarrow>
           (\<exists>wq \<in> set (cs_quotes st). \<not> allocation_is_exclusive a (wq_worker_pool wq)))
      \<and> (cs_has_exclusive_access_response st \<longleftrightarrow>
           (\<exists>n \<in> set (answered st). allocation_is_exclusive a n)))"

lemma on_answer_flags:
  "cs_has_exclusive_access_response (on_answer a name r st) \<longleftrightarrow>
     cs_has_exclusive_access_response st \<or> allocation_is_exclusive a name"
  "cs_has_public_response (on_answer a name r st) \<longleftrightarrow>
     cs_has_public_response st \<or> (\<exists>q. r = Inr q) \<and> \<not> allocation_is_exclusive a name"
  by (auto simp: on_answer_def Let_def split: sum.splits)

lemma on_answer_quotes:
  "set (cs_quotes (on_answer a name r st)) =
     set (cs_quotes st) \<union> (case r of
       Inl _ \<Rightarrow> {}
     | Inr q \<Rightarrow> {\<lparr>wq_worker_pool = name, wq_quote = set_worker_pool (so_order q) name,
                  wq_solve_time_ms = so_solve_time_ms q\<rparr>})"
  by (auto simp: on_answer_def Let_def split: sum.splits)

lemma collect_inv_on_answer:
  assumes "collect_inv a st" "name \<in> cs_remaining st"
  shows "collect_inv a (on_answer a name r st)"
proof -
  have "name \<notin> set (answered st)" using assms by (auto simp: collect_inv_def)
  then have "distinct (answered (on_answer a name r st))"
    using assms(1) by (intro distinct_answered) (simp_all add: collect_inv_def)
  then show ?thesis
    using assms
    by (auto simp: collect_inv_def on_answer_flags on_answer_quotes set_worker_pool_def split: sum.splits)
qed

lemma collecting_inv: "collecting a st \<Longrightarrow> collect_inv a st"
proof (induction rule: collecting.induct)
  case start
  then show ?case by (simp add: collect_inv_def collect_start_def answered_def)
next
  case (answer st name result)
  then show ?case by (simp add: collect_inv_on_answer)
qed

subsection \<open>Runs\<close>

definition answer_names :: "'s event list \<Rightarrow> string list" where
  "answer_names es = List.map_filter (\<lambda>e. case e of Answer n _ \<Rightarrow> Some n | Deadline _ \<Rightarrow> None) es"

definition has_deadline :: "'s event list \<Rightarrow> bool" where
  "has_deadline es = list_ex (\<lambda>e. case e of Deadline _ \<Rightarrow> True | _ \<Rightarrow> False) es"

lemma event_list_simps [simp]:
  "answer_names [] = []" "answer_names (Answer n r # es) = n # answer_names es"
  "answer_names (Deadline t # es) = answer_names es"
  "has_deadline [] = False" "has_deadline (Answer n r # es) = has_deadline es"
  "has_deadline (Deadline t # es) = True"
  by (simp_all add: answer_names_def has_deadline_def List.map_filter_def)

text \<open>A run the runtime can produce: every awaited pool answers at most once, and the run ends with
  the deadline or when all have answered.\<close>

definition possible_run :: "'s event list \<Rightarrow> string set \<Rightarrow> bool" where
  "possible_run es awaited =
     (distinct (answer_names es) \<and> set (answer_names es) \<subseteq> awaited
      \<and> (has_deadline es \<or> set (answer_names es) = awaited))"

definition collected :: "allocation \<Rightarrow> nat \<Rightarrow> 's collect_state \<Rightarrow> bool" where
  "collected a m st =
     (distinct (answered st) \<and> set (answered st) \<subseteq> sp_name ` set (al_worker_pools a)
      \<and> (\<forall>wq \<in> set (cs_quotes st). oq_worker_pool (wq_quote wq) = wq_worker_pool wq)
      \<and> (set (answered st) = sp_name ` set (al_worker_pools a) \<or> collect_inv a st \<and> early_return a m st))"

lemma collected_on_deadline:
  assumes "\<And>S. finite S \<Longrightarrow> set (drain S) = S \<and> distinct (drain S)" "collect_inv a st"
  shows "collected a m (on_deadline drain elapsed st)"
proof -
  have "finite (cs_remaining st)"
    using assms(2) by (metis collect_inv_def finite_Un finite_imageI finite_set)
  then have d: "set (drain (cs_remaining st)) = cs_remaining st" "distinct (drain (cs_remaining st))"
    using assms(1) by blast+
  have "answered (on_deadline drain elapsed st) = answered st @ drain (cs_remaining st)"
    by (simp add: answered_def on_deadline_def comp_def)
  then show ?thesis
    using assms(2) d by (simp add: collected_def collect_inv_def on_deadline_def)
qed

lemma collect_loop_result:
  assumes "\<And>S. finite S \<Longrightarrow> set (drain S) = S \<and> distinct (drain S)"
  shows "collecting a st \<Longrightarrow> possible_run es (cs_remaining st) \<Longrightarrow>
    collected a m (collect_loop drain a m es st)"
proof (induction es arbitrary: st)
  case Nil
  then show ?case
    using collecting_inv [OF Nil(1)] by (simp add: possible_run_def collected_def collect_inv_def)
next
  case (Cons e es)
  note inv = collecting_inv [OF Cons.prems(1)]
  show ?case
  proof (cases e)
    case (Deadline t)
    then show ?thesis using collected_on_deadline [OF assms inv] by simp
  next
    case (Answer n r)
    have c: "collecting a (on_answer a n r st)"
      using Cons.prems Answer by (intro collecting.answer) (simp_all add: possible_run_def)
    have "possible_run es (cs_remaining (on_answer a n r st))"
      using Cons.prems(2) Answer by (auto simp: possible_run_def)
    note ih = Cons.IH [OF c this]
    have early: "collected a m (on_answer a n r st)" if "early_return a m (on_answer a n r st)"
      using collecting_inv [OF c] that unfolding collected_def collect_inv_def by blast
    show ?thesis
      using ih early Answer by (cases r) (simp_all add: Let_def)
  qed
qed

text \<open>C24: whatever the order of the answers and whenever the deadline falls, every allocated pool
  is accounted for once, as a quote or as a failure, a quote is credited to the pool that sent it,
  and the collection stops before all pools are accounted for only when the early return applies:
  enough quotes, and, with exclusive routing active, an answer of both scopes.\<close>

theorem solve_order_accounts_for_pools:
  assumes "\<And>S. finite S \<Longrightarrow> set (drain S) = S \<and> distinct (drain S)"
    and "possible_run events (sp_name ` set (al_worker_pools a))"
  defines "pools \<equiv> sp_name ` set (al_worker_pools a)"
  shows "let rs = solve_order drain d m a events;
             names = map wq_worker_pool (os_quotes rs) @ map fst (os_failed_solvers rs) in
    distinct names \<and> set names \<subseteq> pools
    \<and> (\<forall>wq \<in> set (os_quotes rs). oq_worker_pool (wq_quote wq) = wq_worker_pool wq)
    \<and> (set names = pools
       \<or> 0 < m \<and> m \<le> length (os_quotes rs)
         \<and> (al_exclusive_routing_active a \<longrightarrow>
              (\<exists>wq \<in> set (os_quotes rs). \<not> allocation_is_exclusive a (wq_worker_pool wq))
              \<and> (\<exists>n \<in> set names. allocation_is_exclusive a n)))"
proof -
  have "collected a m (collect_loop drain a m events (collect_start a))"
    by (rule collect_loop_result [OF assms(1) collecting.start]) (simp_all add: assms(2))
  then show ?thesis
    by (auto simp: solve_order_def Let_def collected_def answered_def collect_inv_def pools_def
        early_return_def scope_ready_def)
qed

definition example_answer :: "unit single_order_quote" where
  "example_answer = \<lparr>so_order = example_quote 50 40, so_solve_time_ms = 3\<rparr>"

definition example_allocation :: allocation where
  "example_allocation =
     allocate example_pools \<lparr>oc_exclusive_access = Granted, oc_requires_tokens = False\<rparr> None"

definition example_order :: order where
  "example_order =
     \<lparr>od_id = ''o'', od_token_in = ''A'', od_token_out = ''B'', od_amount = 1, od_side = Sell,
      od_sender = ''s'', od_receiver = None\<rparr>"

theorem solve_order_accounts_for_pools_witness:
  "let rs = solve_order sorted_list_of_set example_order 1 example_allocation
      [Answer ''pub'' (Inr example_answer), Deadline 9] in
   distinct (map wq_worker_pool (os_quotes rs) @ map fst (os_failed_solvers rs))"
proof -
  have p: "sp_name ` set (al_worker_pools example_allocation) = {''pub'', ''excl''}"
    by (simp add: example_allocation_def allocate_def example_pools_def serves_def Let_def)
  have "possible_run [Answer ''pub'' (Inr example_answer), Deadline 9]
      (sp_name ` set (al_worker_pools example_allocation))"
    by (simp add: possible_run_def p)
  from solve_order_accounts_for_pools [of sorted_list_of_set, OF _ this, of example_order 1]
  show ?thesis by (simp add: Let_def)
qed

end
