(* ===== verification/PriceGuard.thy ===== *)
theory PriceGuard
  imports Quotes
begin

text \<open>
  External price validation: \<open>src/fynd-core/src/price_guard/guard.rs\<close>, \<open>provider.rs\<close> and
  \<open>provider_registry.rs\<close>.

  A provider is a trait object that reads a cache filled from the network, so a registry is a list
  of functions from a token pair and an input amount to a price or an error. The background
  workers of the providers are not modelled.
\<close>

datatype price_provider_error =
    Unavailable string
  | TokenNotFound string
  | PriceNotFound string string
  | StaleData nat

record external_price =
  ep_expected_amount_out :: biguint
  ep_source :: string
  ep_timestamp_ms :: nat

type_synonym price_provider =
  "address \<Rightarrow> address \<Rightarrow> biguint \<Rightarrow> price_provider_error + external_price"

datatype price_guard_error = NoProviders | EmptyQuoteCandidates

definition get_all_expected_out ::
  "price_provider list \<Rightarrow> address \<Rightarrow> address \<Rightarrow> biguint \<Rightarrow> (price_provider_error + external_price) list" where
  "get_all_expected_out providers token_in token_out amount_in =
     map (\<lambda>p. p token_in token_out amount_in) providers"

definition u32_max :: nat where
  "u32_max = 2 ^ 32 - 1"

definition price_within_tolerance ::
  "'s order_quote \<Rightarrow> external_price \<Rightarrow> price_guard_config \<Rightarrow> bool run" where
  "price_within_tolerance q p config =
     (if ep_expected_amount_out p = 0 then ret False
      else
        let provider_out = ep_expected_amount_out p; fynd_out = oq_amount_out q in
        do {
          (diff, tolerance) \<leftarrow>
            (if provider_out \<le> fynd_out
             then do { d \<leftarrow> biguint_sub fynd_out provider_out; ret (d, pg_upper_tolerance_bps config) }
             else do { d \<leftarrow> biguint_sub provider_out fynd_out; ret (d, pg_lower_tolerance_bps config) });
          deviation \<leftarrow> biguint_div (diff * 10000) provider_out;
          let deviation_bps = (if deviation \<le> u32_max then deviation else u32_max);
          ret (deviation_bps \<le> tolerance)
        })"

text \<open>The loop over the answers, with its two flags.\<close>

fun check_results ::
  "'s order_quote \<Rightarrow> price_guard_config \<Rightarrow> (price_provider_error + external_price) list \<Rightarrow>
   bool \<Rightarrow> bool \<Rightarrow> bool run" where
  "check_results q config [] price_out_of_tolerance has_provider_error =
     ret (if price_out_of_tolerance then False
          else if has_provider_error then \<not> pg_fail_on_provider_error config
          else \<not> pg_fail_on_token_price_not_found config)"
| "check_results q config (Inr p # rest) price_out_of_tolerance has_provider_error =
     do {
       ok \<leftarrow> price_within_tolerance q p config;
       if ok then ret True else check_results q config rest True has_provider_error
     }"
| "check_results q config (Inl e # rest) price_out_of_tolerance has_provider_error =
     check_results q config rest price_out_of_tolerance
       (case e of PriceNotFound _ _ \<Rightarrow> has_provider_error | _ \<Rightarrow> True)"

definition check_price ::
  "price_provider list \<Rightarrow> 's order_quote \<Rightarrow> address \<Rightarrow> address \<Rightarrow> price_guard_config \<Rightarrow> bool run" where
  "check_price providers q token_in token_out config =
     check_results q config (get_all_expected_out providers token_in token_out (oq_amount_in q)) False False"

definition validated_token_pair :: "'s order_quote \<Rightarrow> (address \<times> address) option" where
  "validated_token_pair q =
     (case oq_route q of
        None \<Rightarrow> None
      | Some r \<Rightarrow>
          (case (input_token r, output_token r) of
             (Some token_in, Some token_out) \<Rightarrow> Some (token_in, token_out)
           | _ \<Rightarrow> None))"

definition passes_price_check ::
  "price_provider list \<Rightarrow> price_guard_config \<Rightarrow> 's order_quote \<Rightarrow> bool run" where
  "passes_price_check providers config q =
     (case validated_token_pair q of
        None \<Rightarrow> ret False
      | Some (token_in, token_out) \<Rightarrow> check_price providers q token_in token_out config)"

fun retain_loop ::
  "price_provider list \<Rightarrow> price_guard_config \<Rightarrow> 's order_quote list \<Rightarrow> 's order_quote list \<Rightarrow>
   's order_quote option \<Rightarrow> ('s order_quote list \<times> 's order_quote option) run" where
  "retain_loop providers config [] passing best_rejected = ret (passing, best_rejected)"
| "retain_loop providers config (q # qs) passing best_rejected =
     do {
       ok \<leftarrow> passes_price_check providers config q;
       if ok then retain_loop providers config qs (passing @ [q]) best_rejected
       else retain_loop providers config qs passing
              (case best_rejected of None \<Rightarrow> Some q | Some r \<Rightarrow> Some r)
     }"

definition retain_valid ::
  "price_provider list \<Rightarrow> price_guard_config \<Rightarrow> 's order_quote list \<Rightarrow>
   (price_guard_error + 's order_quote list) run" where
  "retain_valid providers config candidates =
     (if (case candidates of [] \<Rightarrow> False | c # _ \<Rightarrow> oq_status c \<noteq> QSuccess) then ret (Inr candidates)
      else do {
        (passing, best_rejected) \<leftarrow> retain_loop providers config candidates [] None;
        if passing \<noteq> [] then ret (Inr passing)
        else case best_rejected of
               None \<Rightarrow> ret (Inl EmptyQuoteCandidates)
             | Some q \<Rightarrow> ret (Inr [set_status q QPriceCheckFailed])
      })"

fun validate_orders ::
  "price_provider list \<Rightarrow> price_guard_config \<Rightarrow> 's order_quote list list \<Rightarrow>
   (price_guard_error + 's order_quote list list) run" where
  "validate_orders providers config [] = ret (Inr [])"
| "validate_orders providers config (cs # css) =
     do {
       r \<leftarrow> retain_valid providers config cs;
       or_return r (\<lambda>kept. do {
         rest \<leftarrow> validate_orders providers config css;
         or_return rest (\<lambda>kepts. ret (Inr (kept # kepts)))
       })
     }"

definition price_guard_validate ::
  "price_provider list \<Rightarrow> 's order_quote list list \<Rightarrow> price_guard_config \<Rightarrow>
   (price_guard_error + 's order_quote list list) run" where
  "price_guard_validate providers ranked_quotes config =
     (if \<not> pg_enabled config then ret (Inr ranked_quotes)
      else if providers = [] then ret (Inl NoProviders)
      else validate_orders providers config ranked_quotes)"

subsection \<open>Tolerance\<close>

definition within_tolerance :: "biguint \<Rightarrow> biguint \<Rightarrow> price_guard_config \<Rightarrow> bool" where
  "within_tolerance fynd_out provider_out config =
     (provider_out \<noteq> 0
      \<and> (if provider_out \<le> fynd_out
         then min u32_max ((fynd_out - provider_out) * 10000 div provider_out) \<le> pg_upper_tolerance_bps config
         else min u32_max ((provider_out - fynd_out) * 10000 div provider_out) \<le> pg_lower_tolerance_bps config))"

lemma price_within_tolerance_eq:
  "price_within_tolerance q p config =
     ret (within_tolerance (oq_amount_out q) (ep_expected_amount_out p) config)"
  by (auto simp: price_within_tolerance_def within_tolerance_def Let_def min_def)

lemma within_tolerance_bounds:
  assumes "within_tolerance f p config" "pg_lower_tolerance_bps config < u32_max"
    "pg_upper_tolerance_bps config < u32_max"
  shows "0 < p" "p * 10000 < f * 10000 + (pg_lower_tolerance_bps config + 1) * p"
    "f * 10000 < p * 10000 + (pg_upper_tolerance_bps config + 1) * p"
proof -
  have bound: "d * 10000 < (t + 1) * p" if "d * 10000 div p \<le> t" "0 < p" for d t
  proof -
    have "d * 10000 div p < t + 1" using that(1) by simp
    then show ?thesis using that(2) by (simp add: div_less_iff_less_mult)
  qed
  show p: "0 < p" using assms(1) by (simp add: within_tolerance_def)
  show "p * 10000 < f * 10000 + (pg_lower_tolerance_bps config + 1) * p"
  proof (cases "p \<le> f")
    case True
    have "p * 10000 \<le> f * 10000" using True by simp
    then show ?thesis using p by simp
  next
    case False
    then have "(p - f) * 10000 < (pg_lower_tolerance_bps config + 1) * p"
      using bound [OF _ p] assms(1,2) by (auto simp: within_tolerance_def min_def split: if_splits)
    then show ?thesis using False by (simp add: diff_mult_distrib)
  qed
  show "f * 10000 < p * 10000 + (pg_upper_tolerance_bps config + 1) * p"
  proof (cases "p \<le> f")
    case True
    then have "(f - p) * 10000 < (pg_upper_tolerance_bps config + 1) * p"
      using bound [OF _ p] assms(1,3) by (auto simp: within_tolerance_def min_def split: if_splits)
    then show ?thesis using True by (simp add: diff_mult_distrib)
  next
    case False
    then show ?thesis by simp
  qed
qed

subsection \<open>Which candidates are kept\<close>

text \<open>The declarative acceptance rule: some price is within tolerance; or no provider has a price
  and the configuration lets such quotes pass.\<close>

definition is_price_not_found :: "price_provider_error \<Rightarrow> bool" where
  "is_price_not_found e = (case e of PriceNotFound _ _ \<Rightarrow> True | _ \<Rightarrow> False)"

definition accepted_results ::
  "biguint \<Rightarrow> price_guard_config \<Rightarrow> (price_provider_error + external_price) list \<Rightarrow> bool" where
  "accepted_results out config rs =
     ((\<exists>p. Inr p \<in> set rs \<and> within_tolerance out (ep_expected_amount_out p) config)
      \<or> (\<forall>p. Inr p \<notin> set rs)
        \<and> (if \<exists>e. Inl e \<in> set rs \<and> \<not> is_price_not_found e then \<not> pg_fail_on_provider_error config
           else \<not> pg_fail_on_token_price_not_found config))"

lemma check_results_eq:
  "check_results q config rs out_of_tol err = ret
     ((\<exists>p. Inr p \<in> set rs \<and> within_tolerance (oq_amount_out q) (ep_expected_amount_out p) config)
      \<or> \<not> out_of_tol \<and> (\<forall>p. Inr p \<notin> set rs)
        \<and> (if err \<or> (\<exists>e. Inl e \<in> set rs \<and> \<not> is_price_not_found e) then \<not> pg_fail_on_provider_error config
           else \<not> pg_fail_on_token_price_not_found config))"
proof (induction q config rs out_of_tol err rule: check_results.induct)
  case (1 q config out_of_tol err)
  then show ?case by simp
next
  case (2 q config p rest out_of_tol err)
  then show ?case by (auto simp: price_within_tolerance_eq)
next
  case (3 q config e rest out_of_tol err)
  then show ?case by (cases e) (auto simp: is_price_not_found_def)
qed

definition accepted :: "price_provider list \<Rightarrow> price_guard_config \<Rightarrow> 's order_quote \<Rightarrow> bool" where
  "accepted providers config q =
     (case validated_token_pair q of
        None \<Rightarrow> False
      | Some (token_in, token_out) \<Rightarrow>
          accepted_results (oq_amount_out q) config
            (get_all_expected_out providers token_in token_out (oq_amount_in q)))"

lemma passes_price_check_eq: "passes_price_check providers config q = ret (accepted providers config q)"
  by (auto simp: passes_price_check_def accepted_def check_price_def check_results_eq
      accepted_results_def split: option.splits)

lemma retain_loop_eq:
  "retain_loop providers config qs passing rejected =
     ret (passing @ filter (accepted providers config) qs,
          case rejected of Some r \<Rightarrow> Some r | None \<Rightarrow> find (\<lambda>q. \<not> accepted providers config q) qs)"
  by (induction qs arbitrary: passing rejected) (auto simp: passes_price_check_eq split: option.splits)

lemma retain_valid_eq:
  "retain_valid providers config (c # cs) = ret (Inr
     (if oq_status c \<noteq> QSuccess then c # cs
      else if filter (accepted providers config) (c # cs) \<noteq> []
      then filter (accepted providers config) (c # cs)
      else [set_status c QPriceCheckFailed]))"
  by (auto simp: retain_valid_def retain_loop_eq)

lemma validate_orders_eq:
  assumes "[] \<notin> set css"
  shows "validate_orders providers config css = ret (Inr (map (\<lambda>cs.
     if oq_status (hd cs) \<noteq> QSuccess then cs
     else if filter (accepted providers config) cs \<noteq> [] then filter (accepted providers config) cs
     else [set_status (hd cs) QPriceCheckFailed]) css))"
  using assms
proof (induction css)
  case (Cons cs css)
  then obtain c cs' where "cs = c # cs'" by (cases cs) auto
  with Cons show ?case by (simp add: retain_valid_eq)
qed simp

text \<open>C21: with the price guard enabled, a registered provider and a candidate for every order, the
  validation never panics and never fails. Per order it returns the placeholder of an order without
  a quote unchanged; otherwise exactly the accepted candidates in rank order, or, if none is
  accepted, only the best one with status \<open>PriceCheckFailed\<close>. A candidate is accepted when some
  provider's price is within tolerance, or when no provider has a price and the configuration fails
  open for the kind of errors the providers report.\<close>

theorem price_guard_keeps_accepted:
  assumes "pg_enabled config" "providers \<noteq> []" "[] \<notin> set ranked"
  shows "price_guard_validate providers ranked config = ret (Inr (map (\<lambda>candidates.
     if oq_status (hd candidates) \<noteq> QSuccess then candidates
     else if filter (accepted providers config) candidates \<noteq> []
     then filter (accepted providers config) candidates
     else [set_status (hd candidates) QPriceCheckFailed]) ranked))"
  using assms by (simp add: price_guard_validate_def validate_orders_eq)

definition example_provider :: "biguint \<Rightarrow> price_provider" where
  "example_provider out = (\<lambda>_ _ _. Inr \<lparr>ep_expected_amount_out = out, ep_source = ''x'', ep_timestamp_ms = 0\<rparr>)"

theorem price_guard_keeps_accepted_witness:
  "price_guard_validate [example_provider 100]
     [[(example_quote 90 80)\<lparr>oq_route := Some example_route\<rparr>,
       (example_quote 99 70)\<lparr>oq_route := Some example_route\<rparr>]]
     (default_price_guard_config\<lparr>pg_enabled := True\<rparr>)
   = ret (Inr [[(example_quote 99 70)\<lparr>oq_route := Some example_route\<rparr>]])"
  using price_guard_keeps_accepted [of "default_price_guard_config\<lparr>pg_enabled := True\<rparr>"
      "[example_provider 100]" "[[(example_quote 90 80)\<lparr>oq_route := Some example_route\<rparr>,
       (example_quote 99 70)\<lparr>oq_route := Some example_route\<rparr>]]"]
  by (simp add: default_price_guard_config_def accepted_def validated_token_pair_def
      input_token_def output_token_def example_route_def accepted_results_def get_all_expected_out_def
      example_provider_def within_tolerance_def u32_max_def)

text \<open>C22: a price accepted by a provider bounds the quoted output on both sides, with the
  deviation truncated to whole basis points.\<close>

theorem price_tolerance_bounds:
  assumes "price_within_tolerance q p config = ret True"
    and "pg_lower_tolerance_bps config < u32_max" "pg_upper_tolerance_bps config < u32_max"
  shows "ep_expected_amount_out p * 10000
           < oq_amount_out q * 10000 + (pg_lower_tolerance_bps config + 1) * ep_expected_amount_out p
    \<and> oq_amount_out q * 10000
           < ep_expected_amount_out p * 10000 + (pg_upper_tolerance_bps config + 1) * ep_expected_amount_out p"
  using assms within_tolerance_bounds by (simp add: price_within_tolerance_eq)

theorem price_tolerance_bounds_witness:
  "let p = \<lparr>ep_expected_amount_out = 1000, ep_source = ''x'', ep_timestamp_ms = 0\<rparr> in
   price_within_tolerance (example_quote 980 900) p default_price_guard_config = ret True
   \<and> 1000 * 10000 < (980::nat) * 10000 + 301 * 1000"
  using price_tolerance_bounds [of "example_quote 980 900"
      "\<lparr>ep_expected_amount_out = 1000, ep_source = ''x'', ep_timestamp_ms = 0\<rparr>" default_price_guard_config]
  by (simp add: price_within_tolerance_eq within_tolerance_def default_price_guard_config_def u32_max_def)



end
