(* ===== verification/Fees.thy ===== *)
theory Fees
  imports Quotes Amounts
begin

text \<open>
  Fees of a router call: \<open>src/fynd-core/src/encoding/router_fees.rs\<close> and the fee calculation of
  \<open>src/fynd-core/src/encoding/encoder.rs\<close>.

  Fee units are \<open>u64\<close>: an overflow is a panic, as in a build with overflow checks. The breakdown of
  an output into fees, slippage and the minimum amount is shown to be a partition of the output.
\<close>

subsection \<open>Router fees\<close>

record fee_rates =
  fr_on_output :: nat
  fr_on_client_fee :: nat
  fr_max_fee_units :: nat

definition u64_add :: "nat \<Rightarrow> nat \<Rightarrow> nat run" where
  "u64_add a b = (if a + b < 2 ^ 64 then ret (a + b) else panic)"

definition u64_mul :: "nat \<Rightarrow> nat \<Rightarrow> nat run" where
  "u64_mul a b = (if a * b < 2 ^ 64 then ret (a * b) else panic)"

definition fee_units_per_bps :: "fee_rates \<Rightarrow> nat" where
  "fee_units_per_bps rates = fr_max_fee_units rates div legacy_bps_denominator"

definition client_fee_units :: "fee_rates \<Rightarrow> nat \<Rightarrow> nat run" where
  "client_fee_units rates bps = u64_mul bps (fee_units_per_bps rates)"

definition max_fee_units_squared :: "fee_rates \<Rightarrow> nat" where
  "max_fee_units_squared rates = fr_max_fee_units rates * fr_max_fee_units rates"

record router_fees =
  rf_max_fee_units :: nat
  rf_default_fee_on_output :: nat
  rf_default_fee_on_client_fee :: nat
  rf_custom_fees :: "address \<rightharpoonup> nat \<times> nat"

definition router_fees_fallback :: router_fees where
  "router_fees_fallback =
     \<lparr>rf_max_fee_units = 100000000, rf_default_fee_on_output = 1000,
      rf_default_fee_on_client_fee = 0, rf_custom_fees = Map.empty\<rparr>"

definition fees_for :: "router_fees \<Rightarrow> address \<Rightarrow> fee_rates" where
  "fees_for fees client =
     (let (on_output, on_client_fee) =
            (case rf_custom_fees fees client of
               Some pair \<Rightarrow> pair
             | None \<Rightarrow> (rf_default_fee_on_output fees, rf_default_fee_on_client_fee fees))
      in \<lparr>fr_on_output = on_output, fr_on_client_fee = on_client_fee,
          fr_max_fee_units = rf_max_fee_units fees\<rparr>)"

subsection \<open>The fee calculator\<close>

text \<open>The fatal errors the encoder builds itself, and the errors of the Tycho encoder.\<close>

datatype encoding_error =
    FeesReachCap nat nat nat
  | FeeOnClientFeeTooHigh nat nat
  | ZeroMinAmountOut
  | NoEncodedSolution
  | MissingPermit2Signature
  | MissingPermit2
  | ClientFeeUnitsTooLarge nat nat
  | UnsupportedFunction string
  | TychoError string

definition calculate_fees ::
  "biguint \<Rightarrow> nat \<Rightarrow> fee_rates \<Rightarrow> (encoding_error + biguint \<times> biguint) run" where
  "calculate_fees swap_output client_fee_bps rates =
     (let max_fee_units = fr_max_fee_units rates;
          fee_on_output = fr_on_output rates;
          fee_on_client_fee = fr_on_client_fee rates in
      do {
        scaled_client_fee \<leftarrow> client_fee_units rates client_fee_bps;
        both \<leftarrow> u64_add scaled_client_fee fee_on_output;
        if max_fee_units \<le> both then ret (Inl (FeesReachCap client_fee_bps fee_on_output max_fee_units))
        else if max_fee_units < fee_on_client_fee
        then ret (Inl (FeeOnClientFeeTooHigh fee_on_client_fee max_fee_units))
        else do {
          (router_fee_on_client, client_portion) \<leftarrow>
            (if 0 < scaled_client_fee then
               do {
                 let client_fee_numerator = swap_output * scaled_client_fee;
                 total_client_fee \<leftarrow> biguint_div client_fee_numerator max_fee_units;
                 on_client \<leftarrow> biguint_div (client_fee_numerator * fee_on_client_fee)
                                (max_fee_units_squared rates);
                 portion \<leftarrow> biguint_sub total_client_fee on_client;
                 ret (on_client, portion)
               }
             else ret (0, 0));
          router_fee_on_output \<leftarrow> biguint_div (swap_output * fee_on_output) max_fee_units;
          ret (Inr (router_fee_on_client + router_fee_on_output, client_portion))
        }
      })"

definition fee_breakdown_new :: "biguint \<Rightarrow> biguint \<Rightarrow> biguint \<Rightarrow> biguint \<Rightarrow> fee_breakdown" where
  "fee_breakdown_new router_fee client_fee max_slippage min_amount_received =
     \<lparr>fb_router_fee = router_fee, fb_client_fee = client_fee, fb_max_slippage = max_slippage,
      fb_min_amount_received = min_amount_received, fb_swaps_hash = None\<rparr>"

definition calculate_fee_breakdown ::
  "biguint \<Rightarrow> nat \<Rightarrow> f64 \<Rightarrow> fee_rates \<Rightarrow> (encoding_error + fee_breakdown) run" where
  "calculate_fee_breakdown swap_output client_fee_bps slippage rates =
     do {
       fees \<leftarrow> calculate_fees swap_output client_fee_bps rates;
       or_return fees (\<lambda>(router_fee, client_fee). do {
         after_client \<leftarrow> biguint_sub swap_output client_fee;
         amount_after_fees \<leftarrow> biguint_sub after_client router_fee;
         slippage_amount \<leftarrow>
           biguint_div (amount_after_fees * f64_to_uint 64 (f64_mul slippage (Finite 1000000))) 1000000;
         min_amount_received \<leftarrow> biguint_sub amount_after_fees slippage_amount;
         ret (Inr (fee_breakdown_new router_fee client_fee slippage_amount min_amount_received))
       })
     }"

definition check_min_amount_out :: "biguint \<Rightarrow> encoding_error + unit" where
  "check_min_amount_out m = (if m = 0 then Inl ZeroMinAmountOut else Inr ())"

definition fallback_clears_floor ::
  "biguint \<Rightarrow> biguint \<Rightarrow> nat \<Rightarrow> fee_rates \<Rightarrow> (encoding_error + bool) run" where
  "fallback_clears_floor floor_amount fallback_amount_out client_fee_bps rates =
     do {
       fill \<leftarrow> calculate_fee_breakdown fallback_amount_out client_fee_bps (Finite 0) rates;
       or_return fill (\<lambda>b. ret (Inr (floor_amount \<le> fb_min_amount_received b)))
     }"

definition slippage_bps :: "f64 \<Rightarrow> nat" where
  "slippage_bps slippage =
     f64_to_uint 32 (f64_clamp (Finite 0) (Finite 10000) (f64_round (f64_mul slippage (Finite 10000))))"

definition client_fee_bps_of :: "encoding_options \<Rightarrow> nat" where
  "client_fee_bps_of opts = (case eo_client_fee_params opts of None \<Rightarrow> 0 | Some f \<Rightarrow> cf_bps f)"

definition fee_client :: "encoding_options \<Rightarrow> 's order_quote \<Rightarrow> address" where
  "fee_client opts q = (case eo_client_fee_params opts of None \<Rightarrow> oq_sender q | Some f \<Rightarrow> cf_receiver f)"

text \<open>\<open>fallback_clears_min_amount_out\<close> with the current router fees; the error conversion is
  \<open>From<EncodingError> for SolveError\<close>.\<close>

definition fallback_clears_min_amount_out ::
  "(encoding_error \<Rightarrow> string) \<Rightarrow> router_fees \<Rightarrow> 's order_quote \<Rightarrow> encoding_options \<Rightarrow>
   (solve_error + bool) run" where
  "fallback_clears_min_amount_out show_error fees q opts =
     (case Option.bind (oq_route q) rt_fallback_amount_out of
        None \<Rightarrow> ret (Inr True)
      | Some fallback_amount_out \<Rightarrow>
          let rates = fees_for fees (fee_client opts q) in
          do {
            floor_breakdown \<leftarrow> calculate_fee_breakdown (oq_amount_out q) (client_fee_bps_of opts)
                                (eo_slippage opts) rates;
            case floor_breakdown of
              Inl e \<Rightarrow> ret (Inl (FailedEncoding (show_error e)))
            | Inr b \<Rightarrow>
                do {
                  clears \<leftarrow> fallback_clears_floor (fb_min_amount_received b) fallback_amount_out
                             (client_fee_bps_of opts) rates;
                  case clears of
                    Inl e \<Rightarrow> ret (Inl (FailedEncoding (show_error e)))
                  | Inr ok \<Rightarrow> ret (Inr ok)
                }
          })"

subsection \<open>The fees partition the output\<close>

definition fee_units_in_range :: "fee_rates \<Rightarrow> bool" where
  "fee_units_in_range rates = (fr_max_fee_units rates < 2 ^ 63 \<and> fr_on_output rates < 2 ^ 32)"

lemma client_fee_units_ret:
  assumes "fee_units_in_range rates" "bps \<le> legacy_bps_denominator"
  shows "client_fee_units rates bps = ret (bps * fee_units_per_bps rates)"
    and "bps * fee_units_per_bps rates \<le> fr_max_fee_units rates"
proof -
  have "bps * fee_units_per_bps rates \<le> legacy_bps_denominator * (fr_max_fee_units rates div legacy_bps_denominator)"
    using assms(2) by (simp add: fee_units_per_bps_def)
  then show le: "bps * fee_units_per_bps rates \<le> fr_max_fee_units rates"
    using times_div_less_eq_dividend le_trans by blast
  then show "client_fee_units rates bps = ret (bps * fee_units_per_bps rates)"
    using assms(1) by (simp add: client_fee_units_def u64_mul_def fee_units_in_range_def)
qed

lemma div_add_div_le:
  fixes x s f m :: nat
  assumes "s + f \<le> m"
  shows "x * s div m + x * f div m \<le> x"
proof -
  have "x * s div m + x * f div m \<le> (x * s + x * f) div m"
    by (metis div_add1_eq le_add1)
  also have "\<dots> = x * (s + f) div m" by (simp add: distrib_left)
  also have "\<dots> \<le> x" by (rule mult_div_le_self [OF assms])
  finally show ?thesis .
qed

lemma calculate_fees_ok:
  assumes "fee_units_in_range rates" "bps \<le> legacy_bps_denominator"
  shows "\<exists>r. calculate_fees out bps rates = ret r
    \<and> (\<forall>router_fee client_fee. r = Inr (router_fee, client_fee) \<longrightarrow>
         router_fee + client_fee \<le> out
       \<and> router_fee + client_fee = out * (bps * fee_units_per_bps rates) div fr_max_fee_units rates
                                    + out * fr_on_output rates div fr_max_fee_units rates)"
proof -
  let ?m = "fr_max_fee_units rates" and ?s = "bps * fee_units_per_bps rates"
    and ?o = "fr_on_output rates" and ?c = "fr_on_client_fee rates"
  note u = client_fee_units_ret [OF assms]
  have add: "u64_add ?s ?o = ret (?s + ?o)"
    using u(2) assms(1) by (simp add: u64_add_def fee_units_in_range_def)
  show ?thesis
  proof (cases "?m \<le> ?s + ?o \<or> ?m < ?c")
    case True
    then show ?thesis using u(1) add by (auto simp: calculate_fees_def Let_def)
  next
    case False
    have on_client: "out * ?s * ?c div (?m * ?m) \<le> out * ?s div ?m"
      using False by (simp add: div_mult2_eq div_le_mono mult_div_le_self)
    have sum: "out * ?s div ?m + out * ?o div ?m \<le> out"
      by (rule div_add_div_le) (use False in simp)
    have "0 < ?m" using False by simp
    then show ?thesis
      using False u(1) add on_client sum
      by (simp add: calculate_fees_def Let_def max_fee_units_squared_def)
  qed
qed

lemma slippage_units_le:
  assumes "f64_le (Finite 0) sl" "f64_less sl (Finite 1)"
  shows "f64_to_uint 64 (f64_mul sl (Finite 1000000)) \<le> 1000000"
proof -
  obtain a where a: "sl = Finite a" "0 \<le> a" "a \<le> 1"
    using assms by (cases sl) (auto simp: f64_le_def split: if_splits)
  obtain y where y: "f64_mul sl (Finite 1000000) = Finite y" "0 \<le> y" "y \<le> 1000000"
    using f64_mul_fraction [of a 1000000] a by auto
  show ?thesis
    unfolding y(1) by (rule f64_to_uint_le) (use y(2,3) in auto)
qed

lemma calculate_fee_breakdown_ret:
  assumes "fee_units_in_range rates" "validate_encoding_options opts = Inr ()"
  shows "\<exists>r. calculate_fee_breakdown out (client_fee_bps_of opts) (eo_slippage opts) rates = ret r
    \<and> (\<forall>b. r = Inr b \<longrightarrow>
         fb_router_fee b + fb_client_fee b + fb_max_slippage b + fb_min_amount_received b = out
       \<and> 1000000 * fb_max_slippage b
           \<le> f64_to_uint 64 (f64_mul (eo_slippage opts) (Finite 1000000))
               * (fb_max_slippage b + fb_min_amount_received b))"
proof -
  have bps: "client_fee_bps_of opts \<le> legacy_bps_denominator"
    using assms(2) by (auto simp: validate_encoding_options_def client_fee_bps_of_def
        legacy_bps_denominator_def split: option.splits if_splits)
  have "f64_le (Finite 0) (eo_slippage opts)" "f64_less (eo_slippage opts) (Finite 1)"
    using assms(2) by (auto simp: validate_encoding_options_def split: if_splits)
  note slippage = slippage_units_le [OF this]
  define k where "k = f64_to_uint 64 (f64_mul (eo_slippage opts) (Finite 1000000))"
  obtain r where r: "calculate_fees out (client_fee_bps_of opts) rates = ret r"
    "\<And>router_fee client_fee. r = Inr (router_fee, client_fee) \<Longrightarrow> router_fee + client_fee \<le> out"
    using calculate_fees_ok [OF assms(1) bps, of out] by blast
  show ?thesis
  proof (cases r)
    case (Inl e)
    then show ?thesis using r(1) by (simp add: calculate_fee_breakdown_def)
  next
    case (Inr fees)
    obtain router client where f: "fees = (router, client)" by force
    have le: "router + client \<le> out" using r(2) Inr f by simp
    have sl: "(out - client - router) * k div 1000000 \<le> out - client - router"
      by (rule mult_div_le_self) (use slippage in \<open>simp add: k_def\<close>)
    have "1000000 * ((out - client - router) * k div 1000000) \<le> (out - client - router) * k"
      by (rule times_div_less_eq_dividend)
    then show ?thesis
      using r(1) Inr f le sl
      by (simp add: calculate_fee_breakdown_def fee_breakdown_new_def k_def [symmetric] mult.commute)
  qed
qed

text \<open>C28: for options that pass validation and fee units within range, the fee breakdown is
  computed without a panic, and router fee, client fee, slippage and minimum amount add up to the
  swap output exactly. The slippage part is at most the requested fraction of what is left after
  the fees.\<close>

theorem fee_breakdown_partition:
  assumes "fee_units_in_range rates" "validate_encoding_options opts = Inr ()"
  shows "\<exists>r. calculate_fee_breakdown out (client_fee_bps_of opts) (eo_slippage opts) rates = ret r
    \<and> (\<forall>b. r = Inr b \<longrightarrow>
         fb_router_fee b + fb_client_fee b + fb_max_slippage b + fb_min_amount_received b = out
       \<and> 1000000 * fb_max_slippage b
           \<le> f64_to_uint 64 (f64_mul (eo_slippage opts) (Finite 1000000))
               * (fb_max_slippage b + fb_min_amount_received b))"
  using assms by (rule calculate_fee_breakdown_ret)

theorem fee_breakdown_partition_witness:
  "\<exists>b. calculate_fee_breakdown 1000000 0 (Finite 0) (fees_for router_fees_fallback ''c'') = ret (Inr b)
    \<and> fb_router_fee b + fb_client_fee b + fb_max_slippage b + fb_min_amount_received b = 1000000"
proof -
  have "calculate_fee_breakdown 1000000 0 (Finite 0) (fees_for router_fees_fallback ''c'') \<noteq> ret (Inl e)" for e
    by (simp add: calculate_fee_breakdown_def calculate_fees_def client_fee_units_def u64_mul_def
        u64_add_def fees_for_def router_fees_fallback_def fee_units_per_bps_def
        legacy_bps_denominator_def round_f64_def)
  moreover have "validate_encoding_options (encoding_options_new (Finite 0)) = Inr ()"
    "fee_units_in_range (fees_for router_fees_fallback ''c'')"
    by (simp_all add: validate_encoding_options_def encoding_options_new_def fee_units_in_range_def
        fees_for_def router_fees_fallback_def)
  ultimately show ?thesis
    using fee_breakdown_partition [of "fees_for router_fees_fallback ''c''"
        "encoding_options_new (Finite 0)" 1000000]
    by (auto simp: client_fee_bps_of_def encoding_options_new_def) (metis sum.exhaust)
qed


end
