(* ===== verification/Bytes.thy ===== *)
theory Bytes
  imports Prelude "HOL-Library.Char_ord" "HOL-Library.List_Lexorder"
begin

text \<open>
  Byte strings. \<open>Bytes\<close>, \<open>Vec<u8>\<close> and the fixed-size arrays of the sources are strings, since a
  \<open>char\<close> is a byte; their lexicographic order is the one of \<open>[u8]\<close>. \<open>be_bytes k n\<close> is \<open>to_be_bytes\<close>
  of an unsigned integer of \<open>k\<close> bytes, \<open>be_nat\<close> reads it back, and \<open>i128_bytes\<close> is the
  two's-complement form of an \<open>i128\<close>.
\<close>

fun be_bytes :: "nat \<Rightarrow> nat \<Rightarrow> string" where
  "be_bytes 0 n = []"
| "be_bytes (Suc k) n = be_bytes k (n div 256) @ [char_of (n mod 256)]"

definition be_nat :: "string \<Rightarrow> nat" where
  "be_nat s = fold (\<lambda>c acc. acc * 256 + of_char c) s 0"

definition i128_bytes :: "int \<Rightarrow> string" where
  "i128_bytes x = be_bytes 16 (nat (x mod 2 ^ 128))"

definition i128_of_bytes :: "string \<Rightarrow> int" where
  "i128_of_bytes s = (let n = int (be_nat s) in if n < 2 ^ 127 then n else n - 2 ^ 128)"

definition in_i128 :: "int \<Rightarrow> bool" where
  "in_i128 x = (- (2 ^ 127) \<le> x \<and> x < 2 ^ 127)"

lemma length_be_bytes [simp]: "length (be_bytes k n) = k"
  by (induction k n rule: be_bytes.induct) simp_all

lemma be_nat_snoc [simp]: "be_nat (s @ [c]) = be_nat s * 256 + of_char c"
  by (simp add: be_nat_def)

lemma be_nat_Nil [simp]: "be_nat [] = 0"
  by (simp add: be_nat_def)

lemma be_nat_be_bytes [simp]: "be_nat (be_bytes k n) = n mod 256 ^ k"
proof (induction k n rule: be_bytes.induct)
  case (2 k n)
  have "n mod (256 * 256 ^ k) = 256 * (n div 256 mod 256 ^ k) + n mod 256"
    by (rule mod_mult2_eq)
  then show ?case using 2 by (simp add: mult.commute)
qed simp

lemma of_char_less: "of_char c < (256::nat)"
  using of_char_mod_256 [of c, where ?'a = nat] mod_less_divisor [of 256] by (metis zero_less_numeral)

lemma be_nat_less: "be_nat s < 256 ^ length s"
proof (induction s rule: rev_induct)
  case (snoc c s)
  have "be_nat s * 256 + of_char c < (be_nat s + 1) * 256" using of_char_less [of c] by (simp add: algebra_simps)
  also have "\<dots> \<le> 256 ^ length s * 256" using snoc by (intro mult_right_mono) simp_all
  finally show ?case by (simp add: mult.commute)
qed simp

lemma be_bytes_be_nat [simp]: "be_bytes (length s) (be_nat s) = s"
proof (induction s rule: rev_induct)
  case (snoc c s)
  have "of_char c < (256::nat)" by (rule of_char_less)
  then show ?case using snoc by simp
qed simp

lemma length_i128_bytes [simp]: "length (i128_bytes x) = 16"
  by (simp add: i128_bytes_def)

lemma i128_round_trip:
  assumes "in_i128 x"
  shows "i128_of_bytes (i128_bytes x) = x"
proof -
  have "nat (x mod 2 ^ 128) < 256 ^ 16" by (simp add: nat_less_iff)
  then have b: "int (be_nat (i128_bytes x)) = x mod 2 ^ 128" by (simp add: i128_bytes_def)
  show ?thesis
  proof (cases "0 \<le> x")
    case True
    then have "x mod 2 ^ 128 = x" using assms by (simp add: in_i128_def)
    then show ?thesis using b assms by (simp add: i128_of_bytes_def in_i128_def)
  next
    case False
    have "(x + 2 ^ 128) mod 2 ^ 128 = x + 2 ^ 128"
      using False assms by (intro mod_pos_pos_trivial) (simp_all add: in_i128_def)
    then have "x mod 2 ^ 128 = x + 2 ^ 128" by simp
    then show ?thesis using b False assms by (simp add: i128_of_bytes_def in_i128_def)
  qed
qed

lemma slice_append:
  "length a = n \<Longrightarrow> take n (a @ b) = a"
  "length a = n \<Longrightarrow> drop n (a @ b) = b"
  by auto

end
