(* ===== verification/RouterCall.thy ===== *)
theory RouterCall
  imports Fees Bytes "HOL-Library.Sublist"
begin

text \<open>
  The router call: \<open>Encoder::encode_tycho_router_call\<close> and \<open>encode_input\<close> of
  \<open>src/fynd-core/src/encoding/encoder.rs\<close>, and \<open>src/fynd-core/src/encoding/router_call.rs\<close>, which
  reads the arguments of a call back.

  \<open>solution\<close> and \<open>encoded_solution\<close> are the types of the Tycho encoder, with the fields the code
  uses. \<open>abi_env\<close> holds what other crates provide: the ABI coding of the four argument tuples, the
  hash, the conversions to fixed-width integers and addresses, and two constants. \<open>abi_law\<close> states
  what the code relies on: the coding puts the offset word first, decodes what it encoded and
  ignores trailing bytes, and the conversions keep the value.
\<close>

subsection \<open>Solutions\<close>

record 's solution_swap =
  ss_component :: protocol_component
  ss_token_in :: token
  ss_token_out :: token
  ss_gas_estimate :: biguint
  ss_split :: f64
  ss_protocol_state :: 's
  ss_estimated_amount_in :: biguint
  ss_max_signed_quote_shortfall_bps :: "nat option"
  ss_user_data :: "string option"

record 's solution =
  sl_sender :: address
  sl_receiver :: address
  sl_token_in :: address
  sl_token_out :: address
  sl_amount_in :: biguint
  sl_expected_amount_out :: biguint
  sl_min_amount_out :: biguint
  sl_swaps :: "'s solution_swap list"
  sl_origin :: address
  sl_subsidy :: "biguint option"
  sl_user_transfer_type :: user_transfer_type

record encoded_solution =
  es_function_signature :: string
  es_swaps :: string
  es_estimated_gas :: biguint
  es_interacting_with :: address
  es_n_tokens :: nat
  es_client_fee_signature_offset :: nat

subsection \<open>Argument layouts\<close>

datatype router_layout = LSequential | LSplit | LSequentialPermit2 | LSplitPermit2

definition router_layout_of :: "string \<Rightarrow> router_layout option" where
  "router_layout_of function_signature =
     (let split = sublist ''splitSwap'' function_signature in
      if sublist ''Permit2'' function_signature
      then Some (if split then LSplitPermit2 else LSequentialPermit2)
      else if split then Some LSplit
      else if sublist ''singleSwap'' function_signature \<or> sublist ''sequentialSwap'' function_signature
      then Some LSequential
      else None)"

type_synonym client_fee_arg = "nat \<times> address \<times> nat \<times> nat \<times> string"

type_synonym sequential_args =
  "nat \<times> address \<times> address \<times> nat \<times> nat \<times> address \<times> client_fee_arg \<times> string"

type_synonym split_args =
  "nat \<times> address \<times> address \<times> nat \<times> nat \<times> nat \<times> address \<times> client_fee_arg \<times> string"

type_synonym sequential_permit2_args =
  "nat \<times> address \<times> address \<times> nat \<times> nat \<times> address \<times> client_fee_arg \<times> permit_single \<times> string \<times> string"

type_synonym split_permit2_args =
  "nat \<times> address \<times> address \<times> nat \<times> nat \<times> nat \<times> address \<times> client_fee_arg \<times> permit_single \<times> string \<times> string"

record abi_env =
  ab_encode_sequential :: "sequential_args \<Rightarrow> string"
  ab_decode_sequential :: "string \<Rightarrow> string + sequential_args"
  ab_encode_split :: "split_args \<Rightarrow> string"
  ab_decode_split :: "string \<Rightarrow> string + split_args"
  ab_encode_sequential_permit2 :: "sequential_permit2_args \<Rightarrow> string"
  ab_decode_sequential_permit2 :: "string \<Rightarrow> string + sequential_permit2_args"
  ab_encode_split_permit2 :: "split_permit2_args \<Rightarrow> string"
  ab_decode_split_permit2 :: "string \<Rightarrow> string + split_permit2_args"
  ab_keccak256 :: "string \<Rightarrow> string"
  ab_biguint_to_u256 :: "biguint \<Rightarrow> nat run"
  ab_narrow :: "nat \<Rightarrow> nat \<Rightarrow> nat run"
  ab_bytes_to_address :: "string \<Rightarrow> encoding_error + address"
  ab_native_address :: address
  ab_router_eth_address :: address

subsection \<open>Encoding a call\<close>

definition offset_word :: string where
  "offset_word = replicate 31 (CHR 0x00) @ [CHR 0x20]"

definition encode_input :: "(string \<Rightarrow> string) \<Rightarrow> string \<Rightarrow> string \<Rightarrow> string" where
  "encode_input keccak selector encoded_args =
     take 4 (keccak selector)
     @ (if 32 < length encoded_args \<and> take 32 encoded_args = offset_word
        then drop 32 encoded_args else encoded_args)"

definition to_router_address :: "abi_env \<Rightarrow> address \<Rightarrow> address" where
  "to_router_address abi raw = (if raw = ab_native_address abi then ab_router_eth_address abi else raw)"

definition permit_args ::
  "abi_env \<Rightarrow> encoding_options \<Rightarrow> (encoding_error + permit_single option \<times> string) run" where
  "permit_args abi opts =
     (case eo_permit opts of
        None \<Rightarrow> ret (Inr (None, []))
      | Some p \<Rightarrow>
          let d = ps_details p in
          or_return (ab_bytes_to_address abi (pd_token d)) (\<lambda>token. do {
            amount \<leftarrow> ab_biguint_to_u256 abi (pd_amount d) \<bind> ab_narrow abi 160;
            expiration \<leftarrow> ab_biguint_to_u256 abi (pd_expiration d) \<bind> ab_narrow abi 48;
            nonce \<leftarrow> ab_biguint_to_u256 abi (pd_nonce d) \<bind> ab_narrow abi 48;
            or_return (ab_bytes_to_address abi (ps_spender p)) (\<lambda>spender. do {
              sig_deadline \<leftarrow> ab_biguint_to_u256 abi (ps_sig_deadline p);
              case eo_permit2_signature opts of
                None \<Rightarrow> ret (Inl MissingPermit2Signature)
              | Some signature \<Rightarrow>
                  ret (Inr (Some \<lparr>ps_details = \<lparr>pd_token = token, pd_amount = amount,
                                                pd_expiration = expiration, pd_nonce = nonce\<rparr>,
                                  ps_spender = spender, ps_sig_deadline = sig_deadline\<rparr>, signature))
            })
          }))"

definition pad_signature :: "string \<Rightarrow> string" where
  "pad_signature s = (if length s < 65 then s @ replicate (65 - length s) (CHR 0x00) else s)"

definition client_fee_arg_of ::
  "abi_env \<Rightarrow> encoding_options \<Rightarrow> fee_rates \<Rightarrow> (encoding_error + client_fee_arg) run" where
  "client_fee_arg_of abi opts rates =
     (case eo_client_fee_params opts of
        None \<Rightarrow> ret (Inr (0, replicate 20 (CHR 0x00), 0, 2 ^ 256 - 1, []))
      | Some fee \<Rightarrow>
          do {
            fee_units \<leftarrow> client_fee_units rates (cf_bps fee);
            if \<not> fee_units < 2 ^ 32 then ret (Inl (ClientFeeUnitsTooLarge (cf_bps fee) fee_units))
            else or_return (ab_bytes_to_address abi (cf_receiver fee)) (\<lambda>receiver. do {
              max_contribution \<leftarrow> ab_biguint_to_u256 abi (cf_max_contribution fee);
              ret (Inr (fee_units, receiver, max_contribution, cf_deadline fee,
                        pad_signature (cf_signature fee)))
            })
          })"

text \<open>The arguments of the call in its layout, ABI-encoded.\<close>

definition method_calldata ::
  "abi_env \<Rightarrow> router_layout \<Rightarrow> sequential_args \<Rightarrow> nat \<Rightarrow> permit_single option \<Rightarrow> string \<Rightarrow> encoding_error + string" where
  "method_calldata abi layout args n_tokens permit permit2_sig =
     (case args of (amount_in, token_in, token_out, expected, minimum, receiver, fee, swaps) \<Rightarrow>
        (case layout of
           LSequential \<Rightarrow> Inr (ab_encode_sequential abi args)
         | LSplit \<Rightarrow>
             Inr (ab_encode_split abi
                    (amount_in, token_in, token_out, expected, minimum, n_tokens, receiver, fee, swaps))
         | LSequentialPermit2 \<Rightarrow>
             (case permit of
                None \<Rightarrow> Inl MissingPermit2
              | Some p \<Rightarrow> Inr (ab_encode_sequential_permit2 abi
                    (amount_in, token_in, token_out, expected, minimum, receiver, fee, p, permit2_sig, swaps)))
         | LSplitPermit2 \<Rightarrow>
             (case permit of
                None \<Rightarrow> Inl MissingPermit2
              | Some p \<Rightarrow> Inr (ab_encode_split_permit2 abi
                    (amount_in, token_in, token_out, expected, minimum, n_tokens, receiver, fee, p, permit2_sig,
                     swaps)))))"

definition call_target :: "address option \<Rightarrow> encoding_options \<Rightarrow> encoded_solution \<Rightarrow> address" where
  "call_target jit_router opts encoded =
     (case jit_router of
        Some jit \<Rightarrow> if eo_jit_router opts \<and> eo_transfer_type opts \<noteq> UseVaultsFunds then jit
                    else es_interacting_with encoded
      | None \<Rightarrow> es_interacting_with encoded)"

definition encode_tycho_router_call ::
  "abi_env \<Rightarrow> address option \<Rightarrow> encoded_solution \<Rightarrow> 's solution \<Rightarrow> encoding_options \<Rightarrow> fee_rates \<Rightarrow>
   (encoding_error + transaction) run" where
  "encode_tycho_router_call abi jit_router encoded solution opts rates =
     do {
       amount_in \<leftarrow> ab_biguint_to_u256 abi (sl_amount_in solution);
       expected \<leftarrow> ab_biguint_to_u256 abi (sl_expected_amount_out solution);
       minimum \<leftarrow> ab_biguint_to_u256 abi (sl_min_amount_out solution);
       or_return (ab_bytes_to_address abi (sl_token_in solution)) (\<lambda>raw_in.
       or_return (ab_bytes_to_address abi (sl_token_out solution)) (\<lambda>raw_out.
       or_return (ab_bytes_to_address abi (sl_receiver solution)) (\<lambda>receiver. do {
         let token_in = to_router_address abi raw_in;
         let token_out = to_router_address abi raw_out;
         permit_result \<leftarrow> permit_args abi opts;
         or_return permit_result (\<lambda>(permit, permit2_sig). do {
           fee_result \<leftarrow> client_fee_arg_of abi opts rates;
           or_return fee_result (\<lambda>fee.
             case router_layout_of (es_function_signature encoded) of
               None \<Rightarrow> ret (Inl (UnsupportedFunction (es_function_signature encoded)))
             | Some layout \<Rightarrow>
                 or_return (method_calldata abi layout
                     (amount_in, token_in, token_out, expected, minimum, receiver, fee, es_swaps encoded)
                     (es_n_tokens encoded) permit permit2_sig) (\<lambda>args.
                   ret (Inr \<lparr>tx_to = call_target jit_router opts encoded,
                             tx_value = (if token_in = ab_router_eth_address abi
                                         then sl_amount_in solution else 0),
                             tx_data = encode_input (ab_keccak256 abi) (es_function_signature encoded) args,
                             tx_client_fee_signature_offset =
                               (if eo_client_fee_params opts \<noteq> None
                                then Some (es_client_fee_signature_offset encoded) else None)\<rparr>)))
         })
       })))
     }"

subsection \<open>Reading a call back\<close>

record encoded_client_fee =
  ec_fee_units :: nat
  ec_receiver :: address
  ec_max_contribution :: biguint
  ec_deadline :: biguint
  ec_signature :: string

record router_call =
  ra_amount_in :: biguint
  ra_token_in :: address
  ra_token_out :: address
  ra_expected_amount_out :: biguint
  ra_min_amount_out :: biguint
  ra_receiver :: address
  ra_client_fee :: encoded_client_fee
  ra_swaps :: string

definition router_call_from_args :: "sequential_args \<Rightarrow> router_call" where
  "router_call_from_args args =
     (case args of (amount_in, token_in, token_out, expected, minimum, receiver,
                    (fee_units, fee_receiver, max_contribution, deadline, signature), swaps) \<Rightarrow>
        \<lparr>ra_amount_in = amount_in, ra_token_in = token_in, ra_token_out = token_out,
         ra_expected_amount_out = expected, ra_min_amount_out = minimum, ra_receiver = receiver,
         ra_client_fee = \<lparr>ec_fee_units = fee_units, ec_receiver = fee_receiver,
           ec_max_contribution = max_contribution, ec_deadline = deadline, ec_signature = signature\<rparr>,
         ra_swaps = swaps\<rparr>)"

text \<open>Each layout is read down to the sequential one.\<close>

definition decode_args :: "abi_env \<Rightarrow> router_layout \<Rightarrow> string \<Rightarrow> string + sequential_args" where
  "decode_args abi layout args =
     (case layout of
        LSequential \<Rightarrow> ab_decode_sequential abi args
      | LSplit \<Rightarrow>
          (case ab_decode_split abi args of
             Inl e \<Rightarrow> Inl e
           | Inr (amount_in, token_in, token_out, expected, minimum, _, receiver, fee, swaps) \<Rightarrow>
               Inr (amount_in, token_in, token_out, expected, minimum, receiver, fee, swaps))
      | LSequentialPermit2 \<Rightarrow>
          (case ab_decode_sequential_permit2 abi args of
             Inl e \<Rightarrow> Inl e
           | Inr (amount_in, token_in, token_out, expected, minimum, receiver, fee, _, _, swaps) \<Rightarrow>
               Inr (amount_in, token_in, token_out, expected, minimum, receiver, fee, swaps))
      | LSplitPermit2 \<Rightarrow>
          (case ab_decode_split_permit2 abi args of
             Inl e \<Rightarrow> Inl e
           | Inr (amount_in, token_in, token_out, expected, minimum, _, receiver, fee, _, _, swaps) \<Rightarrow>
               Inr (amount_in, token_in, token_out, expected, minimum, receiver, fee, swaps)))"

definition router_call_decode :: "abi_env \<Rightarrow> string \<Rightarrow> string \<Rightarrow> solve_error + router_call" where
  "router_call_decode abi function_signature calldata =
     (case router_layout_of function_signature of
        None \<Rightarrow> Inl (FailedEncoding (''the Tycho router has no function '' @ function_signature))
      | Some layout \<Rightarrow>
          let selector = take 4 (ab_keccak256 abi function_signature) in
          if take (length selector) calldata \<noteq> selector
          then Inl (FailedEncoding (''the calldata does not call '' @ function_signature))
          else
            (case decode_args abi layout (drop (length selector) calldata) of
               Inl e \<Rightarrow> Inl (FailedEncoding
                 (''cannot decode the arguments of '' @ function_signature @ '': '' @ e))
             | Inr args \<Rightarrow> Inr (router_call_from_args args)))"

subsection \<open>What the encoding relies on\<close>

definition abi_codec :: "('a \<Rightarrow> bool) \<Rightarrow> ('a \<Rightarrow> string) \<Rightarrow> (string \<Rightarrow> string + 'a) \<Rightarrow> bool" where
  "abi_codec valid enc dec \<longleftrightarrow>
     (\<forall>a tail. valid a \<longrightarrow>
        32 < length (enc a) \<and> take 32 (enc a) = offset_word \<and> dec (drop 32 (enc a) @ tail) = Inr a)"

definition valid_fee_arg :: "client_fee_arg \<Rightarrow> bool" where
  "valid_fee_arg fee =
     (case fee of (units, receiver, max_contribution, deadline, signature) \<Rightarrow>
        units < 2 ^ 32 \<and> length receiver = 20 \<and> max_contribution < 2 ^ 256 \<and> deadline < 2 ^ 256)"

definition valid_args :: "sequential_args \<Rightarrow> bool" where
  "valid_args args =
     (case args of (amount_in, token_in, token_out, expected, minimum, receiver, fee, swaps) \<Rightarrow>
        amount_in < 2 ^ 256 \<and> length token_in = 20 \<and> length token_out = 20 \<and> expected < 2 ^ 256
        \<and> minimum < 2 ^ 256 \<and> length receiver = 20 \<and> valid_fee_arg fee)"

definition valid_permit :: "permit_single \<Rightarrow> bool" where
  "valid_permit p =
     (length (pd_token (ps_details p)) = 20 \<and> pd_amount (ps_details p) < 2 ^ 160
      \<and> pd_expiration (ps_details p) < 2 ^ 48 \<and> pd_nonce (ps_details p) < 2 ^ 48
      \<and> length (ps_spender p) = 20 \<and> ps_sig_deadline p < 2 ^ 256)"

definition abi_law :: "abi_env \<Rightarrow> bool" where
  "abi_law abi \<longleftrightarrow>
     abi_codec valid_args (ab_encode_sequential abi) (ab_decode_sequential abi)
   \<and> abi_codec (\<lambda>(a, ti, to, e, m, n, r, f, s). n < 2 ^ 256 \<and> valid_args (a, ti, to, e, m, r, f, s))
       (ab_encode_split abi) (ab_decode_split abi)
   \<and> abi_codec (\<lambda>(a, ti, to, e, m, r, f, p, g, s). valid_permit p \<and> valid_args (a, ti, to, e, m, r, f, s))
       (ab_encode_sequential_permit2 abi) (ab_decode_sequential_permit2 abi)
   \<and> abi_codec (\<lambda>(a, ti, to, e, m, n, r, f, p, g, s).
         n < 2 ^ 256 \<and> valid_permit p \<and> valid_args (a, ti, to, e, m, r, f, s))
       (ab_encode_split_permit2 abi) (ab_decode_split_permit2 abi)
   \<and> (\<forall>s. length (ab_keccak256 abi s) = 32)
   \<and> (\<forall>n. ab_biguint_to_u256 abi n = (if n < 2 ^ 256 then ret n else panic))
   \<and> (\<forall>w n. ab_narrow abi w n = (if n < 2 ^ w then ret n else panic))
   \<and> (\<forall>b a. ab_bytes_to_address abi b = Inr a \<longrightarrow> a = b \<and> length a = 20)
   \<and> length (ab_router_eth_address abi) = 20"

subsection \<open>A call reads back as it was built\<close>

lemma abi_codecD:
  assumes "abi_codec valid enc dec" "valid a"
  shows "32 < length (enc a)" "take 32 (enc a) = offset_word" "dec (drop 32 (enc a) @ tail) = Inr a"
  using assms by (auto simp: abi_codec_def)

lemma abi_lawD:
  assumes "abi_law abi"
  shows "length (ab_keccak256 abi s) = 32"
    "ab_biguint_to_u256 abi n = ret m \<longleftrightarrow> m = n \<and> n < 2 ^ 256"
    "ab_narrow abi w n = ret m \<longleftrightarrow> m = n \<and> n < 2 ^ w"
    "ab_bytes_to_address abi b = Inr a \<Longrightarrow> a = b \<and> length a = 20"
    "length (ab_router_eth_address abi) = 20"
  using assms by (auto simp: abi_law_def)

lemma method_calldata_decode:
  assumes "abi_law abi" "method_calldata abi layout args n permit sig = Inr enc" "valid_args args"
    "n < 2 ^ 256" "\<And>p. permit = Some p \<Longrightarrow> valid_permit p"
  shows "32 < length enc \<and> take 32 enc = offset_word \<and> decode_args abi layout (drop 32 enc @ tail) = Inr args"
proof -
  obtain a ti to e m r f s where args: "args = (a, ti, to, e, m, r, f, s)"
    by (metis surj_pair)
  note codecs = assms(1) [unfolded abi_law_def]
  show ?thesis
  proof (cases layout)
    case LSequential
    have enc: "enc = ab_encode_sequential abi args"
      using assms(2) by (simp add: method_calldata_def LSequential args)
    have "abi_codec valid_args (ab_encode_sequential abi) (ab_decode_sequential abi)" using codecs by blast
    from abi_codecD [OF this assms(3)] show ?thesis by (simp add: enc LSequential decode_args_def)
  next
    case LSplit
    have enc: "enc = ab_encode_split abi (a, ti, to, e, m, n, r, f, s)"
      using assms(2) by (simp add: method_calldata_def LSplit args)
    have "abi_codec (\<lambda>(a, ti, to, e, m, n, r, f, s). n < 2 ^ 256 \<and> valid_args (a, ti, to, e, m, r, f, s))
       (ab_encode_split abi) (ab_decode_split abi)" using codecs by blast
    from abi_codecD [OF this, of "(a, ti, to, e, m, n, r, f, s)"] assms(3,4)
    show ?thesis by (simp add: enc LSplit decode_args_def args)
  next
    case LSequentialPermit2
    then obtain p where p: "permit = Some p" and
      enc: "enc = ab_encode_sequential_permit2 abi (a, ti, to, e, m, r, f, p, sig, s)"
      using assms(2) by (auto simp: method_calldata_def args split: option.splits)
    have "abi_codec (\<lambda>(a, ti, to, e, m, r, f, p, g, s). valid_permit p \<and> valid_args (a, ti, to, e, m, r, f, s))
       (ab_encode_sequential_permit2 abi) (ab_decode_sequential_permit2 abi)" using codecs by blast
    from abi_codecD [OF this, of "(a, ti, to, e, m, r, f, p, sig, s)"] assms(3) assms(5) [OF p]
    show ?thesis by (simp add: enc LSequentialPermit2 decode_args_def args)
  next
    case LSplitPermit2
    then obtain p where p: "permit = Some p" and
      enc: "enc = ab_encode_split_permit2 abi (a, ti, to, e, m, n, r, f, p, sig, s)"
      using assms(2) by (auto simp: method_calldata_def args split: option.splits)
    have "abi_codec (\<lambda>(a, ti, to, e, m, n, r, f, p, g, s).
         n < 2 ^ 256 \<and> valid_permit p \<and> valid_args (a, ti, to, e, m, r, f, s))
       (ab_encode_split_permit2 abi) (ab_decode_split_permit2 abi)" using codecs by blast
    from abi_codecD [OF this, of "(a, ti, to, e, m, n, r, f, p, sig, s)"] assms(3,4) assms(5) [OF p]
    show ?thesis by (simp add: enc LSplitPermit2 decode_args_def args)
  qed
qed

lemma permit_args_valid:
  assumes "abi_law abi" "permit_args abi opts = ret (Inr (Some p, sig))"
  shows "valid_permit p"
  using assms(2) abi_lawD [OF assms(1)]
  by (auto simp: permit_args_def valid_permit_def Let_def or_return_Inr_iff bind_eq_Some_conv
      split: option.splits)

lemma client_fee_arg_of_Inr:
  assumes "abi_law abi" "client_fee_arg_of abi opts rates = ret (Inr arg)"
    "\<And>f. eo_client_fee_params opts = Some f \<Longrightarrow> cf_deadline f < 2 ^ 64"
  shows "valid_fee_arg arg"
    "case eo_client_fee_params opts of
       None \<Rightarrow> arg = (0, replicate 20 (CHR 0x00), 0, 2 ^ 256 - 1, [])
     | Some f \<Rightarrow> \<exists>units. client_fee_units rates (cf_bps f) = ret units
         \<and> arg = (units, cf_receiver f, cf_max_contribution f, cf_deadline f, pad_signature (cf_signature f))"
proof -
  have *: "valid_fee_arg arg \<and> (case eo_client_fee_params opts of
       None \<Rightarrow> arg = (0, replicate 20 (CHR 0x00), 0, 2 ^ 256 - 1, [])
     | Some f \<Rightarrow> \<exists>units. client_fee_units rates (cf_bps f) = ret units
         \<and> arg = (units, cf_receiver f, cf_max_contribution f, cf_deadline f, pad_signature (cf_signature f)))"
  proof (cases "eo_client_fee_params opts")
    case None
    then show ?thesis using assms(2) by (auto simp: client_fee_arg_of_def valid_fee_arg_def)
  next
    case (Some f)
    have "cf_deadline f < 2 ^ 256" using assms(3) [OF Some] by simp
    then show ?thesis
      using assms(2) abi_lawD [OF assms(1)] Some
      by (auto simp: client_fee_arg_of_def valid_fee_arg_def or_return_Inr_iff bind_eq_Some_conv
          split: if_splits)
  qed
  then show "valid_fee_arg arg" by blast
  show "case eo_client_fee_params opts of
       None \<Rightarrow> arg = (0, replicate 20 (CHR 0x00), 0, 2 ^ 256 - 1, [])
     | Some f \<Rightarrow> \<exists>units. client_fee_units rates (cf_bps f) = ret units
         \<and> arg = (units, cf_receiver f, cf_max_contribution f, cf_deadline f, pad_signature (cf_signature f))"
    using * by blast
qed

lemma encode_input_decode:
  assumes "abi_law abi" "router_layout_of sig = Some layout" "32 < length enc" "take 32 enc = offset_word"
    "decode_args abi layout (drop 32 enc @ tail) = Inr args"
  shows "router_call_decode abi sig (encode_input (ab_keccak256 abi) sig enc @ tail)
    = Inr (router_call_from_args args)"
  using assms abi_lawD(1) [OF assms(1), of sig]
  by (simp add: router_call_decode_def encode_input_def Let_def)

lemma encoded_call_steps:
  assumes "encode_tycho_router_call abi jit encoded solution opts rates = ret (Inr tx)" "abi_law abi"
    and "\<And>f. eo_client_fee_params opts = Some f \<Longrightarrow> cf_deadline f < 2 ^ 64"
    and "es_n_tokens encoded < 2 ^ 64"
  shows "\<exists>fee. client_fee_arg_of abi opts rates = ret (Inr fee)
    \<and> router_call_decode abi (es_function_signature encoded) (tx_data tx @ tail) = Inr (router_call_from_args
        (sl_amount_in solution, to_router_address abi (sl_token_in solution),
         to_router_address abi (sl_token_out solution), sl_expected_amount_out solution,
         sl_min_amount_out solution, sl_receiver solution, fee, es_swaps encoded))
    \<and> tx_to tx = call_target jit opts encoded
    \<and> tx_value tx = (if to_router_address abi (sl_token_in solution) = ab_router_eth_address abi
                     then sl_amount_in solution else 0)"
proof -
  note law = abi_lawD [OF assms(2)]
  obtain raw_in raw_out receiver permit sig fee layout enc where
    v: "sl_amount_in solution < 2 ^ 256" "sl_expected_amount_out solution < 2 ^ 256"
      "sl_min_amount_out solution < 2 ^ 256"
    and a: "ab_bytes_to_address abi (sl_token_in solution) = Inr raw_in"
      "ab_bytes_to_address abi (sl_token_out solution) = Inr raw_out"
      "ab_bytes_to_address abi (sl_receiver solution) = Inr receiver"
    and p: "permit_args abi opts = ret (Inr (permit, sig))"
    and f: "client_fee_arg_of abi opts rates = ret (Inr fee)"
    and l: "router_layout_of (es_function_signature encoded) = Some layout"
    and m: "method_calldata abi layout (sl_amount_in solution, to_router_address abi raw_in,
        to_router_address abi raw_out, sl_expected_amount_out solution, sl_min_amount_out solution,
        receiver, fee, es_swaps encoded) (es_n_tokens encoded) permit sig = Inr enc"
    and tx: "tx = \<lparr>tx_to = call_target jit opts encoded,
        tx_value = (if to_router_address abi raw_in = ab_router_eth_address abi then sl_amount_in solution else 0),
        tx_data = encode_input (ab_keccak256 abi) (es_function_signature encoded) enc,
        tx_client_fee_signature_offset = (if eo_client_fee_params opts \<noteq> None
          then Some (es_client_fee_signature_offset encoded) else None)\<rparr>"
    using assms(1) unfolding encode_tycho_router_call_def Let_def
    by (auto simp: bind_eq_Some_conv or_return_Inr_iff law split: option.splits)
  have addr: "raw_in = sl_token_in solution" "raw_out = sl_token_out solution" "receiver = sl_receiver solution"
    "length raw_in = 20" "length raw_out = 20" "length receiver = 20"
    using a law(4) by blast+
  define args where "args = (sl_amount_in solution, to_router_address abi raw_in, to_router_address abi raw_out,
    sl_expected_amount_out solution, sl_min_amount_out solution, receiver, fee, es_swaps encoded)"
  note fee = client_fee_arg_of_Inr [OF assms(2) f assms(3)]
  have "valid_args args"
    using v addr law(5) fee(1) by (simp add: args_def valid_args_def to_router_address_def)
  moreover have "es_n_tokens encoded < 2 ^ 256" using assms(4) by simp
  moreover have "valid_permit x" if "permit = Some x" for x
    using permit_args_valid [OF assms(2)] p that by blast
  ultimately have "32 < length enc \<and> take 32 enc = offset_word \<and> decode_args abi layout (drop 32 enc @ tail) = Inr args"
    by (rule method_calldata_decode [OF assms(2) m [folded args_def]])
  then have d: "router_call_decode abi (es_function_signature encoded) (tx_data tx @ tail)
      = Inr (router_call_from_args args)"
    using encode_input_decode [OF assms(2) l] by (simp add: tx)
  show ?thesis
    using f d addr by (simp add: args_def tx)
qed

lemma encoded_call_decodes:
  assumes "encode_tycho_router_call abi jit encoded solution opts rates = ret (Inr tx)" "abi_law abi"
    and "\<And>f. eo_client_fee_params opts = Some f \<Longrightarrow> cf_deadline f < 2 ^ 64"
    and "es_n_tokens encoded < 2 ^ 64"
  shows "\<exists>call. router_call_decode abi (es_function_signature encoded) (tx_data tx) = Inr call"
  using encoded_call_steps [OF assms, of "[]"] by auto

text \<open>C4: the transaction built for a solution reads back, whatever bytes follow its arguments: the
  amounts, tokens, receiver and swaps of the solution, with the native token replaced by the
  router's address for it, and the client fee of the request, its signature padded to at least 65
  bytes. The transaction carries the input amount as value exactly when the router reads the input
  as the native token, and goes to the JIT router only when one is configured, the request asks
  for it and the swap is not paid from vault funds.\<close>

theorem router_call_round_trip:
  assumes "encode_tycho_router_call abi jit encoded solution opts rates = ret (Inr tx)" "abi_law abi"
    and "\<And>f. eo_client_fee_params opts = Some f \<Longrightarrow> cf_deadline f < 2 ^ 64"
    and "es_n_tokens encoded < 2 ^ 64"
  shows "\<exists>call. router_call_decode abi (es_function_signature encoded) (tx_data tx @ tail) = Inr call
    \<and> ra_amount_in call = sl_amount_in solution
    \<and> ra_expected_amount_out call = sl_expected_amount_out solution
    \<and> ra_min_amount_out call = sl_min_amount_out solution
    \<and> ra_receiver call = sl_receiver solution
    \<and> ra_token_in call = to_router_address abi (sl_token_in solution)
    \<and> ra_token_out call = to_router_address abi (sl_token_out solution)
    \<and> ra_swaps call = es_swaps encoded
    \<and> (case eo_client_fee_params opts of
         None \<Rightarrow> ec_fee_units (ra_client_fee call) = 0
       | Some f \<Rightarrow> client_fee_units rates (cf_bps f) = ret (ec_fee_units (ra_client_fee call))
           \<and> ec_receiver (ra_client_fee call) = cf_receiver f
           \<and> ec_deadline (ra_client_fee call) = cf_deadline f
           \<and> prefix (cf_signature f) (ec_signature (ra_client_fee call))
           \<and> 65 \<le> length (ec_signature (ra_client_fee call)))
    \<and> tx_value tx = (if ra_token_in call = ab_router_eth_address abi then sl_amount_in solution else 0)
    \<and> (tx_to tx = es_interacting_with encoded
       \<or> jit = Some (tx_to tx) \<and> eo_jit_router opts \<and> eo_transfer_type opts \<noteq> UseVaultsFunds)"
proof -
  obtain fee where fee: "client_fee_arg_of abi opts rates = ret (Inr fee)"
    and call: "router_call_decode abi (es_function_signature encoded) (tx_data tx @ tail) = Inr (router_call_from_args
        (sl_amount_in solution, to_router_address abi (sl_token_in solution),
         to_router_address abi (sl_token_out solution), sl_expected_amount_out solution,
         sl_min_amount_out solution, sl_receiver solution, fee, es_swaps encoded))"
    and tx: "tx_to tx = call_target jit opts encoded"
      "tx_value tx = (if to_router_address abi (sl_token_in solution) = ab_router_eth_address abi
                      then sl_amount_in solution else 0)"
    using encoded_call_steps [OF assms] by blast
  have pad: "prefix x (pad_signature x)" "65 \<le> length (pad_signature x)" for x
    by (auto simp: pad_signature_def)
  show ?thesis
    unfolding call using client_fee_arg_of_Inr(2) [OF assms(2) fee assms(3)] pad
    by (auto simp: router_call_from_args_def tx call_target_def split: option.splits)
qed

subsection \<open>A coding that satisfies the law\<close>

text \<open>Each field is a string preceded by its length in unary, a number by its 32 bytes.\<close>

definition example_field :: "string \<Rightarrow> string" where
  "example_field f = replicate (length f) (CHR 0x01) @ [CHR 0x00] @ f"

fun read_fields :: "nat \<Rightarrow> string \<Rightarrow> string list" where
  "read_fields 0 x = []"
| "read_fields (Suc k) x =
     (let n = length (takeWhile (\<lambda>c. c = CHR 0x01) x)
      in take n (drop (Suc n) x) # read_fields k (drop (Suc n + n) x))"

definition example_encode :: "string list \<Rightarrow> string" where
  "example_encode fs = offset_word @ concat (map example_field fs)"

definition fee_fields :: "client_fee_arg \<Rightarrow> string list" where
  "fee_fields fee = (case fee of (u, r, c, d, s) \<Rightarrow> [be_bytes 32 u, r, be_bytes 32 c, be_bytes 32 d, s])"

definition args_fields :: "sequential_args \<Rightarrow> string list" where
  "args_fields args = (case args of (a, ti, to, e, m, r, f, s) \<Rightarrow>
     [be_bytes 32 a, ti, to, be_bytes 32 e, be_bytes 32 m, r, s] @ fee_fields f)"

definition read_args :: "string list \<Rightarrow> sequential_args" where
  "read_args fs = (be_nat (fs ! 0), fs ! 1, fs ! 2, be_nat (fs ! 3), be_nat (fs ! 4), fs ! 5,
     (be_nat (fs ! 7), fs ! 8, be_nat (fs ! 9), be_nat (fs ! 10), fs ! 11), fs ! 6)"

definition permit_fields :: "permit_single \<Rightarrow> string list" where
  "permit_fields p = (let d = ps_details p in
     [pd_token d, be_bytes 32 (pd_amount d), be_bytes 32 (pd_expiration d), be_bytes 32 (pd_nonce d),
      ps_spender p, be_bytes 32 (ps_sig_deadline p)])"

definition read_permit :: "string list \<Rightarrow> permit_single" where
  "read_permit fs =
     \<lparr>ps_details = \<lparr>pd_token = fs ! 0, pd_amount = be_nat (fs ! 1), pd_expiration = be_nat (fs ! 2),
                    pd_nonce = be_nat (fs ! 3)\<rparr>,
      ps_spender = fs ! 4, ps_sig_deadline = be_nat (fs ! 5)\<rparr>"

definition with_tokens :: "sequential_args \<Rightarrow> nat \<Rightarrow> split_args" where
  "with_tokens args n = (case args of (a, ti, to, e, m, r, f, s) \<Rightarrow> (a, ti, to, e, m, n, r, f, s))"

definition with_permit :: "sequential_args \<Rightarrow> permit_single \<Rightarrow> string \<Rightarrow> sequential_permit2_args" where
  "with_permit args p g = (case args of (a, ti, to, e, m, r, f, s) \<Rightarrow> (a, ti, to, e, m, r, f, p, g, s))"

definition example_abi :: abi_env where
  "example_abi =
     \<lparr>ab_encode_sequential = (\<lambda>args. example_encode (args_fields args)),
      ab_decode_sequential = (\<lambda>x. Inr (read_args (read_fields 12 x))),
      ab_encode_split = (\<lambda>(a, ti, to, e, m, n, r, f, s).
        example_encode (args_fields (a, ti, to, e, m, r, f, s) @ [be_bytes 32 n])),
      ab_decode_split = (\<lambda>x. let fs = read_fields 13 x in Inr (with_tokens (read_args fs) (be_nat (fs ! 12)))),
      ab_encode_sequential_permit2 = (\<lambda>(a, ti, to, e, m, r, f, p, g, s).
        example_encode (args_fields (a, ti, to, e, m, r, f, s) @ g # permit_fields p)),
      ab_decode_sequential_permit2 = (\<lambda>x. let fs = read_fields 19 x in
        Inr (with_permit (read_args fs) (read_permit (drop 13 fs)) (fs ! 12))),
      ab_encode_split_permit2 = (\<lambda>(a, ti, to, e, m, n, r, f, p, g, s).
        example_encode (args_fields (a, ti, to, e, m, r, f, s) @ g # be_bytes 32 n # permit_fields p)),
      ab_decode_split_permit2 = (\<lambda>x. let fs = read_fields 20 x in
        case read_args fs of (a, ti, to, e, m, r, f, s) \<Rightarrow>
          Inr (a, ti, to, e, m, be_nat (fs ! 13), r, f, read_permit (drop 14 fs), fs ! 12, s)),
      ab_keccak256 = (\<lambda>s. take 32 (s @ replicate 32 (CHR 0x00))),
      ab_biguint_to_u256 = (\<lambda>n. if n < 2 ^ 256 then ret n else panic),
      ab_narrow = (\<lambda>w n. if n < 2 ^ w then ret n else panic),
      ab_bytes_to_address = (\<lambda>b. if length b = 20 then Inr b else Inl (TychoError ''address'')),
      ab_native_address = replicate 20 (CHR 0x00), ab_router_eth_address = replicate 20 (CHR 0xEE)\<rparr>"

lemma takeWhile_ones:
  "takeWhile (\<lambda>c. c = CHR 0x01) (replicate n (CHR 0x01) @ CHR 0x00 # r) = replicate n (CHR 0x01)"
  by (induction n) simp_all

lemma read_example_field:
  "read_fields (Suc k) (example_field f @ x) = f # read_fields k x"
  by (simp add: example_field_def Let_def takeWhile_ones)

lemma read_example_encode:
  "read_fields (length fs) (drop 32 (example_encode fs) @ tail) = fs"
proof -
  have "read_fields (length fs) (concat (map example_field fs) @ tail) = fs"
    by (induction fs) (simp_all add: read_example_field del: read_fields.simps(2))
  then show ?thesis by (simp add: example_encode_def offset_word_def)
qed

lemma example_codec:
  assumes "\<And>a. valid a \<Longrightarrow> flat a \<noteq> [] \<and> dec (flat a) = a \<and> length (flat a) = k"
  shows "abi_codec valid (\<lambda>a. example_encode (flat a)) (\<lambda>x. Inr (dec (read_fields k x)))"
proof -
  have "32 < length (example_encode fs) \<and> take 32 (example_encode fs) = offset_word" if "fs \<noteq> []" for fs
    using that by (cases fs) (auto simp: example_encode_def offset_word_def example_field_def)
  then show ?thesis using assms read_example_encode unfolding abi_codec_def by metis
qed

lemma be_bytes32: "n < 2 ^ 256 \<Longrightarrow> be_nat (be_bytes 32 n) = n"
  by simp

lemma read_args_fields: "valid_args args \<Longrightarrow> read_args (args_fields args @ rest) = args"
  by (auto simp: read_args_def args_fields_def fee_fields_def valid_args_def valid_fee_arg_def be_bytes32
      simp del: be_nat_be_bytes split: prod.splits)

lemma length_args_fields [simp]: "length (args_fields args) = 12"
  by (simp add: args_fields_def fee_fields_def split: prod.splits)

lemma read_permit_fields: "valid_permit p \<Longrightarrow> read_permit (permit_fields p) = p"
proof -
  assume v: "valid_permit p"
  then have "pd_amount (ps_details p) < 2 ^ 256" "pd_expiration (ps_details p) < 2 ^ 256"
    "pd_nonce (ps_details p) < 2 ^ 256" "ps_sig_deadline p < 2 ^ 256"
    by (auto simp: valid_permit_def)
  then show ?thesis
    by (simp add: read_permit_def permit_fields_def Let_def be_bytes32 del: be_nat_be_bytes)
qed

lemma length_permit_fields [simp]: "length (permit_fields p) = 6"
  by (simp add: permit_fields_def Let_def)

lemma example_sequential:
  "abi_codec valid_args (ab_encode_sequential example_abi) (ab_decode_sequential example_abi)"
proof -
  have "args_fields x \<noteq> [] \<and> read_args (args_fields x) = x \<and> length (args_fields x) = 12"
    if "valid_args x" for x
    using read_args_fields [OF that, of "[]"] length_args_fields [of x]
    by (metis append_Nil2 length_0_conv zero_neq_numeral)
  from example_codec [OF this] show ?thesis by (simp add: example_abi_def)
qed

lemma example_split:
  "abi_codec (\<lambda>(a, ti, to, e, m, n, r, f, s). n < 2 ^ 256 \<and> valid_args (a, ti, to, e, m, r, f, s))
     (ab_encode_split example_abi) (ab_decode_split example_abi)"
proof -
  let ?flat = "\<lambda>(a, ti, to, e, m, n, r, f, s). args_fields (a, ti, to, e, m, r, f, s) @ [be_bytes 32 n]"
  let ?dec = "\<lambda>fs. with_tokens (read_args fs) (be_nat (fs ! 12))"
  have "?flat x \<noteq> [] \<and> ?dec (?flat x) = x \<and> length (?flat x) = 13"
    if "(\<lambda>(a, ti, to, e, m, n, r, f, s). n < 2 ^ 256 \<and> valid_args (a, ti, to, e, m, r, f, s)) x" for x
    using that read_args_fields
    by (auto simp: with_tokens_def nth_append be_bytes32 simp del: be_nat_be_bytes split: prod.splits)
  from example_codec [OF this] show ?thesis
    by (simp add: example_abi_def Let_def case_prod_unfold)
qed

lemma example_sequential_permit2:
  "abi_codec (\<lambda>(a, ti, to, e, m, r, f, p, g, s). valid_permit p \<and> valid_args (a, ti, to, e, m, r, f, s))
     (ab_encode_sequential_permit2 example_abi) (ab_decode_sequential_permit2 example_abi)"
proof -
  let ?flat = "\<lambda>(a, ti, to, e, m, r, f, p, g, s). args_fields (a, ti, to, e, m, r, f, s) @ g # permit_fields p"
  let ?dec = "\<lambda>fs. with_permit (read_args fs) (read_permit (drop 13 fs)) (fs ! 12)"
  have "?flat x \<noteq> [] \<and> ?dec (?flat x) = x \<and> length (?flat x) = 19"
    if "(\<lambda>(a, ti, to, e, m, r, f, p, g, s). valid_permit p \<and> valid_args (a, ti, to, e, m, r, f, s)) x" for x
    using that read_args_fields
    by (auto simp: with_permit_def nth_append read_permit_fields split: prod.splits)
  from example_codec [OF this] show ?thesis
    by (simp add: example_abi_def Let_def case_prod_unfold)
qed

lemma example_split_permit2:
  "abi_codec (\<lambda>(a, ti, to, e, m, n, r, f, p, g, s).
       n < 2 ^ 256 \<and> valid_permit p \<and> valid_args (a, ti, to, e, m, r, f, s))
     (ab_encode_split_permit2 example_abi) (ab_decode_split_permit2 example_abi)"
proof -
  let ?flat = "\<lambda>(a, ti, to, e, m, n, r, f, p, g, s).
    args_fields (a, ti, to, e, m, r, f, s) @ g # be_bytes 32 n # permit_fields p"
  let ?dec = "\<lambda>fs. case read_args fs of (a, ti, to, e, m, r, f, s) \<Rightarrow>
    (a, ti, to, e, m, be_nat (fs ! 13), r, f, read_permit (drop 14 fs), fs ! 12, s)"
  have "?flat x \<noteq> [] \<and> ?dec (?flat x) = x \<and> length (?flat x) = 20"
    if "(\<lambda>(a, ti, to, e, m, n, r, f, p, g, s).
       n < 2 ^ 256 \<and> valid_permit p \<and> valid_args (a, ti, to, e, m, r, f, s)) x" for x
    using that read_args_fields
    by (auto simp: nth_append read_permit_fields be_bytes32 simp del: be_nat_be_bytes split: prod.splits)
  from example_codec [OF this] show ?thesis
    by (simp add: example_abi_def Let_def case_prod_unfold)
qed

definition example_solution :: "unit solution" where
  "example_solution =
     \<lparr>sl_sender = replicate 20 (CHR 0x01), sl_receiver = replicate 20 (CHR 0x02),
      sl_token_in = replicate 20 (CHR 0x00), sl_token_out = replicate 20 (CHR 0x03), sl_amount_in = 5,
      sl_expected_amount_out = 4, sl_min_amount_out = 3, sl_swaps = [], sl_origin = [], sl_subsidy = None,
      sl_user_transfer_type = TransferFrom\<rparr>"

definition example_encoded :: encoded_solution where
  "example_encoded =
     \<lparr>es_function_signature = ''singleSwap'', es_swaps = ''w'', es_estimated_gas = 90,
      es_interacting_with = ''router'', es_n_tokens = 2, es_client_fee_signature_offset = 0\<rparr>"

lemma example_abi_law: "abi_law example_abi"
  unfolding abi_law_def
  using example_sequential example_split example_sequential_permit2 example_split_permit2
  by (intro conjI) (auto simp: example_abi_def min_def)

lemma example_abi_simps [simp]:
  "ab_biguint_to_u256 example_abi n = (if n < 2 ^ 256 then ret n else panic)"
  "ab_bytes_to_address example_abi b = (if length b = 20 then Inr b else Inl (TychoError ''address''))"
  by (simp_all add: example_abi_def)

lemma layout_single_swap [simp]: "router_layout_of ''singleSwap'' = Some LSequential"
  by code_simp

theorem router_call_round_trip_witness:
  "\<exists>tx call. encode_tycho_router_call example_abi (Some ''jit'') example_encoded example_solution
       (encoding_options_new (Finite 0)\<lparr>eo_jit_router := True\<rparr>) (fees_for router_fees_fallback ''c'')
     = ret (Inr tx) \<and> router_call_decode example_abi ''singleSwap'' (tx_data tx @ ''fynd'') = Inr call
     \<and> ra_amount_in call = 5 \<and> tx_to tx = ''jit''"
proof -
  let ?o = "encoding_options_new (Finite 0)\<lparr>eo_jit_router := True\<rparr>"
  let ?e = "encode_tycho_router_call example_abi (Some ''jit'') example_encoded example_solution ?o
    (fees_for router_fees_fallback ''c'')"
  have "\<exists>tx. ?e = ret (Inr tx) \<and> tx_to tx = ''jit''"
    by (simp add: encode_tycho_router_call_def example_solution_def example_encoded_def
        permit_args_def client_fee_arg_of_def encoding_options_new_def method_calldata_def call_target_def
        Let_def)
  then obtain tx where tx: "?e = ret (Inr tx)" "tx_to tx = ''jit''" by blast
  have "\<And>f. eo_client_fee_params ?o = Some f \<Longrightarrow> cf_deadline f < 2 ^ 64" "es_n_tokens example_encoded < 2 ^ 64"
    by (simp_all add: encoding_options_new_def example_encoded_def)
  from router_call_round_trip [OF tx(1) example_abi_law this, of "''fynd''"] tx show ?thesis
    by (auto simp: example_encoded_def example_solution_def)
qed

end
