(* ===== verification/FallbackData.thy ===== *)
theory FallbackData
  imports Quotes Bytes
begin

text \<open>
  The fallback pool a pAMM leg names for the fallback router:
  \<open>src/fynd-core/src/fallback/user_data.rs\<close>.

  \<open>fallback_env\<close> holds what other crates answer: the protocol of a protocol system, the chains
  that run it, the address that a component id spells, the coins attribute as JSON, the fee of a pool state and the JSON
  form of the result. \<open>fallback_swap_data\<close> and \<open>fallback_protocol_kind\<close> are the enums of the
  encoder crate that the code builds and matches on.
\<close>

datatype fallback_protocol_kind = UniswapV2 | UniswapV3 | UniswapV4 | Curve | FluidV1 | AerodromeV1

datatype fallback_swap_data =
    UniswapV2Data (fs_pool: address) (fs_fee_bps: nat)
  | UniswapV3Data (fs_pool: address)
  | UniswapV4Data (fs_fee: nat) (fs_tick_spacing: int) (fs_hook: string) (fs_hook_data: string)
  | CurveData (fs_pool: address) (fs_pool_type: nat) (fs_i: nat) (fs_j: nat)
  | FluidV1Data (fs_pool: address) (fs_zero2one: bool)
  | AerodromeV1Data (fs_pool: address)

record 's fallback_env =
  fe_from_protocol_system :: "string \<Rightarrow> fallback_protocol_kind option"
  fe_supported_on :: "fallback_protocol_kind \<Rightarrow> string \<Rightarrow> bool"
  fe_parse_address :: "string \<Rightarrow> address option"
  fe_parse_coins :: "string \<Rightarrow> address list option"
  fe_fee :: "'s \<Rightarrow> f64"
  fe_json :: "fallback_swap_data \<Rightarrow> string + string"

text \<open>\<open>FallbackError::MissingPoolData\<close>: the component and the reason.\<close>

datatype missing_pool_data = MissingPoolData component_id string

definition max_uniswap_v2_fee_bps :: nat where
  "max_uniswap_v2_fee_bps = 30"

definition attribute_u32 :: "protocol_component \<Rightarrow> string \<Rightarrow> missing_pool_data + nat" where
  "attribute_u32 c name =
     (case pc_static_attributes c name of
        None \<Rightarrow> Inl (MissingPoolData (pc_id c) (''has no '' @ name @ '' static attribute''))
      | Some bytes \<Rightarrow>
          if 4 < length bytes
          then Inl (MissingPoolData (pc_id c) (name @ '' is wider than four bytes''))
          else Inr (fold (\<lambda>byte v. (v * 2 ^ 8) mod 2 ^ 32 + of_char byte) bytes 0))"

definition pool_address :: "'s fallback_env \<Rightarrow> protocol_component \<Rightarrow> missing_pool_data + address" where
  "pool_address env c =
     (case fe_parse_address env (pc_id c) of
        Some a \<Rightarrow> Inr a
      | None \<Rightarrow> Inl (MissingPoolData (pc_id c) (''component id '' @ pc_id c @ '' is not an address'')))"

definition coin_index :: "address list \<Rightarrow> address \<Rightarrow> nat option" where
  "coin_index coins token =
     (case position (\<lambda>coin. coin = token) coins of
        Some i \<Rightarrow> if i < 2 ^ 8 then Some i else None
      | None \<Rightarrow> None)"

definition curve_coins :: "'s fallback_env \<Rightarrow> protocol_component \<Rightarrow> address list" where
  "curve_coins env c =
     (case Option.bind (pc_static_attributes c ''coins'') (fe_parse_coins env) of
        Some coins \<Rightarrow> coins
      | None \<Rightarrow> pc_tokens c)"

definition curve_fallback ::
  "'s fallback_env \<Rightarrow> protocol_component \<Rightarrow> address \<Rightarrow> address \<Rightarrow> address \<Rightarrow>
   missing_pool_data + fallback_swap_data" where
  "curve_fallback env c pool token_in token_out =
     (case attribute_u32 c ''pool_type'' of
        Inl e \<Rightarrow> Inl e
      | Inr t \<Rightarrow>
          if \<not> t < 2 ^ 8 then Inl (MissingPoolData (pc_id c) ''pool type does not fit a byte'')
          else
            let coins = curve_coins env c in
            (case (coin_index coins token_in, coin_index coins token_out) of
               (Some i, Some j) \<Rightarrow> Inr (CurveData pool t i j)
             | _ \<Rightarrow> Inl (MissingPoolData (pc_id c) ''coins do not name both tokens of the pair'')))"

definition uniswap_v4_fallback :: "protocol_component \<Rightarrow> missing_pool_data + fallback_swap_data" where
  "uniswap_v4_fallback c =
     (case attribute_u32 c ''key_lp_fee'' of
        Inl e \<Rightarrow> Inl e
      | Inr fee \<Rightarrow>
        (case attribute_u32 c ''tick_spacing'' of
           Inl e \<Rightarrow> Inl e
         | Inr t \<Rightarrow>
             if t < 2 ^ 31 then Inr (UniswapV4Data fee (int t) [] [])
             else Inl (MissingPoolData (pc_id c) ''tick spacing does not fit int24'')))"

definition uniswap_v2_fee_bps :: "'s fallback_env \<Rightarrow> protocol_component \<Rightarrow> 's \<Rightarrow> missing_pool_data + nat" where
  "uniswap_v2_fee_bps env c st =
     (let fee_bps = f64_round (f64_mul (fe_fee env st) (Finite 10000)) in
      if f64_less fee_bps (Finite 0) \<or> f64_less (Finite (of_nat max_uniswap_v2_fee_bps)) fee_bps
      then Inl (MissingPoolData (pc_id c) ''charges more than the fallback router accepts'')
      else Inr (f64_to_uint 8 fee_bps))"

definition fallback_protocol ::
  "'s fallback_env \<Rightarrow> protocol_component \<Rightarrow> 's \<Rightarrow> address \<Rightarrow> address \<Rightarrow>
   missing_pool_data + fallback_swap_data" where
  "fallback_protocol env c st token_in token_out =
     (case fe_from_protocol_system env (pc_protocol_system c) of
        None \<Rightarrow> Inl (MissingPoolData (pc_id c) (pc_protocol_system c @ '' is not a fallback protocol''))
      | Some protocol \<Rightarrow>
        (case pool_address env c of
           Inl e \<Rightarrow> Inl e
         | Inr pool \<Rightarrow>
           (case protocol of
              UniswapV2 \<Rightarrow>
                (case uniswap_v2_fee_bps env c st of Inl e \<Rightarrow> Inl e | Inr fee \<Rightarrow> Inr (UniswapV2Data pool fee))
            | UniswapV3 \<Rightarrow> Inr (UniswapV3Data pool)
            | UniswapV4 \<Rightarrow> uniswap_v4_fallback c
            | Curve \<Rightarrow> curve_fallback env c pool token_in token_out
            | FluidV1 \<Rightarrow>
                Inr (FluidV1Data pool (case pc_tokens c of [] \<Rightarrow> False | t # _ \<Rightarrow> t = token_in))
            | AerodromeV1 \<Rightarrow> Inr (AerodromeV1Data pool))))"

definition fallback_user_data ::
  "'s fallback_env \<Rightarrow> 's fallback_leg \<Rightarrow> address \<Rightarrow> address \<Rightarrow> missing_pool_data + string" where
  "fallback_user_data env leg token_in token_out =
     (let c = fl_protocol_component leg in
      case fallback_protocol env c (fl_protocol_state leg) token_in token_out of
        Inl e \<Rightarrow> Inl e
      | Inr protocol \<Rightarrow>
          (case fe_json env protocol of
             Inl reason \<Rightarrow> Inl (MissingPoolData (pc_id c) reason)
           | Inr json \<Rightarrow> Inr json))"

subsection \<open>Fields fit the router\<close>

lemma fold_shift_be_nat:
  assumes "length bytes \<le> 4"
  shows "fold (\<lambda>byte v. (v * 2 ^ 8) mod 2 ^ 32 + of_char byte) bytes 0 = be_nat bytes"
  using assms
proof (induction bytes rule: rev_induct)
  case (snoc b bytes)
  have "be_nat bytes < 256 ^ length bytes" by (rule be_nat_less)
  also have "(256::nat) ^ length bytes \<le> 256 ^ 3" using snoc.prems by (intro power_increasing) simp_all
  finally have "be_nat bytes * 2 ^ 8 < 2 ^ 32" by simp
  then show ?case using snoc by simp
qed simp

lemma attribute_u32_Inr:
  assumes "attribute_u32 c name = Inr n"
  shows "\<exists>bytes. pc_static_attributes c name = Some bytes \<and> length bytes \<le> 4 \<and> n = be_nat bytes"
  using assms fold_shift_be_nat by (auto simp: attribute_u32_def split: option.splits if_splits)

lemma coin_index_Some:
  "coin_index coins token = Some i \<Longrightarrow> i < length coins \<and> coins ! i = token \<and> i < 256"
  by (auto simp: coin_index_def split: option.splits if_splits dest: position_Some)

lemma uniswap_v2_fee_bps_Inr:
  assumes "uniswap_v2_fee_bps env c st = Inr fee"
  shows "fee \<le> max_uniswap_v2_fee_bps"
proof -
  let ?x = "f64_round (f64_mul (fe_fee env st) (Finite 10000))"
  have "\<not> f64_less (Finite (of_nat max_uniswap_v2_fee_bps)) ?x" "fee = f64_to_uint 8 ?x"
    using assms by (auto simp: uniswap_v2_fee_bps_def Let_def split: if_splits)
  then show ?thesis
    using f64_to_uint_bound [of ?x max_uniswap_v2_fee_bps 8] by (cases ?x) (auto simp: f64_le_def not_less le_less)
qed


definition example_fallback_env :: "unit fallback_env" where
  "example_fallback_env =
     \<lparr>fe_from_protocol_system = (\<lambda>s. if s = ''vm:curve'' then Some Curve else Some UniswapV3),
      fe_supported_on = (\<lambda>_ _. True), fe_parse_address = (\<lambda>s. Some s), fe_parse_coins = (\<lambda>s. None), fe_fee = (\<lambda>s. Finite (3 / 1000)),
      fe_json = (\<lambda>d. Inr ''{}'')\<rparr>"

definition example_curve_component :: protocol_component where
  "example_curve_component =
     example_component\<lparr>pc_protocol_system := ''vm:curve'', pc_static_attributes := [''pool_type'' \<mapsto> [CHR 0x01]]\<rparr>"


text \<open>A tick spacing is refused only when it does not fit a signed 32-bit integer, although the
  refusal names the 24-bit width of the router's field.\<close>

lemma tick_spacing_above_int24:
  "uniswap_v4_fallback (example_component\<lparr>pc_static_attributes :=
       [''key_lp_fee'' \<mapsto> [CHR 0x01], ''tick_spacing'' \<mapsto> [CHR 0x01, CHR 0x00, CHR 0x00, CHR 0x00]]\<rparr>)
   = Inr (UniswapV4Data 1 (2 ^ 24) [] [])"
  by (simp add: uniswap_v4_fallback_def attribute_u32_def)

end
