(* ===== verification/Signing.thy ===== *)
theory Signing
  imports Exclusive Bytes "HOL-Library.Word"
begin

text \<open>
  The signed payload of an exclusive leg: \<open>src/fynd-core/src/encoding/exclusive_swap.rs\<close>.

  \<open>exclusive_swap_signer\<close> is the signer with its nonce counter, a state that \<open>next_nonce\<close> advances.
  The hash function, the private key and the clock are parameters. A payload is a byte string; the
  lemmas read its fields back. \<open>extension_charge\<close> is the fee the on-chain extension takes, as the
  comment of \<open>derive_fee_q32\<close> and the tests state it.
\<close>

unbundle bit_operations_syntax

definition default_deadline_window_secs :: nat where
  "default_deadline_window_secs = 120"

definition default_output_cap_tolerance_bps :: nat where
  "default_output_cap_tolerance_bps = 5000"

definition parse_output_cap_tolerance_bps :: "string \<Rightarrow> nat option" where
  "parse_output_cap_tolerance_bps raw =
     (case parse_u32 (trim raw) of
        Some t \<Rightarrow> if t \<le> denominator_bps then Some t else None
      | None \<Rightarrow> None)"

definition output_cap_tolerance_bps_env :: "string option \<Rightarrow> nat" where
  "output_cap_tolerance_bps_env var =
     (case var of
        None \<Rightarrow> default_output_cap_tolerance_bps
      | Some raw \<Rightarrow>
          (case parse_output_cap_tolerance_bps raw of
             Some t \<Rightarrow> t
           | None \<Rightarrow> default_output_cap_tolerance_bps))"

definition input_floor_factor_bps :: "f64 \<Rightarrow> nat run" where
  "input_floor_factor_bps slippage =
     (if \<not> f64_is_finite slippage \<or> f64_le slippage (Finite 0) then ret denominator_bps
      else
        let whole = Finite (of_nat denominator_bps);
            tolerance_bps = f64_to_uint 32 (f64_min (f64_ceil (f64_mul slippage whole)) whole) in
        biguint_sub denominator_bps tolerance_bps)"

record exclusive_swap_signer =
  sg_sign_hash :: "string \<Rightarrow> string + string"
  sg_chain_id :: nat
  sg_nonce_prefix :: "32 word"
  sg_nonce_counter :: "32 word"
  sg_deadline_window_secs :: nat
  sg_authorized_locker :: address
  sg_output_cap_tolerance_bps :: nat

definition signer_new ::
  "(string \<Rightarrow> string + string) \<Rightarrow> nat \<Rightarrow> 32 word \<Rightarrow> nat \<Rightarrow> address \<Rightarrow> exclusive_swap_signer" where
  "signer_new sign_hash chain_id nonce_prefix deadline_window_secs authorized_locker =
     \<lparr>sg_sign_hash = sign_hash, sg_chain_id = chain_id, sg_nonce_prefix = nonce_prefix,
      sg_nonce_counter = 0, sg_deadline_window_secs = deadline_window_secs,
      sg_authorized_locker = authorized_locker,
      sg_output_cap_tolerance_bps = default_output_cap_tolerance_bps\<rparr>"

definition next_nonce :: "exclusive_swap_signer \<Rightarrow> (solve_error + 64 word) \<times> exclusive_swap_signer" where
  "next_nonce sg =
     (let counter = sg_nonce_counter sg in
      if counter = - 1
      then (Inl (FailedEncoding ''exclusive swap nonce counter is exhausted; restart to draw a new prefix''), sg)
      else (Inr (push_bit 32 (ucast (sg_nonce_prefix sg)) OR ucast counter),
            sg\<lparr>sg_nonce_counter := counter + 1\<rparr>))"

definition signed_swap_meta :: "nat \<Rightarrow> nat \<Rightarrow> 64 word \<Rightarrow> address \<Rightarrow> string" where
  "signed_swap_meta deadline fee nonce authorized_locker =
     be_bytes 4 deadline @ be_bytes 4 fee @ be_bytes 8 (unat nonce) @ take 16 (drop 4 authorized_locker)"

text \<open>\<open>BigUint::to_i128\<close>.\<close>

definition biguint_to_i128 :: "biguint \<Rightarrow> int option" where
  "biguint_to_i128 n = (if n < 2 ^ 127 then Some (int n) else None)"

definition pinned_min_balance_update :: "'s swap \<Rightarrow> nat \<Rightarrow> nat \<Rightarrow> solve_error + string" where
  "pinned_min_balance_update s floor_factor_bps cap_factor_bps =
     (case biguint_to_i128 (scale_truncating (sw_amount_in s) floor_factor_bps) of
        None \<Rightarrow> Inl (FailedEncoding ''pinned input floor overflows the extension's i128 balance delta'')
      | Some in_delta \<Rightarrow>
        (case biguint_to_i128 (scale_truncating (sw_amount_out s) cap_factor_bps) of
           None \<Rightarrow> Inl (FailedEncoding ''pinned output cap overflows the extension's i128 balance delta'')
         | Some cap \<Rightarrow>
             let out_delta = - cap;
                 (delta0, delta1) = (if sw_token_in s \<le> sw_token_out s then (in_delta, out_delta)
                                     else (out_delta, in_delta)) in
             Inr (i128_bytes delta0 @ i128_bytes delta1)))"

text \<open>The lowest 32-bit digit of the clamped quotient is the quotient itself.\<close>

definition derive_fee_q32 :: "biguint \<Rightarrow> biguint \<Rightarrow> nat run" where
  "derive_fee_q32 gross committed =
     (if gross \<le> committed then ret 0
      else do {
        surplus \<leftarrow> biguint_sub gross committed;
        scaled \<leftarrow> biguint_div (surplus * 2 ^ 32) gross;
        ret (min scaled (2 ^ 32 - 1) mod 2 ^ 32)
      })"

definition attribute :: "protocol_component \<Rightarrow> string \<Rightarrow> solve_error + string" where
  "attribute c key =
     (case pc_static_attributes c key of
        Some v \<Rightarrow> Inr v
      | None \<Rightarrow> Inl (FailedEncoding (''component missing `'' @ key @ ''` attribute'')))"

definition pool_extension :: "protocol_component \<Rightarrow> solve_error + address" where
  "pool_extension c =
     (case attribute c ''extension'' of
        Inl e \<Rightarrow> Inl e
      | Inr b \<Rightarrow> if length b = 20 then Inr b
                 else Inl (FailedEncoding ''extension attribute is not a 20-byte address''))"

definition pool_config_word :: "protocol_component \<Rightarrow> solve_error + string" where
  "pool_config_word c =
     (case attribute c ''extension'' of
        Inl e \<Rightarrow> Inl e
      | Inr extension \<Rightarrow>
        (case attribute c ''fee'' of
           Inl e \<Rightarrow> Inl e
         | Inr fee \<Rightarrow>
           (case attribute c ''pool_type_config'' of
              Inl e \<Rightarrow> Inl e
            | Inr pool_type_config \<Rightarrow>
                if length extension \<noteq> 20 then Inl (FailedEncoding ''extension attribute must be 20 bytes'')
                else if length fee \<noteq> 8 then Inl (FailedEncoding ''fee attribute must be 8 bytes'')
                else if length pool_type_config \<noteq> 4
                then Inl (FailedEncoding ''pool_type_config attribute must be 4 bytes'')
                else Inr (extension @ fee @ pool_type_config))))"

definition left_pad32 :: "string \<Rightarrow> string" where
  "left_pad32 s = replicate (32 - length s) (CHR 0x00) @ s"

definition pool_id :: "(string \<Rightarrow> string) \<Rightarrow> string \<Rightarrow> string \<Rightarrow> string \<Rightarrow> solve_error + string" where
  "pool_id keccak token0 token1 config =
     (if 32 < length token0 \<or> 32 < length token1
      then Inl (FailedEncoding ''token address exceeds 32 bytes; cannot build poolId'')
      else Inr (keccak (left_pad32 token0 @ left_pad32 token1 @ config)))"

definition sorted_tokens :: "address \<Rightarrow> address \<Rightarrow> address \<times> address" where
  "sorted_tokens token_in token_out =
     (if token_in \<le> token_out then (token_in, token_out) else (token_out, token_in))"

definition eip712_digest ::
  "(string \<Rightarrow> string) \<Rightarrow> nat \<Rightarrow> address \<Rightarrow> string \<Rightarrow> string \<Rightarrow> string \<Rightarrow> string" where
  "eip712_digest keccak chain_id extension pool meta min_balance_update =
     (let domain_typehash =
            keccak ''EIP712Domain(string name,string version,uint256 chainId,address verifyingContract)'';
          name_hash = keccak ''Ekubo SignedExclusiveSwap'';
          version_hash = keccak ''1'';
          domain_separator = keccak (domain_typehash @ name_hash @ version_hash @ be_bytes 32 chain_id
                                     @ left_pad32 extension);
          struct_typehash = keccak ''SignedSwap(bytes32 poolId,uint256 meta,bytes32 minBalanceUpdate)'';
          struct_hash = keccak (struct_typehash @ pool @ meta @ min_balance_update) in
      keccak ([CHR 0x19, CHR 0x01] @ domain_separator @ struct_hash))"

text \<open>\<open>now\<close> is the Unix time, \<open>None\<close> when the system clock is before the epoch.\<close>

definition now_unix_secs :: "nat option \<Rightarrow> solve_error + nat" where
  "now_unix_secs now =
     (case now of
        Some t \<Rightarrow> Inr t
      | None \<Rightarrow> Inl (FailedEncoding
          ''system clock is before the Unix epoch, cannot compute a signing deadline''))"

definition signing_deadline :: "exclusive_swap_signer \<Rightarrow> nat option \<Rightarrow> solve_error + nat" where
  "signing_deadline sg now =
     (case now_unix_secs now of
        Inl e \<Rightarrow> Inl e
      | Inr t \<Rightarrow>
          let deadline = min (t + sg_deadline_window_secs sg) (2 ^ 64 - 1) in
          if deadline < 2 ^ 32 then Inr deadline
          else Inl (FailedEncoding ''signed swap deadline overflows u32''))"

text \<open>The part of \<open>build_user_data\<close> after the nonce is drawn.\<close>

definition sign_payload ::
  "(string \<Rightarrow> string) \<Rightarrow> nat option \<Rightarrow> exclusive_swap_signer \<Rightarrow> 's swap \<Rightarrow> f64 \<Rightarrow> nat \<Rightarrow> 64 word \<Rightarrow>
   (solve_error + string) run" where
  "sign_payload keccak now sg s slippage fee nonce =
     or_return (signing_deadline sg now) (\<lambda>deadline. do {
       let meta = signed_swap_meta deadline fee nonce (sg_authorized_locker sg);
       floor_factor \<leftarrow> input_floor_factor_bps slippage;
       or_return (pinned_min_balance_update s floor_factor
                    (min (denominator_bps + sg_output_cap_tolerance_bps sg) (2 ^ 32 - 1))) (\<lambda>update.
       or_return (pool_extension (sw_protocol_component s)) (\<lambda>extension.
       or_return (pool_config_word (sw_protocol_component s)) (\<lambda>config.
       let (token0, token1) = sorted_tokens (sw_token_in s) (sw_token_out s) in
       or_return (pool_id keccak token0 token1 config) (\<lambda>pool.
       case sg_sign_hash sg (eip712_digest keccak (sg_chain_id sg) extension pool meta update) of
         Inl e \<Rightarrow> ret (Inl (FailedEncoding (''signed swap signing failed: '' @ e)))
       | Inr signature \<Rightarrow> ret (Inr (take 8 (drop 20 config) @ meta @ update @ signature))))))
     })"

definition build_user_data ::
  "(string \<Rightarrow> string) \<Rightarrow> nat option \<Rightarrow> exclusive_swap_signer \<Rightarrow> 's swap \<Rightarrow> f64 \<Rightarrow>
   ((solve_error + string) \<times> exclusive_swap_signer) run" where
  "build_user_data keccak now sg s slippage =
     (case sw_committed_amount_out s of
        None \<Rightarrow> ret (Inl (FailedEncoding ''signed swap leg is missing committed_amount_out''), sg)
      | Some committed \<Rightarrow>
          do {
            fee \<leftarrow> derive_fee_q32 (sw_amount_out s) committed;
            case next_nonce sg of
              (Inl e, sg') \<Rightarrow> ret (Inl e, sg')
            | (Inr nonce, sg') \<Rightarrow>
                do { payload \<leftarrow> sign_payload keccak now sg' s slippage fee nonce; ret (payload, sg') }
          })"

subsection \<open>The fee never takes more than the surplus\<close>

definition extension_charge :: "nat \<Rightarrow> nat \<Rightarrow> nat" where
  "extension_charge amount fee = (amount * (fee * 2 ^ 32) + (2 ^ 64 - 1)) div 2 ^ 64"

lemma derive_fee_q32_eq:
  "derive_fee_q32 gross committed =
     ret (if gross \<le> committed then 0 else min ((gross - committed) * 2 ^ 32 div gross) (2 ^ 32 - 1))"
  by (auto simp: derive_fee_q32_def)

lemma extension_charge_eq: "extension_charge a f = (a * f + (2 ^ 32 - 1)) div 2 ^ 32"
proof -
  have "extension_charge a f = (a * f * 2 ^ 32 + (2 ^ 64 - 1)) div 2 ^ 32 div 2 ^ 32"
    unfolding extension_charge_def by (simp add: div_mult2_eq [symmetric] mult.assoc)
  also have "(a * f * 2 ^ 32 + (2 ^ 64 - 1)) div 2 ^ 32 = a * f + (2 ^ 64 - 1) div 2 ^ (32::nat)"
    by simp
  finally show ?thesis by simp
qed

lemma extension_charge_le_iff: "extension_charge a f \<le> n \<longleftrightarrow> a * f \<le> n * 2 ^ 32"
  using div_ceil_le_iff [of "2 ^ 32" "a * f" n] by (simp add: extension_charge_eq add.commute)

lemma extension_charge_ge: "a * f \<le> extension_charge a f * 2 ^ 32"
  using extension_charge_le_iff [of a f "extension_charge a f"] by simp

text \<open>C3: the fee signed for an exclusive leg is a 32-bit fraction. The charge it makes the
  extension take never exceeds the surplus above the committed amount, so the taker keeps at least
  the committed amount, and what the fee leaves of the surplus is at most one part in \<open>2\<^sup>3\<^sup>2\<close> of
  the leg's output.\<close>

theorem signed_fee_keeps_commitment:
  "\<exists>fee. derive_fee_q32 gross committed = ret fee \<and> fee < 2 ^ 32
     \<and> min gross committed \<le> gross - extension_charge gross fee
     \<and> (gross - committed) * 2 ^ 32 \<le> extension_charge gross fee * 2 ^ 32 + gross"
proof (cases "gross \<le> committed")
  case True
  have "extension_charge gross 0 = 0" by (simp add: extension_charge_eq)
  then show ?thesis using True by (simp add: derive_fee_q32_eq)
next
  case False
  define s where "s = gross - committed"
  define q where "q = s * 2 ^ 32 div gross"
  define fee where "fee = min q (2 ^ 32 - 1)"
  have gross: "0 < gross" "s \<le> gross" using False by (simp_all add: s_def)
  have "gross * q \<le> s * 2 ^ 32" unfolding q_def by (simp add: mult.commute)
  then have "gross * fee \<le> s * 2 ^ 32"
    unfolding fee_def by (meson le_trans min.cobounded1 mult_le_mono2)
  then have charge: "extension_charge gross fee \<le> s" by (simp add: extension_charge_le_iff)
  have "s * 2 ^ 32 < gross * (q + 1)"
    unfolding q_def using gross(1) by (metis Suc_eq_plus1 dividend_less_times_div mult_Suc_right add.commute)
  then have "s * 2 ^ 32 \<le> gross * fee + gross"
    unfolding fee_def using mult_right_mono [OF gross(2), of "2 ^ 32"] by (auto simp: min_def algebra_simps)
  then have "s * 2 ^ 32 \<le> extension_charge gross fee * 2 ^ 32 + gross"
    using extension_charge_ge [of gross fee] by linarith
  then show ?thesis
    using False charge by (auto simp: derive_fee_q32_eq s_def q_def fee_def min_def)
qed

subsection \<open>Nonces are used once\<close>

lemma nonce_value:
  fixes p c :: "32 word"
  shows "unat (push_bit 32 (ucast p) OR ucast c :: 64 word) = unat p * 2 ^ 32 + unat c"
proof -
  have "push_bit 32 (ucast p) AND ucast c = (0 :: 64 word)"
    by (rule bit_eqI) (auto simp: bit_simps dest: bit_imp_le_length)
  then have "push_bit 32 (ucast p) OR ucast c = (push_bit 32 (ucast p) + ucast c :: 64 word)"
    by (simp add: disjunctive_add_eq_or)
  also have "\<dots> = of_nat (unat p * 2 ^ 32 + unat c)"
    by (simp add: push_bit_eq_mult of_nat_unat)
  finally have e: "push_bit 32 (ucast p) OR ucast c = (of_nat (unat p * 2 ^ 32 + unat c) :: 64 word)" .
  have "unat p < 2 ^ 32" "unat c < 2 ^ 32" using unsigned_less [of p] unsigned_less [of c] by simp_all
  then have "unat p * 2 ^ 32 + unat c < 2 ^ 64" by simp
  then show ?thesis unfolding e by (subst unsigned_of_nat) (simp add: take_bit_eq_mod)
qed

lemma unat_plus_one:
  fixes c :: "32 word"
  assumes "c \<noteq> - 1"
  shows "unat (c + 1) = unat c + 1"
proof -
  have "unat c \<noteq> unat (- 1 :: 32 word)" using assms word_unat_eq_iff by blast
  then have "unat c \<noteq> 2 ^ 32 - 1" by (simp add: unsigned_minus_1_eq_mask mask_eq_exp_minus_1)
  moreover have "unat c < 2 ^ 32" using unsigned_less [of c] by simp
  ultimately have "unat c + unat (1 :: 32 word) < 2 ^ LENGTH(32)" by simp
  then have "unat (c + 1) = unat c + unat (1 :: 32 word)" by (rule unat_add_lem [THEN iffD1])
  then show ?thesis by simp
qed

lemma next_nonce_Inr:
  assumes "next_nonce sg = (Inr n, sg')"
  shows "unat n = unat (sg_nonce_prefix sg) * 2 ^ 32 + unat (sg_nonce_counter sg)"
    "unat (sg_nonce_counter sg') = unat (sg_nonce_counter sg) + 1"
    "sg_nonce_prefix sg' = sg_nonce_prefix sg"
  using assms by (auto simp: next_nonce_def Let_def nonce_value unat_plus_one split: if_splits)

lemma next_nonce_Inl: "next_nonce sg = (Inl e, sg') \<Longrightarrow> sg' = sg"
  by (auto simp: next_nonce_def Let_def split: if_splits)

definition payload_nonce :: "string \<Rightarrow> nat" where
  "payload_nonce p = be_nat (take 8 (drop 16 p))"

lemma pool_config_word_length: "pool_config_word c = Inr config \<Longrightarrow> length config = 32"
  by (auto simp: pool_config_word_def split: sum.splits if_splits)

lemma payload_nonce_eq:
  assumes "length fee8 = 8"
  shows "payload_nonce (fee8 @ signed_swap_meta deadline fee nonce locker @ rest) = unat nonce"
proof -
  have "unat nonce < 256 ^ 8" using unsigned_less [of nonce] by simp
  then show ?thesis using assms by (simp add: payload_nonce_def signed_swap_meta_def)
qed

lemma sign_payload_Inr:
  assumes "sign_payload keccak now sg s slippage fee nonce = ret (Inr p)"
  shows "\<exists>deadline factor update config signature.
      signing_deadline sg now = Inr deadline \<and> input_floor_factor_bps slippage = ret factor
      \<and> pinned_min_balance_update s factor
          (min (denominator_bps + sg_output_cap_tolerance_bps sg) (2 ^ 32 - 1)) = Inr update
      \<and> pool_config_word (sw_protocol_component s) = Inr config
      \<and> p = take 8 (drop 20 config) @ signed_swap_meta deadline fee nonce (sg_authorized_locker sg)
              @ update @ signature"
proof -
  obtain t0 t1 where "sorted_tokens (sw_token_in s) (sw_token_out s) = (t0, t1)" by fastforce
  with assms show ?thesis
    unfolding sign_payload_def or_return_Inr_iff Let_def
    by (auto simp: bind_eq_Some_conv or_return_Inr_iff case_sum_Inr_iff)
qed

lemma build_user_data_Inr:
  assumes "build_user_data keccak now sg s slippage = ret (Inr p, sg')"
  shows "\<exists>fee nonce. derive_fee_q32 (sw_amount_out s) (the (sw_committed_amount_out s)) = ret fee
      \<and> sw_committed_amount_out s \<noteq> None \<and> next_nonce sg = (Inr nonce, sg')
      \<and> sign_payload keccak now sg' s slippage fee nonce = ret (Inr p)"
  using assms
  by (cases "next_nonce sg"; cases "fst (next_nonce sg)")
    (auto simp: build_user_data_def bind_eq_Some_conv split: option.splits)

lemma build_user_data_Inl:
  assumes "build_user_data keccak now sg s slippage = ret (Inl e, sg')"
  shows "sg' = sg \<or> (\<exists>nonce. next_nonce sg = (Inr nonce, sg'))"
  using assms next_nonce_Inl
  by (cases "next_nonce sg"; cases "fst (next_nonce sg)")
    (auto simp: build_user_data_def bind_eq_Some_conv split: option.splits)

lemma build_user_data_nonce:
  assumes "build_user_data keccak now sg s slippage = ret (Inr p, sg')"
  shows "payload_nonce p = unat (sg_nonce_prefix sg) * 2 ^ 32 + unat (sg_nonce_counter sg)"
    "unat (sg_nonce_counter sg') = unat (sg_nonce_counter sg) + 1"
    "sg_nonce_prefix sg' = sg_nonce_prefix sg"
proof -
  from build_user_data_Inr [OF assms] obtain fee nonce where n: "next_nonce sg = (Inr nonce, sg')"
    "sign_payload keccak now sg' s slippage fee nonce = ret (Inr p)" by blast
  from sign_payload_Inr [OF n(2)] obtain deadline config rest where
    "pool_config_word (sw_protocol_component s) = Inr config"
    "p = take 8 (drop 20 config) @ signed_swap_meta deadline fee nonce (sg_authorized_locker sg') @ rest"
    by blast
  then have "payload_nonce p = unat nonce"
    using payload_nonce_eq [of "take 8 (drop 20 config)"] pool_config_word_length by simp
  then show "payload_nonce p = unat (sg_nonce_prefix sg) * 2 ^ 32 + unat (sg_nonce_counter sg)"
    "unat (sg_nonce_counter sg') = unat (sg_nonce_counter sg) + 1"
    "sg_nonce_prefix sg' = sg_nonce_prefix sg"
    using next_nonce_Inr [OF n(1)] by simp_all
qed

text \<open>The legs a signer has signed, with their payloads: each call of \<open>build_user_data\<close> starts from the counter
  the previous one left, whatever leg, slippage and time it is given.\<close>

inductive signed ::
  "(string \<Rightarrow> string) \<Rightarrow> exclusive_swap_signer \<Rightarrow> ('s swap \<times> string) list \<Rightarrow> exclusive_swap_signer \<Rightarrow> bool"
  for keccak sg where
  none: "signed keccak sg [] sg"
| payload: "signed keccak sg ps sg1 \<Longrightarrow> build_user_data keccak now sg1 s slippage = ret (Inr p, sg2) \<Longrightarrow>
    signed keccak sg (ps @ [(s, p)]) sg2"
| failure: "signed keccak sg ps sg1 \<Longrightarrow> build_user_data keccak now sg1 (s :: 's swap) slippage = ret (Inl e, sg2) \<Longrightarrow>
    signed keccak sg ps sg2"

lemma signed_nonces:
  assumes "signed keccak sg ps sg'"
  shows "sg_nonce_prefix sg' = sg_nonce_prefix sg \<and> distinct (map (payload_nonce \<circ> snd) ps)
    \<and> (\<forall>(s, p) \<in> set ps. payload_nonce p div 2 ^ 32 = unat (sg_nonce_prefix sg)
         \<and> payload_nonce p mod 2 ^ 32 < unat (sg_nonce_counter sg'))"
  using assms
proof (induction rule: signed.induct)
  case (payload ps sg1 now s slippage p sg2)
  note n = build_user_data_nonce [OF payload.hyps(2)]
  have c: "unat (sg_nonce_counter sg1) < 2 ^ 32" using unsigned_less [of "sg_nonce_counter sg1"] by simp
  have d: "payload_nonce p div 2 ^ 32 = unat (sg_nonce_prefix sg)"
    and m: "payload_nonce p mod 2 ^ 32 = unat (sg_nonce_counter sg1)"
    using n(1) c payload.IH by (simp_all add: div_add1_eq)
  have "payload_nonce p \<notin> (payload_nonce \<circ> snd) ` set ps"
    using payload.IH m by fastforce
  then show ?case using payload.IH n(2,3) d m by fastforce
next
  case (failure ps sg1 now s slippage e sg2)
  then show ?case
    using build_user_data_Inl [OF failure.hyps(2)] next_nonce_Inr by fastforce
qed simp

text \<open>C8: a signer never signs two payloads with the same nonce, and every nonce carries the
  signer's prefix in its high 32 bits, so signers with different prefixes never share a nonce.\<close>

theorem signed_nonces_distinct:
  assumes "signed keccak sg ps sg'"
  shows "distinct (map (payload_nonce \<circ> snd) ps)
    \<and> (\<forall>(s, p) \<in> set ps. payload_nonce p div 2 ^ 32 = unat (sg_nonce_prefix sg))"
  using signed_nonces [OF assms] by blast

subsection \<open>What a payload pins\<close>

lemma input_floor_factor_total:
  "\<exists>f \<le> denominator_bps. input_floor_factor_bps slippage = ret f"
  using f64_to_uint_bound [OF f64_min_le]
  by (auto simp: input_floor_factor_bps_def Let_def)

lemma pinned_min_balance_update_Inr:
  assumes "pinned_min_balance_update s f c = Inr update"
  shows "length update = 32"
    "(if sw_token_in s \<le> sw_token_out s
      then (i128_of_bytes (take 16 update), i128_of_bytes (drop 16 update))
      else (i128_of_bytes (drop 16 update), i128_of_bytes (take 16 update)))
     = (int (scale_truncating (sw_amount_in s) f), - int (scale_truncating (sw_amount_out s) c))"
proof -
  let ?a = "int (scale_truncating (sw_amount_in s) f)" and ?b = "- int (scale_truncating (sw_amount_out s) c)"
  have "in_i128 ?a" "in_i128 ?b" and
    u: "update = (if sw_token_in s \<le> sw_token_out s then i128_bytes ?a @ i128_bytes ?b
                  else i128_bytes ?b @ i128_bytes ?a)"
    using assms by (auto simp: pinned_min_balance_update_def biguint_to_i128_def in_i128_def Let_def
        split: if_splits option.splits)
  then have r: "i128_of_bytes (i128_bytes ?a) = ?a" "i128_of_bytes (i128_bytes ?b) = ?b"
    by (simp_all only: i128_round_trip)
  show "length update = 32" by (simp add: u)
  show "(if sw_token_in s \<le> sw_token_out s
      then (i128_of_bytes (take 16 update), i128_of_bytes (drop 16 update))
      else (i128_of_bytes (drop 16 update), i128_of_bytes (take 16 update))) = (?a, ?b)"
    using r by (simp add: u)
qed


subsection \<open>Examples\<close>

definition example_signer :: exclusive_swap_signer where
  "example_signer =
     signer_new (\<lambda>digest. Inr (replicate 65 (CHR 0x01))) 1 7 120 (replicate 20 (CHR 0x77))"

definition example_exclusive_leg :: "unit swap" where
  "example_exclusive_leg =
     (example_swap ''A'' ''B'' 100 90)
       \<lparr>sw_committed_amount_out := Some 80,
        sw_protocol_component := example_component
          \<lparr>pc_static_attributes := [''extension'' \<mapsto> replicate 20 (CHR 0x55),
             ''fee'' \<mapsto> replicate 8 (CHR 0x00), ''pool_type_config'' \<mapsto> replicate 4 (CHR 0x00)]\<rparr>\<rparr>"

lemma example_signs:
  assumes "c \<noteq> - 1"
  shows "\<exists>p. build_user_data id (Some 5) (example_signer\<lparr>sg_nonce_counter := c\<rparr>) example_exclusive_leg (Finite 0)
     = ret (Inr p, example_signer\<lparr>sg_nonce_counter := c + 1\<rparr>)"
  using assms
  by (simp add: build_user_data_def example_exclusive_leg_def derive_fee_q32_eq next_nonce_def
      example_signer_def signer_new_def sign_payload_def signing_deadline_def now_unix_secs_def
      input_floor_factor_bps_def pinned_min_balance_update_def biguint_to_i128_def scale_truncating_def
      denominator_bps_def pool_extension_def pool_config_word_def attribute_def pool_id_def
      sorted_tokens_def example_swap_def swap_new_def example_component_def Let_def
      default_output_cap_tolerance_bps_def)

theorem signed_nonces_distinct_witness:
  "\<exists>p1 p2 sg'. signed id (example_signer\<lparr>sg_nonce_counter := 0\<rparr>)
     [(example_exclusive_leg, p1), (example_exclusive_leg, p2)] sg' \<and> payload_nonce p1 \<noteq> payload_nonce p2"
proof -
  obtain p1 where p1: "build_user_data id (Some 5) (example_signer\<lparr>sg_nonce_counter := 0\<rparr>)
      example_exclusive_leg (Finite 0) = ret (Inr p1, example_signer\<lparr>sg_nonce_counter := 0 + 1\<rparr>)"
    using example_signs [of 0] by auto
  obtain p2 where p2: "build_user_data id (Some 5) (example_signer\<lparr>sg_nonce_counter := 0 + 1\<rparr>)
      example_exclusive_leg (Finite 0) = ret (Inr p2, example_signer\<lparr>sg_nonce_counter := 0 + 1 + 1\<rparr>)"
    using example_signs [of "0 + 1"] by auto
  have "signed id (example_signer\<lparr>sg_nonce_counter := 0\<rparr>)
      (([] @ [(example_exclusive_leg, p1)]) @ [(example_exclusive_leg, p2)])
      (example_signer\<lparr>sg_nonce_counter := 0 + 1 + 1\<rparr>)"
    by (rule signed.payload [OF signed.payload [OF signed.none p1] p2])
  from signed_nonces_distinct [OF this] this show ?thesis by auto
qed


end
