(* ===== verification/Encoding.thy ===== *)
theory Encoding
  imports RouterCall FallbackData Signing
begin

text \<open>
  Encoding the quotes of a request: the parts of \<open>src/fynd-core/src/encoding/encoder.rs\<close> around the
  router call.

  The Tycho encoder, the hooks of a request, the clock and the rendering of an error are fields of
  \<open>encoder_env\<close>, together with the environments of the router call and of the fallback data. The
  signer's nonce counter is shared by all encoding tasks: \<open>en_nonce_counter q i\<close> is the value the
  counter has when leg \<open>i\<close> of quote \<open>q\<close> is signed, so any interleaving of the tasks is covered. The
  identity of a protocol state object is modelled as equality. Metrics and log lines are left out,
  and an error message is reduced to its fixed part.
\<close>

record 's encoder_env =
  en_abi :: abi_env
  en_fallback :: "'s fallback_env"
  en_encode_solutions :: "'s solution list \<Rightarrow> encoding_error + encoded_solution list"
  en_router_deployed :: bool
  en_jit_router_address :: "address option"
  en_signer :: "exclusive_swap_signer option"
  en_now :: "nat option"
  en_nonce_counter :: "'s order_quote \<Rightarrow> nat \<Rightarrow> 32 word"
  en_solution_hook :: "('s order_quote \<Rightarrow> 's solution \<Rightarrow> solve_error + 's solution) option"
  en_calldata_hook ::
    "('s order_quote \<Rightarrow> 's solution \<Rightarrow> encoded_solution \<Rightarrow> string \<Rightarrow> solve_error + string) option"
  en_calldata_watermark :: "string option"
  en_show_error :: "encoding_error \<Rightarrow> string"

subsection \<open>Building a solution\<close>

definition solution_swap_of ::
  "'s fallback_env \<Rightarrow> nat option \<Rightarrow> (address \<rightharpoonup> token) \<Rightarrow> 's swap \<Rightarrow> solve_error + 's solution_swap" where
  "solution_swap_of env shortfall tokens s =
     (case tokens (sw_token_in s) of
        None \<Rightarrow> Inl (FailedEncoding ''token not found in route's token map'')
      | Some token_in \<Rightarrow>
        (case tokens (sw_token_out s) of
           None \<Rightarrow> Inl (FailedEncoding ''token not found in route's token map'')
         | Some token_out \<Rightarrow>
             let swap = \<lparr>ss_component = sw_protocol_component s, ss_token_in = token_in,
                         ss_token_out = token_out, ss_gas_estimate = sw_gas_estimate s,
                         ss_split = sw_split s, ss_protocol_state = sw_protocol_state s,
                         ss_estimated_amount_in = sw_amount_in s,
                         ss_max_signed_quote_shortfall_bps = shortfall, ss_user_data = None\<rparr> in
             (case sw_fallback s of
                None \<Rightarrow> Inr swap
              | Some leg \<Rightarrow>
                  (case fallback_user_data env leg (sw_token_in s) (sw_token_out s) of
                     Inl _ \<Rightarrow> Inl (FailedEncoding (''pAMM leg '' @ sw_component_id s))
                   | Inr d \<Rightarrow> Inr (swap\<lparr>ss_user_data := Some d\<rparr>)))))"

fun collect_results :: "('e + 'a) list \<Rightarrow> 'e + 'a list" where
  "collect_results [] = Inr []"
| "collect_results (Inl e # rs) = Inl e"
| "collect_results (Inr x # rs) =
     (case collect_results rs of Inl e \<Rightarrow> Inl e | Inr xs \<Rightarrow> Inr (x # xs))"

definition solution_from_quote ::
  "'s fallback_env \<Rightarrow> 's order_quote \<Rightarrow> biguint \<Rightarrow> nat option \<Rightarrow> solve_error + 's solution" where
  "solution_from_quote env q min_amount_out shortfall =
     (if oq_status q \<noteq> QSuccess then Inl (FailedEncoding ''cannot convert quote to Solution'')
      else case oq_route q of
        None \<Rightarrow> Inl (FailedEncoding ''successful quote must have a route'')
      | Some r \<Rightarrow>
        (case (input_token r, output_token r) of
           (None, _) \<Rightarrow> Inl (FailedEncoding ''route has no input token'')
         | (Some _, None) \<Rightarrow> Inl (FailedEncoding ''route has no output token'')
         | (Some token_in, Some token_out) \<Rightarrow>
             (case collect_results (map (solution_swap_of env shortfall (rt_tokens r)) (rt_swaps r)) of
                Inl e \<Rightarrow> Inl e
              | Inr swaps \<Rightarrow>
                  Inr \<lparr>sl_sender = oq_sender q, sl_receiver = oq_receiver q, sl_token_in = token_in,
                       sl_token_out = token_out, sl_amount_in = oq_amount_in q,
                       sl_expected_amount_out = oq_amount_out q, sl_min_amount_out = min_amount_out,
                       sl_swaps = swaps, sl_origin = oq_sender q, sl_subsidy = None,
                       sl_user_transfer_type = TransferFrom\<rparr>)))"

definition stamp_leg ::
  "'s encoder_env \<Rightarrow> exclusive_swap_signer \<Rightarrow> 's order_quote \<Rightarrow> f64 \<Rightarrow>
   nat \<times> 's solution_swap \<times> 's swap \<Rightarrow> (solve_error + 's solution_swap) run" where
  "stamp_leg env signer q slippage x =
     (case x of (i, solution_swap, route_swap) \<Rightarrow>
        if sw_committed_amount_out route_swap \<noteq> None then
          do {
            (signed_data, _) \<leftarrow> build_user_data (ab_keccak256 (en_abi env)) (en_now env)
                (signer\<lparr>sg_nonce_counter := en_nonce_counter env q i\<rparr>) route_swap slippage;
            or_return signed_data (\<lambda>d. ret (Inr (solution_swap\<lparr>ss_user_data := Some d\<rparr>)))
          }
        else ret (Inr solution_swap))"

definition stamp_exclusive_swaps ::
  "'s encoder_env \<Rightarrow> 's solution \<Rightarrow> 's order_quote \<Rightarrow> exclusive_swap_signer \<Rightarrow> f64 \<Rightarrow>
   (solve_error + 's solution) run" where
  "stamp_exclusive_swaps env solution q signer slippage =
     (case oq_route q of
        None \<Rightarrow> ret (Inl (FailedEncoding ''successful quote must have a route''))
      | Some r \<Rightarrow>
          if \<not> list_ex (\<lambda>s. sw_committed_amount_out s \<noteq> None) (rt_swaps r) then ret (Inr solution)
          else do {
            stamped \<leftarrow> try_each (stamp_leg env signer q slippage)
                         (List.enumerate 0 (zip (sl_swaps solution) (rt_swaps r)));
            or_return stamped (\<lambda>swaps. ret (Inr (solution\<lparr>sl_swaps := swaps\<rparr>)))
          })"

definition sign_solution ::
  "'s encoder_env \<Rightarrow> 's order_quote \<Rightarrow> encoding_options \<Rightarrow> 's solution \<Rightarrow> (solve_error + 's solution) run" where
  "sign_solution env q opts solution =
     (case en_signer env of
        Some signer \<Rightarrow> stamp_exclusive_swaps env solution q signer (eo_slippage opts)
      | None \<Rightarrow>
          if (case oq_route q of None \<Rightarrow> False | Some r \<Rightarrow> has_exclusive_leg r)
          then ret (Inl (FailedEncoding ''quote routes through an exclusive pool but no signing key is configured''))
          else ret (Inr solution))"

text \<open>The fields a solution hook may change are the expected output and the subsidy.\<close>

definition changed_solution_field :: "'s solution \<Rightarrow> 's solution \<Rightarrow> bool" where
  "changed_solution_field original hooked =
     (hooked\<lparr>sl_expected_amount_out := sl_expected_amount_out original,
             sl_subsidy := sl_subsidy original\<rparr> \<noteq> original)"

definition apply_solution_hook ::
  "('s order_quote \<Rightarrow> 's solution \<Rightarrow> solve_error + 's solution) \<Rightarrow> 's order_quote \<Rightarrow> 's solution \<Rightarrow>
   solve_error + 's solution" where
  "apply_solution_hook hook q solution =
     (case hook q solution of
        Inl e \<Rightarrow> Inl e
      | Inr hooked \<Rightarrow>
          if changed_solution_field solution hooked
          then Inl (FailedEncoding ''the solution hook changed a field it may not change'')
          else if sl_expected_amount_out hooked < sl_expected_amount_out solution
          then Inl (FailedEncoding ''the solution hook lowered expected_amount_out'')
          else Inr hooked)"

record 's prepared_solution =
  pp_solution :: "'s solution"
  pp_fee_breakdown :: fee_breakdown
  pp_fee_rates :: fee_rates

definition hook_solution ::
  "'s encoder_env \<Rightarrow> 's order_quote \<Rightarrow> encoding_options \<Rightarrow> fee_rates \<Rightarrow> fee_breakdown \<Rightarrow> 's solution \<Rightarrow>
   (solve_error + 's prepared_solution) run" where
  "hook_solution env q opts rates breakdown stamped =
     (case en_solution_hook env of
        None \<Rightarrow> ret (Inr \<lparr>pp_solution = stamped, pp_fee_breakdown = breakdown, pp_fee_rates = rates\<rparr>)
      | Some hook \<Rightarrow>
          or_return (apply_solution_hook hook q stamped) (\<lambda>hooked. do {
            hooked_fees \<leftarrow> calculate_fees (sl_expected_amount_out hooked) (client_fee_bps_of opts) rates;
            case hooked_fees of
              Inl e \<Rightarrow> ret (Inl (FailedEncoding (en_show_error env e)))
            | Inr fees \<Rightarrow>
                ret (Inr \<lparr>pp_solution = hooked,
                          pp_fee_breakdown = fee_breakdown_new (fst fees) (snd fees)
                            (fb_max_slippage breakdown) (fb_min_amount_received breakdown),
                          pp_fee_rates = rates\<rparr>)
          }))"

definition prepare_solution ::
  "'s encoder_env \<Rightarrow> 's order_quote \<Rightarrow> encoding_options \<Rightarrow> router_fees \<Rightarrow>
   (solve_error + 's prepared_solution) run" where
  "prepare_solution env q opts fees =
     (let rates = fees_for fees (fee_client opts q) in
      do {
        computed \<leftarrow> calculate_fee_breakdown (oq_amount_out q) (client_fee_bps_of opts) (eo_slippage opts) rates;
        case computed of
          Inl e \<Rightarrow> ret (Inl (FailedEncoding (en_show_error env e)))
        | Inr breakdown \<Rightarrow>
          (case check_min_amount_out (fb_min_amount_received breakdown) of
             Inl e \<Rightarrow> ret (Inl (FailedEncoding (en_show_error env e)))
           | Inr _ \<Rightarrow>
             or_return (solution_from_quote (en_fallback env) q (fb_min_amount_received breakdown)
                          (Some (slippage_bps (eo_slippage opts)))) (\<lambda>solution. do {
               signed_solution \<leftarrow>
                 sign_solution env q opts (solution\<lparr>sl_user_transfer_type := eo_transfer_type opts\<rparr>);
               or_return signed_solution (hook_solution env q opts rates breakdown)
             }))
      })"

subsection \<open>Encoding a quote\<close>

text \<open>The end of \<open>attach_transaction\<close>, which writes the call to the quote.\<close>

definition write_call ::
  "'s encoder_env \<Rightarrow> 's order_quote \<Rightarrow> 's prepared_solution \<Rightarrow> encoding_options \<Rightarrow> encoded_solution \<Rightarrow>
   transaction \<Rightarrow> string \<Rightarrow> router_call \<Rightarrow> 's order_quote run" where
  "write_call env q prepared opts encoded tx calldata decoded =
     (let breakdown =
            (if eo_client_fee_params opts \<noteq> None
             then (pp_fee_breakdown prepared)
                    \<lparr>fb_swaps_hash := Some (ab_keccak256 (en_abi env) (ra_swaps decoded))\<rparr>
             else pp_fee_breakdown prepared);
          watermark = (case eo_calldata_watermark opts of
                         Some w \<Rightarrow> Some w | None \<Rightarrow> en_calldata_watermark env);
          marked = (case watermark of None \<Rightarrow> calldata | Some w \<Rightarrow> calldata @ w) in
      do {
        q1 \<leftarrow> set_amount_out q (sl_expected_amount_out (pp_solution prepared));
        let q2 = set_gas_estimate q1 (es_estimated_gas encoded);
        let q3 = set_subsidy_amount q2 (sl_subsidy (pp_solution prepared));
        let q4 = set_transaction q3 (tx\<lparr>tx_data := marked\<rparr>);
        ret (set_fee_breakdown q4 breakdown)
      })"

definition attach_transaction ::
  "'s encoder_env \<Rightarrow> 's order_quote \<Rightarrow> encoding_error + encoded_solution \<Rightarrow> 's prepared_solution \<Rightarrow>
   encoding_options \<Rightarrow> (solve_error + 's order_quote) run" where
  "attach_transaction env q encoded_result prepared opts =
     (case encoded_result of
        Inl e \<Rightarrow> ret (Inl (FailedEncoding (en_show_error env e)))
      | Inr encoded \<Rightarrow>
        do {
          call \<leftarrow> encode_tycho_router_call (en_abi env) (en_jit_router_address env) encoded
                    (pp_solution prepared) opts (pp_fee_rates prepared);
          case call of
            Inl e \<Rightarrow> ret (Inl (FailedEncoding (en_show_error env e)))
          | Inr tx \<Rightarrow>
             or_return (case en_calldata_hook env of
                          None \<Rightarrow> Inr (tx_data tx)
                        | Some hook \<Rightarrow> hook q (pp_solution prepared) encoded (tx_data tx)) (\<lambda>calldata.
             or_return (router_call_decode (en_abi env) (es_function_signature encoded) calldata) (\<lambda>decoded. do {
               q' \<leftarrow> write_call env q prepared opts encoded tx calldata decoded;
               ret (Inr q')
             }))
        })"

definition encoded_solution_of :: "'s encoder_env \<Rightarrow> 's solution \<Rightarrow> encoding_error + encoded_solution" where
  "encoded_solution_of env solution =
     (case en_encode_solutions env [solution] of
        Inl e \<Rightarrow> Inl e
      | Inr encoded \<Rightarrow> if encoded = [] then Inl NoEncodedSolution else Inr (last encoded))"

definition encode_quote ::
  "'s encoder_env \<Rightarrow> 's order_quote \<Rightarrow> encoding_options \<Rightarrow> router_fees \<Rightarrow>
   (solve_error + 's order_quote) run" where
  "encode_quote env q opts fees =
     do {
       prepared \<leftarrow> prepare_solution env q opts fees;
       or_return prepared (\<lambda>p. attach_transaction env q (encoded_solution_of env (pp_solution p)) p opts)
     }"

text \<open>
  Every successful quote is encoded in its own task. \<open>late i\<close> tells that the deadline passed before
  the task of quote \<open>i\<close> ended; without a deadline it is false everywhere. A task that panics fails
  the join, and the first such failure in quote order fails the call.
\<close>

definition encode_quotes ::
  "'s encoder_env \<Rightarrow> 's order_quote list \<Rightarrow> encoding_options \<Rightarrow> router_fees \<Rightarrow> (nat \<Rightarrow> bool) \<Rightarrow>
   solve_error + (nat \<times> (solve_error + 's order_quote)) list" where
  "encode_quotes env quotes opts fees late =
     collect_results
       (map (\<lambda>(i, q).
               if late i
               then Inr (i, Inl (FailedEncoding ''the quote did not encode before the deadline''))
               else case encode_quote env q opts fees of
                      None \<Rightarrow> Inl (FailedEncoding ''the encoding task failed'')
                    | Some result \<Rightarrow> Inr (i, result))
          (filter (\<lambda>(i, q). oq_status q = QSuccess) (List.enumerate 0 quotes)))"

definition store_encoded ::
  "nat \<times> (solve_error + 's order_quote) \<Rightarrow> 's order_quote list \<Rightarrow> 's order_quote list" where
  "store_encoded result quotes =
     (case result of
        (i, Inr q) \<Rightarrow> quotes[i := q]
      | (i, Inl _) \<Rightarrow> quotes[i := set_status (quotes ! i) QEncodingFailed])"

definition check_jit_router_encoding :: "'s encoder_env \<Rightarrow> solve_error + unit" where
  "check_jit_router_encoding env =
     (if en_jit_router_address env = None
      then Inl (EncodingUnavailable ''no FyndJITRouter address is configured'') else Inr ())"

definition encode_until ::
  "'s encoder_env \<Rightarrow> 's order_quote list \<Rightarrow> encoding_options \<Rightarrow> router_fees \<Rightarrow> (nat \<Rightarrow> bool) \<Rightarrow>
   solve_error + 's order_quote list" where
  "encode_until env quotes opts fees late =
     (if \<not> en_router_deployed env then Inl (EncodingUnavailable ''no Tycho router is deployed'')
      else
        (case (if eo_jit_router opts then check_jit_router_encoding env else Inr ()) of
           Inl e \<Rightarrow> Inl e
         | Inr _ \<Rightarrow>
             (case encode_quotes env quotes opts fees late of
                Inl e \<Rightarrow> Inl e
              | Inr results \<Rightarrow> Inr (fold store_encoded results quotes))))"

subsection \<open>What encoding does to a request\<close>

text \<open>The outcome for one quote, when its task does not panic.\<close>

definition encoded_outcome ::
  "'s encoder_env \<Rightarrow> encoding_options \<Rightarrow> router_fees \<Rightarrow> (nat \<Rightarrow> bool) \<Rightarrow> nat \<Rightarrow> 's order_quote \<Rightarrow> 's order_quote" where
  "encoded_outcome env opts fees late i q =
     (if oq_status q \<noteq> QSuccess then q
      else if late i then set_status q QEncodingFailed
      else case encode_quote env q opts fees of
             Some (Inr q') \<Rightarrow> q'
           | _ \<Rightarrow> set_status q QEncodingFailed)"

lemma collect_results_map_Inr: "collect_results (map (\<lambda>x. Inr (f x)) xs) = Inr (map f xs)"
  by (induction xs) auto

lemma fold_store_encoded_length [simp]: "length (fold store_encoded rs qs) = length qs"
  by (induction rs arbitrary: qs) (auto simp: store_encoded_def split: sum.splits)

lemma fold_store_encoded_nth:
  assumes "distinct (map fst rs)" "\<forall>r \<in> set rs. fst r < length qs" "i < length qs"
  shows "fold store_encoded rs qs ! i =
    (case map_of rs i of
       None \<Rightarrow> qs ! i
     | Some (Inr q) \<Rightarrow> q
     | Some (Inl _) \<Rightarrow> set_status (qs ! i) QEncodingFailed)"
  using assms
proof (induction rs arbitrary: qs)
  case (Cons r rs)
  obtain j res where r: "r = (j, res)" by force
  have "map_of rs j = None" using Cons.prems(1) r by (simp add: map_of_eq_None_iff)
  with Cons show ?case
    by (auto simp: r store_encoded_def nth_list_update split: sum.splits option.splits)
qed simp

definition fees_in_range :: "router_fees \<Rightarrow> bool" where
  "fees_in_range fees = (\<forall>client. fee_units_in_range (fees_for fees client))"

subsection \<open>Amounts of a prepared solution\<close>

lemma apply_solution_hook_raises:
  "apply_solution_hook hook q solution = Inr hooked \<Longrightarrow>
     sl_expected_amount_out solution \<le> sl_expected_amount_out hooked
     \<and> sl_min_amount_out hooked = sl_min_amount_out solution \<and> sl_amount_in hooked = sl_amount_in solution
     \<and> hook q solution = Inr hooked"
  by (cases hooked; cases solution)
    (auto simp: apply_solution_hook_def changed_solution_field_def split: sum.splits if_splits)

lemma solution_from_quote_amounts:
  assumes "solution_from_quote env q m sf = Inr solution"
  shows "sl_expected_amount_out solution = oq_amount_out q" "sl_min_amount_out solution = m"
    "sl_amount_in solution = oq_amount_in q" "oq_status q = QSuccess"
  using assms by (auto simp: solution_from_quote_def split: if_splits option.splits sum.splits)

lemma stamp_exclusive_swaps_Inr:
  assumes "stamp_exclusive_swaps env solution q signer sl = ret (Inr stamped)"
  shows "\<exists>swaps. stamped = solution\<lparr>sl_swaps := swaps\<rparr>"
  using assms
  by (cases "try_each (stamp_leg env signer q sl) (List.enumerate 0 (zip (sl_swaps solution) (rt_swaps (the (oq_route q)))))")
    (auto simp: stamp_exclusive_swaps_def or_return_Inr_iff intro: exI [of _ "sl_swaps solution"]
      split: if_splits option.splits)

lemma sign_solution_Inr:
  assumes "sign_solution env q opts solution = ret (Inr stamped)"
  shows "sl_expected_amount_out stamped = sl_expected_amount_out solution"
    "sl_min_amount_out stamped = sl_min_amount_out solution" "sl_amount_in stamped = sl_amount_in solution"
    "en_signer env = None \<Longrightarrow> oq_route q = Some r \<Longrightarrow> \<not> has_exclusive_leg r"
  using assms stamp_exclusive_swaps_Inr
  by (fastforce simp: sign_solution_def split: option.splits if_splits)+

lemma hook_solution_Inr:
  assumes "hook_solution env q opts rates b stamped = ret (Inr p)"
  shows "sl_expected_amount_out stamped \<le> sl_expected_amount_out (pp_solution p)"
    "sl_min_amount_out (pp_solution p) = sl_min_amount_out stamped"
    "sl_amount_in (pp_solution p) = sl_amount_in stamped"
    "fb_min_amount_received (pp_fee_breakdown p) = fb_min_amount_received b" "pp_fee_rates p = rates"
    "pp_solution p = stamped \<or> (\<exists>hook. en_solution_hook env = Some hook \<and> hook q stamped = Inr (pp_solution p))"
  using assms apply_solution_hook_raises
  by (fastforce simp: hook_solution_def or_return_Inr_iff bind_eq_Some_conv case_sum_Inr_iff
      fee_breakdown_new_def split: option.splits)+

lemma prepare_solution_steps:
  assumes "prepare_solution env q opts fees = ret (Inr p)"
  shows "\<exists>b solution stamped.
      calculate_fee_breakdown (oq_amount_out q) (client_fee_bps_of opts) (eo_slippage opts)
        (fees_for fees (fee_client opts q)) = ret (Inr b)
      \<and> 0 < fb_min_amount_received b
      \<and> solution_from_quote (en_fallback env) q (fb_min_amount_received b)
          (Some (slippage_bps (eo_slippage opts))) = Inr solution
      \<and> sign_solution env q opts (solution\<lparr>sl_user_transfer_type := eo_transfer_type opts\<rparr>) = ret (Inr stamped)
      \<and> hook_solution env q opts (fees_for fees (fee_client opts q)) b stamped = ret (Inr p)"
  using assms unfolding prepare_solution_def Let_def bind_eq_Some_conv case_sum_Inr_iff or_return_Inr_iff
  by (auto simp: bind_eq_Some_conv case_sum_Inr_iff or_return_Inr_iff check_min_amount_out_def
      split: if_splits)

lemma calculate_fee_breakdown_min:
  assumes "calculate_fee_breakdown out bps slippage rates = ret (Inr b)"
  shows "fb_min_amount_received b \<le> out"
  using assms
  by (auto simp: calculate_fee_breakdown_def or_return_Inr_iff bind_eq_Some_conv biguint_sub_Some_iff
      fee_breakdown_new_def split: prod.splits)

lemma prepare_solution_Inr:
  assumes "prepare_solution env q opts fees = ret (Inr p)"
  shows "oq_status q = QSuccess" "oq_amount_out q \<le> sl_expected_amount_out (pp_solution p)"
    "0 < fb_min_amount_received (pp_fee_breakdown p)"
    "sl_min_amount_out (pp_solution p) = fb_min_amount_received (pp_fee_breakdown p)"
    "sl_amount_in (pp_solution p) = oq_amount_in q" "pp_fee_rates p = fees_for fees (fee_client opts q)"
    "sl_min_amount_out (pp_solution p) \<le> oq_amount_out q"
    "sl_expected_amount_out (pp_solution p) = oq_amount_out q
     \<or> (\<exists>hook stamped. en_solution_hook env = Some hook \<and> hook q stamped = Inr (pp_solution p))"
    "en_signer env = None \<Longrightarrow> oq_route q = Some r \<Longrightarrow> \<not> has_exclusive_leg r"
proof -
  from prepare_solution_steps [OF assms] obtain b solution stamped where
    bd: "calculate_fee_breakdown (oq_amount_out q) (client_fee_bps_of opts) (eo_slippage opts)
        (fees_for fees (fee_client opts q)) = ret (Inr b)"
    and pos: "0 < fb_min_amount_received b"
    and sol: "solution_from_quote (en_fallback env) q (fb_min_amount_received b)
        (Some (slippage_bps (eo_slippage opts))) = Inr solution"
    and sign: "sign_solution env q opts (solution\<lparr>sl_user_transfer_type := eo_transfer_type opts\<rparr>)
        = ret (Inr stamped)"
    and hook: "hook_solution env q opts (fees_for fees (fee_client opts q)) b stamped = ret (Inr p)"
    by blast
  note facts = solution_from_quote_amounts [OF sol] sign_solution_Inr [OF sign] hook_solution_Inr [OF hook]
  show "oq_status q = QSuccess" "oq_amount_out q \<le> sl_expected_amount_out (pp_solution p)"
    "0 < fb_min_amount_received (pp_fee_breakdown p)"
    "sl_min_amount_out (pp_solution p) = fb_min_amount_received (pp_fee_breakdown p)"
    "sl_amount_in (pp_solution p) = oq_amount_in q" "pp_fee_rates p = fees_for fees (fee_client opts q)"
    "sl_min_amount_out (pp_solution p) \<le> oq_amount_out q"
    using facts pos calculate_fee_breakdown_min [OF bd] by simp_all
  show "sl_expected_amount_out (pp_solution p) = oq_amount_out q
     \<or> (\<exists>hook stamped. en_solution_hook env = Some hook \<and> hook q stamped = Inr (pp_solution p))"
    using facts by auto
  show "en_signer env = None \<Longrightarrow> oq_route q = Some r \<Longrightarrow> \<not> has_exclusive_leg r"
    using facts by blast
qed

lemma write_call_Some:
  assumes "write_call env q p opts encoded tx calldata decoded = ret q'"
  shows "\<exists>tx b. oq_transaction q' = Some tx \<and> oq_fee_breakdown q' = Some b
      \<and> fb_min_amount_received b = fb_min_amount_received (pp_fee_breakdown p)"
    "oq_amount_out q' = sl_expected_amount_out (pp_solution p)" "oq_status q' = oq_status q"
    "oq_route q' = oq_route q" "oq_amount_in q' = oq_amount_in q" "oq_worker_pool q' = oq_worker_pool q"
    "net_le_out q \<Longrightarrow> net_le_out q'"
  using assms by (auto simp: write_call_def Let_def order_quote_setters set_amount_out_eq net_le_out_def)

lemma write_call_not_panic: "write_call env q p opts encoded tx calldata decoded \<noteq> panic"
  by (simp add: write_call_def Let_def set_amount_out_eq)

lemma attach_transaction_steps:
  assumes "attach_transaction env q enc p opts = ret (Inr q')"
  shows "\<exists>encoded tx calldata decoded. enc = Inr encoded
      \<and> encode_tycho_router_call (en_abi env) (en_jit_router_address env) encoded
          (pp_solution p) opts (pp_fee_rates p) = ret (Inr tx)
      \<and> router_call_decode (en_abi env) (es_function_signature encoded) calldata = Inr decoded
      \<and> write_call env q p opts encoded tx calldata decoded = ret q'"
  using assms unfolding attach_transaction_def case_sum_Inr_iff bind_eq_Some_conv
  by (auto simp: case_sum_Inr_iff or_return_Inr_iff bind_eq_Some_conv)

lemma attach_transaction_Inr:
  assumes "attach_transaction env q enc p opts = ret (Inr q')"
  shows "\<exists>tx b. oq_transaction q' = Some tx \<and> oq_fee_breakdown q' = Some b
      \<and> fb_min_amount_received b = fb_min_amount_received (pp_fee_breakdown p)"
    "oq_amount_out q' = sl_expected_amount_out (pp_solution p)" "oq_status q' = oq_status q"
    "oq_route q' = oq_route q" "oq_amount_in q' = oq_amount_in q" "oq_worker_pool q' = oq_worker_pool q"
    "net_le_out q \<Longrightarrow> net_le_out q'"
proof -
  obtain encoded tx calldata decoded where w: "write_call env q p opts encoded tx calldata decoded = ret q'"
    using attach_transaction_steps [OF assms] by blast
  note write_call_Some [OF w]
  then show "\<exists>tx b. oq_transaction q' = Some tx \<and> oq_fee_breakdown q' = Some b
      \<and> fb_min_amount_received b = fb_min_amount_received (pp_fee_breakdown p)"
    "oq_amount_out q' = sl_expected_amount_out (pp_solution p)" "oq_status q' = oq_status q"
    "oq_route q' = oq_route q" "oq_amount_in q' = oq_amount_in q" "oq_worker_pool q' = oq_worker_pool q"
    "net_le_out q \<Longrightarrow> net_le_out q'"
    by simp_all
qed

lemma encode_quote_Inr:
  assumes "encode_quote env q opts fees = ret (Inr q')"
  shows "\<exists>p. prepare_solution env q opts fees = ret (Inr p)
    \<and> attach_transaction env q (encoded_solution_of env (pp_solution p)) p opts = ret (Inr q')"
  using assms by (auto simp: encode_quote_def bind_eq_Some_conv or_return_Inr_iff)

lemma encode_quote_outcome:
  assumes "encode_quote env q opts fees = ret (Inr q')"
  shows "oq_status q' = QSuccess" "oq_worker_pool q' = oq_worker_pool q" "oq_transaction q' \<noteq> None"
proof -
  obtain p where p: "prepare_solution env q opts fees = ret (Inr p)"
    "attach_transaction env q (encoded_solution_of env (pp_solution p)) p opts = ret (Inr q')"
    using encode_quote_Inr [OF assms] by blast
  show "oq_status q' = QSuccess" "oq_worker_pool q' = oq_worker_pool q" "oq_transaction q' \<noteq> None"
    using prepare_solution_Inr(1) [OF p(1)] attach_transaction_Inr [OF p(2)] by auto
qed

text \<open>C27: a quote that encodes keeps its status, route and input, carries a transaction and a fee
  breakdown with a positive minimum amount, reports at least the output it had before, and keeps
  its net amount at most its output. A route with a committed exclusive leg encodes only when a
  signing key is configured.\<close>

theorem encoded_quote_guarantees:
  assumes "encode_quote env q opts fees = ret (Inr q')"
  shows "(\<exists>tx b. oq_transaction q' = Some tx \<and> oq_fee_breakdown q' = Some b \<and> 0 < fb_min_amount_received b)
    \<and> oq_status q' = QSuccess \<and> oq_route q' = oq_route q \<and> oq_amount_in q' = oq_amount_in q
    \<and> oq_amount_out q \<le> oq_amount_out q' \<and> (net_le_out q \<longrightarrow> net_le_out q')
    \<and> (en_signer env = None \<longrightarrow> (\<forall>r. oq_route q = Some r \<longrightarrow> \<not> has_exclusive_leg r))"
proof -
  obtain p where p: "prepare_solution env q opts fees = ret (Inr p)"
    "attach_transaction env q (encoded_solution_of env (pp_solution p)) p opts = ret (Inr q')"
    using encode_quote_Inr [OF assms] by blast
  show ?thesis
    using prepare_solution_Inr [OF p(1)] attach_transaction_Inr [OF p(2)] by auto
qed

subsection \<open>Encoding does not panic\<close>

definition permit_in_range :: "permit_single \<Rightarrow> bool" where
  "permit_in_range p =
     (pd_amount (ps_details p) < 2 ^ 160 \<and> pd_expiration (ps_details p) < 2 ^ 48
      \<and> pd_nonce (ps_details p) < 2 ^ 48 \<and> ps_sig_deadline p < 2 ^ 256)"

text \<open>The values of a request fit the integers of the router call.\<close>

definition call_in_range :: "encoding_options \<Rightarrow> bool" where
  "call_in_range opts =
     ((\<forall>p. eo_permit opts = Some p \<longrightarrow> permit_in_range p)
      \<and> (\<forall>f. eo_client_fee_params opts = Some f \<longrightarrow> cf_max_contribution f < 2 ^ 256))"

definition hook_in_range :: "'s encoder_env \<Rightarrow> bool" where
  "hook_in_range env =
     (\<forall>hook q s s'. en_solution_hook env = Some hook \<longrightarrow> hook q s = Inr s' \<longrightarrow>
        sl_expected_amount_out s' < 2 ^ 256)"

lemma derive_fee_q32_not_panic [no_panic]: "derive_fee_q32 gross committed \<noteq> panic"
  by (simp add: derive_fee_q32_eq)

lemma input_floor_factor_not_panic [no_panic]: "input_floor_factor_bps slippage \<noteq> panic"
  using input_floor_factor_total [of slippage] by auto

lemma build_user_data_not_panic [no_panic]: "build_user_data keccak now sg s slippage \<noteq> panic"
  unfolding build_user_data_def sign_payload_def Let_def by (intro no_panic)

lemma stamp_leg_not_panic [no_panic]: "stamp_leg env signer q slippage x \<noteq> panic"
  unfolding stamp_leg_def by (intro no_panic)

lemma sign_solution_not_panic [no_panic]: "sign_solution env q opts solution \<noteq> panic"
  unfolding sign_solution_def stamp_exclusive_swaps_def by (intro no_panic)

lemma valid_client_fee_bps:
  "validate_encoding_options opts = Inr () \<Longrightarrow> client_fee_bps_of opts \<le> legacy_bps_denominator"
  by (auto simp: validate_encoding_options_def client_fee_bps_of_def legacy_bps_denominator_def
      split: option.splits if_splits)

lemma prepare_solution_not_panic:
  assumes "fees_in_range fees" "validate_encoding_options opts = Inr ()"
  shows "prepare_solution env q opts fees \<noteq> panic"
proof -
  let ?rates = "fees_for fees (fee_client opts q)"
  have range: "fee_units_in_range ?rates" using assms(1) by (simp add: fees_in_range_def)
  obtain r where r: "calculate_fee_breakdown (oq_amount_out q) (client_fee_bps_of opts)
      (eo_slippage opts) ?rates = ret r"
    using calculate_fee_breakdown_ret [OF range assms(2)] by blast
  have "calculate_fees out (client_fee_bps_of opts) ?rates \<noteq> panic" for out
    using calculate_fees_ok [OF range valid_client_fee_bps [OF assms(2)], of out] by auto
  then have "hook_solution env q opts ?rates b stamped \<noteq> panic" for b stamped
    unfolding hook_solution_def by (intro no_panic)
  then show ?thesis
    unfolding prepare_solution_def Let_def r bind.bind_lunit by (intro no_panic)
qed

lemma client_fee_arg_of_not_panic:
  assumes "abi_law abi" "call_in_range opts" "fee_units_in_range rates" "validate_encoding_options opts = Inr ()"
  shows "client_fee_arg_of abi opts rates \<noteq> panic"
proof (cases "eo_client_fee_params opts")
  case (Some f)
  then have "cf_max_contribution f < 2 ^ 256" "cf_bps f \<le> legacy_bps_denominator"
    using assms(2) valid_client_fee_bps [OF assms(4)] by (auto simp: call_in_range_def client_fee_bps_of_def)
  then obtain units where "client_fee_units rates (cf_bps f) = ret units"
    "ab_biguint_to_u256 abi (cf_max_contribution f) = ret (cf_max_contribution f)"
    using client_fee_units_ret [OF assms(3)] assms(1) by (auto simp: abi_law_def)
  then show ?thesis
    using Some by (intro notI) (auto simp: client_fee_arg_of_def or_return_panic_iff split: if_splits)
qed (simp add: client_fee_arg_of_def)

lemma permit_args_not_panic:
  assumes "abi_law abi" "call_in_range opts"
  shows "permit_args abi opts \<noteq> panic"
proof (cases "eo_permit opts")
  case (Some p)
  have "n < 2 ^ 160 \<Longrightarrow> n < 2 ^ 256" "n < 2 ^ 48 \<Longrightarrow> n < 2 ^ 256" for n :: nat by simp_all
  then show ?thesis
    using Some assms
    by (auto simp: permit_args_def Let_def or_return_panic_iff call_in_range_def permit_in_range_def abi_law_def
        split: option.splits)
qed (simp add: permit_args_def)

lemma router_call_not_panic:
  assumes "abi_law abi" "call_in_range opts" "fee_units_in_range rates" "validate_encoding_options opts = Inr ()"
    and "sl_amount_in solution < 2 ^ 256" "sl_expected_amount_out solution < 2 ^ 256"
      "sl_min_amount_out solution < 2 ^ 256"
  shows "encode_tycho_router_call abi jit encoded solution opts rates \<noteq> panic"
proof -
  have u: "n < 2 ^ 256 \<Longrightarrow> ab_biguint_to_u256 abi n = ret n" for n using assms(1) by (simp add: abi_law_def)
  show ?thesis
    unfolding encode_tycho_router_call_def Let_def u [OF assms(5)] u [OF assms(6)] u [OF assms(7)] bind.bind_lunit
    using client_fee_arg_of_not_panic [OF assms(1-4)] permit_args_not_panic [OF assms(1,2)]
    by (intro no_panic)
qed

lemma encode_quote_not_panic:
  assumes "fees_in_range fees" "validate_encoding_options opts = Inr ()" "abi_law (en_abi env)"
    "call_in_range opts" "hook_in_range env" "oq_amount_in q < 2 ^ 256" "oq_amount_out q < 2 ^ 256"
  shows "encode_quote env q opts fees \<noteq> panic"
proof -
  have "attach_transaction env q enc p opts \<noteq> panic" if p: "prepare_solution env q opts fees = ret (Inr p)" for enc p
  proof -
    have "sl_expected_amount_out (pp_solution p) < 2 ^ 256"
      using prepare_solution_Inr(8) [OF p] assms(5,7) by (auto simp: hook_in_range_def)
    moreover have "fee_units_in_range (pp_fee_rates p)"
      using assms(1) prepare_solution_Inr(6) [OF p] by (simp add: fees_in_range_def)
    ultimately have "encode_tycho_router_call (en_abi env) (en_jit_router_address env) encoded
        (pp_solution p) opts (pp_fee_rates p) \<noteq> panic" for encoded
      using prepare_solution_Inr(5,7) [OF p] assms(6,7)
      by (intro router_call_not_panic [OF assms(3,4) _ assms(2)]) linarith+
    then show ?thesis
      unfolding attach_transaction_def using write_call_not_panic by (intro no_panic)
  qed
  then show ?thesis
    unfolding encode_quote_def using prepare_solution_not_panic [OF assms(1,2)] by (intro no_panic) blast+
qed

lemma encode_quotes_eq:
  assumes "\<And>q. q \<in> set quotes \<Longrightarrow> encode_quote env q opts fees \<noteq> panic"
  shows "encode_quotes env quotes opts fees late = Inr (map (\<lambda>(i, q).
      (i, if late i then Inl (FailedEncoding ''the quote did not encode before the deadline'')
          else the (encode_quote env q opts fees)))
    (filter (\<lambda>(i, q). oq_status q = QSuccess) (List.enumerate 0 quotes)))"
proof -
  let ?sel = "filter (\<lambda>(i, q). oq_status q = QSuccess) (List.enumerate 0 quotes)"
  let ?res = "\<lambda>(i, q). (i, if late i then Inl (FailedEncoding ''the quote did not encode before the deadline'')
      else the (encode_quote env q opts fees))"
  have "map (\<lambda>(i, q). if late i
          then Inr (i, Inl (FailedEncoding ''the quote did not encode before the deadline''))
          else case encode_quote env q opts fees of
                 None \<Rightarrow> Inl (FailedEncoding ''the encoding task failed'')
               | Some result \<Rightarrow> Inr (i, result)) ?sel = map (\<lambda>x. Inr (?res x)) ?sel"
  proof (rule map_cong [OF refl])
    fix x assume "x \<in> set ?sel"
    then obtain i q where x: "x = (i, q)" and "q \<in> set quotes"
      by (auto simp: in_set_enumerate_eq)
    then obtain r where "encode_quote env q opts fees = ret r" using assms by blast
    then show "(case x of (i, q) \<Rightarrow> if late i
          then Inr (i, Inl (FailedEncoding ''the quote did not encode before the deadline''))
          else case encode_quote env q opts fees of
                 None \<Rightarrow> Inl (FailedEncoding ''the encoding task failed'')
               | Some result \<Rightarrow> Inr (i, result)) = Inr (?res x)" by (simp add: x)
  qed
  then show ?thesis by (simp only: encode_quotes_def collect_results_map_Inr)
qed

lemma encode_until_eq:
  assumes "en_router_deployed env" "eo_jit_router opts \<longrightarrow> en_jit_router_address env \<noteq> None"
    and "fees_in_range fees" "validate_encoding_options opts = Inr ()"
    and "abi_law (en_abi env)" "call_in_range opts" "hook_in_range env"
    and "\<And>q. q \<in> set quotes \<Longrightarrow> oq_amount_in q < 2 ^ 256 \<and> oq_amount_out q < 2 ^ 256"
  shows "encode_until env quotes opts fees late =
    Inr (map (\<lambda>(i, q). encoded_outcome env opts fees late i q) (List.enumerate 0 quotes))"
proof -
  define res where "res = (\<lambda>i q. if late i
      then Inl (FailedEncoding ''the quote did not encode before the deadline'')
      else the (encode_quote env q opts fees))"
  define sel where "sel = filter (\<lambda>(i, q). oq_status q = QSuccess) (List.enumerate 0 quotes)"
  define rs where "rs = map (\<lambda>(i, q). (i, res i q)) sel"
  have np: "encode_quote env q opts fees \<noteq> panic" if "q \<in> set quotes" for q
    using encode_quote_not_panic [OF assms(3-7)] assms(8) [OF that] by blast
  have sel: "(i, q) \<in> set sel \<longleftrightarrow> i < length quotes \<and> q = quotes ! i \<and> oq_status q = QSuccess" for i q
    by (auto simp: sel_def in_set_enumerate_eq)
  have "map fst rs = map fst sel" by (simp add: rs_def comp_def split_beta)
  then have dist: "distinct (map fst rs)"
    by (simp add: sel_def distinct_map_filter del: map_eq_conv)
  have look: "map_of rs i = (if oq_status (quotes ! i) = QSuccess then Some (res i (quotes ! i)) else None)"
    if i: "i < length quotes" for i
  proof (cases "oq_status (quotes ! i) = QSuccess")
    case True
    then have "(i, quotes ! i) \<in> set sel" using i sel by simp
    then have "(i, res i (quotes ! i)) \<in> set rs" by (auto simp: rs_def intro!: rev_image_eqI)
    then show ?thesis using True dist by (simp add: map_of_is_SomeI)
  next
    case False
    then have "i \<notin> fst ` set rs" using sel by (auto simp: rs_def)
    then show ?thesis using False by (simp add: map_of_eq_None_iff)
  qed
  have bound: "\<forall>r \<in> set rs. fst r < length quotes" using sel by (auto simp: rs_def)
  have outcome: "fold store_encoded rs quotes ! i = encoded_outcome env opts fees late i (quotes ! i)"
    if i: "i < length quotes" for i
  proof -
    obtain r where r: "encode_quote env (quotes ! i) opts fees = ret r" using np i by fastforce
    show ?thesis
      unfolding fold_store_encoded_nth [OF dist bound i] look [OF i] encoded_outcome_def r res_def
      by (cases r) simp_all
  qed
  have "fold store_encoded rs quotes =
      map (\<lambda>(i, q). encoded_outcome env opts fees late i q) (List.enumerate 0 quotes)"
    by (rule nth_equalityI) (simp_all add: outcome nth_enumerate_eq)
  moreover have "encode_quotes env quotes opts fees late = Inr rs"
    by (subst encode_quotes_eq) (simp_all add: np rs_def sel_def res_def)
  ultimately show ?thesis
    using assms(1,2) by (auto simp: encode_until_def check_jit_router_encoding_def)
qed


subsection \<open>Examples\<close>

definition example_address :: "char \<Rightarrow> address" where
  "example_address c = replicate 20 c"

definition example_env :: "unit encoder_env" where
  "example_env =
     \<lparr>en_abi = example_abi, en_fallback = example_fallback_env,
      en_encode_solutions = (\<lambda>ss. Inr (map (\<lambda>_. example_encoded) ss)), en_router_deployed = True,
      en_jit_router_address = None, en_signer = None, en_now = Some 5, en_nonce_counter = (\<lambda>q i. 0),
      en_solution_hook = None, en_calldata_hook = None, en_calldata_watermark = None,
      en_show_error = (\<lambda>e. [])\<rparr>"

definition example_encodable :: "unit order_quote" where
  "example_encodable =
     (example_quote 50 40)
       \<lparr>oq_receiver := example_address (CHR ''R''),
        oq_route := Some
          \<lparr>rt_swaps = [example_swap (example_address (CHR ''A'')) (example_address (CHR ''B'')) 10 50],
           rt_tokens = (\<lambda>a. Some \<lparr>tk_address = a, tk_symbol = a, tk_decimals = 18\<rparr>),
           rt_fallback_amount_out = None\<rparr>\<rparr>"

lemma fallback_fees_in_range: "fees_in_range router_fees_fallback"
  by (simp add: fees_in_range_def fee_units_in_range_def fees_for_def router_fees_fallback_def)

lemma example_encoding_options: "validate_encoding_options (encoding_options_new (Finite 0)) = Inr ()"
  by (simp add: validate_encoding_options_def encoding_options_new_def)

lemma example_env_ranges:
  "abi_law (en_abi example_env)" "call_in_range (encoding_options_new (Finite 0))" "hook_in_range example_env"
  by (simp_all add: example_env_def example_abi_law call_in_range_def hook_in_range_def encoding_options_new_def)

lemma example_quote_amount_in [simp]: "oq_amount_in (example_quote out net) = 1000"
  by (simp_all add: example_quote_def order_quote_new_def)


lemma example_encodes:
  "\<exists>q'. encode_quote example_env example_encodable (encoding_options_new (Finite 0)) router_fees_fallback
     = ret (Inr q')"
proof -
  have "\<exists>p. prepare_solution example_env example_encodable (encoding_options_new (Finite 0)) router_fees_fallback
      = ret (Inr p) \<and> length (sl_token_in (pp_solution p)) = 20 \<and> length (sl_token_out (pp_solution p)) = 20
      \<and> length (sl_receiver (pp_solution p)) = 20 \<and> sl_amount_in (pp_solution p) = 1000
      \<and> sl_expected_amount_out (pp_solution p) = 50 \<and> sl_min_amount_out (pp_solution p) \<le> 50"
    by (simp add: prepare_solution_def calculate_fee_breakdown_def calculate_fees_def
        client_fee_units_def u64_mul_def u64_add_def fees_for_def router_fees_fallback_def
        fee_units_per_bps_def legacy_bps_denominator_def round_f64_def client_fee_bps_of_def
        encoding_options_new_def check_min_amount_out_def fee_breakdown_new_def solution_from_quote_def
        example_encodable_def input_token_def output_token_def example_swap_def example_address_def
        swap_new_def solution_swap_of_def example_env_def has_exclusive_leg_def sign_solution_def hook_solution_def)
  then obtain p where p: "prepare_solution example_env example_encodable (encoding_options_new (Finite 0))
      router_fees_fallback = ret (Inr p)"
    and s: "length (sl_token_in (pp_solution p)) = 20" "length (sl_token_out (pp_solution p)) = 20"
      "length (sl_receiver (pp_solution p)) = 20" "sl_amount_in (pp_solution p) = 1000"
      "sl_expected_amount_out (pp_solution p) = 50" "sl_min_amount_out (pp_solution p) \<le> 50" by blast
  have "\<exists>tx. encode_tycho_router_call example_abi None example_encoded (pp_solution p)
      (encoding_options_new (Finite 0)) (pp_fee_rates p) = ret (Inr tx)"
    using s by (simp add: encode_tycho_router_call_def example_encoded_def permit_args_def
        client_fee_arg_of_def encoding_options_new_def method_calldata_def Let_def)
  then obtain tx where tx: "encode_tycho_router_call example_abi None example_encoded (pp_solution p)
      (encoding_options_new (Finite 0)) (pp_fee_rates p) = ret (Inr tx)" by blast
  obtain decoded where "router_call_decode example_abi (es_function_signature example_encoded) (tx_data tx) = Inr decoded"
    using encoded_call_decodes [OF tx example_abi_law]
    by (auto simp: encoding_options_new_def example_encoded_def)
  then have "\<exists>q'. attach_transaction example_env example_encodable (Inr example_encoded) p
      (encoding_options_new (Finite 0)) = ret (Inr q')"
    using tx by (simp add: attach_transaction_def example_env_def write_call_def set_amount_out_eq Let_def)
  moreover have "encoded_solution_of example_env (pp_solution p) = Inr example_encoded"
    by (simp add: encoded_solution_of_def example_env_def)
  ultimately show ?thesis by (simp add: encode_quote_def p)
qed

theorem encoded_quote_guarantees_witness:
  "\<exists>q'. encode_quote example_env example_encodable (encoding_options_new (Finite 0)) router_fees_fallback
     = ret (Inr q') \<and> oq_transaction q' \<noteq> None \<and> 50 \<le> oq_amount_out q'"
proof -
  obtain q' where q': "encode_quote example_env example_encodable (encoding_options_new (Finite 0))
     router_fees_fallback = ret (Inr q')" using example_encodes by blast
  have "oq_amount_out example_encodable = 50" by (simp add: example_encodable_def)
  with encoded_quote_guarantees [OF q'] show ?thesis by (intro exI [of _ q']) (auto simp: q')
qed

end
