(* ===== verification/Retries.thy ===== *)
theory Retries
  imports Encoding
begin

text \<open>
  Encoding the best candidate of every order, with retries: \<open>encode_with_retries\<close> of
  \<open>src/fynd-core/src/worker_pool_router/mod.rs\<close>, and the RFQ test of
  \<open>src/fynd-core/src/feed/protocol_registry.rs\<close>.
\<close>

definition strip_fallback_prefix :: "string \<Rightarrow> string" where
  "strip_fallback_prefix p = (if take 9 p = ''fallback:'' then drop 9 p else p)"

definition is_rfq_protocol :: "string \<Rightarrow> bool" where
  "is_rfq_protocol p = (take 4 (strip_fallback_prefix p) = ''rfq:'')"

definition has_rfq_leg :: "'s order_quote \<Rightarrow> bool" where
  "has_rfq_leg q =
     (case oq_route q of None \<Rightarrow> False | Some r \<Rightarrow> list_ex (\<lambda>s. is_rfq_protocol (sw_protocol s)) (rt_swaps r))"

text \<open>
  The retries run in rounds. In each round every order still marked \<open>EncodingFailed\<close> takes its next
  candidate. \<open>expired k\<close> tells that the retry budget is spent when round \<open>k\<close> starts, \<open>late k j\<close> that
  the \<open>j\<close>-th candidate of round \<open>k\<close> is still encoding at the deadline.
\<close>

definition retryable_candidates :: "'s order_quote list \<Rightarrow> 's order_quote list" where
  "retryable_candidates candidates =
     filter (\<lambda>c. oq_status c = QSuccess \<and> \<not> has_rfq_leg c) (drop 1 candidates)"

fun pick_retries ::
  "nat \<Rightarrow> 's order_quote list \<Rightarrow> 's order_quote list list \<Rightarrow>
   ((nat \<times> 's order_quote) list \<times> 's order_quote list list) run" where
  "pick_retries i [] retries = ret ([], retries)"
| "pick_retries i (q # qs) [] =
     (if oq_status q \<noteq> QEncodingFailed then pick_retries (Suc i) qs [] else panic)"
| "pick_retries i (q # qs) (cs # retries) =
     (case pick_retries (Suc i) qs retries of
        None \<Rightarrow> panic
      | Some (batch, retries') \<Rightarrow>
          if oq_status q \<noteq> QEncodingFailed then ret (batch, cs # retries')
          else (case cs of
                  [] \<Rightarrow> ret (batch, [] # retries')
                | c # cs' \<Rightarrow> ret ((i, c) # batch, cs' # retries')))"

definition store_retried :: "nat \<times> 's order_quote \<Rightarrow> 's order_quote list \<Rightarrow> 's order_quote list" where
  "store_retried r quotes =
     (if oq_status (snd r) = QSuccess then quotes[fst r := snd r] else quotes)"

lemma pick_retries_size:
  "pick_retries i qs css = Some (batch, css') \<Longrightarrow>
     length css' = length css
     \<and> sum_list (map length css') + length batch = sum_list (map length css)"
proof (induction i qs css arbitrary: batch css' rule: pick_retries.induct)
  case (3 i q qs cs css)
  then obtain b css1 where r: "pick_retries (Suc i) qs css = Some (b, css1)"
    by (cases "pick_retries (Suc i) qs css") auto
  show ?case using 3(1) [OF r] 3(2) r by (auto split: if_splits list.splits)
qed (auto split: if_splits)

function retry_loop ::
  "'s encoder_env \<Rightarrow> encoding_options \<Rightarrow> router_fees \<Rightarrow> (nat \<Rightarrow> bool) \<Rightarrow> (nat \<Rightarrow> nat \<Rightarrow> bool) \<Rightarrow> nat \<Rightarrow>
   's order_quote list \<Rightarrow> 's order_quote list list \<Rightarrow> (solve_error + 's order_quote list) run" where
  "retry_loop env opts fees expired late k quotes retries =
     (case pick_retries 0 quotes retries of
        None \<Rightarrow> panic
      | Some (batch, retries') \<Rightarrow>
          if batch = [] then ret (Inr quotes)
          else if expired k then ret (Inr quotes)
          else case encode_until env (map snd batch) opts fees (late k) of
                 Inl e \<Rightarrow> ret (Inl e)
               | Inr retried \<Rightarrow>
                   retry_loop env opts fees expired late (Suc k)
                     (fold store_retried (zip (map fst batch) retried) quotes) retries')"
  by pat_completeness auto
termination
  by (relation "measure (\<lambda>(env, opts, fees, expired, late, k, quotes, retries). sum_list (map length retries))")
    (auto dest!: pick_retries_size simp flip: length_greater_0_conv)

declare retry_loop.simps [simp del]

definition encode_with_retries ::
  "'s encoder_env \<Rightarrow> 's order_quote list list \<Rightarrow> encoding_options \<Rightarrow> router_fees \<Rightarrow> (nat \<Rightarrow> bool) \<Rightarrow>
   (nat \<Rightarrow> nat \<Rightarrow> bool) \<Rightarrow> (solve_error + 's order_quote list) run" where
  "encode_with_retries env ranked opts fees expired late =
     (let best = concat (map (take 1) ranked); retries = map retryable_candidates ranked in
      or_return (encode_until env best opts fees (\<lambda>_. False)) (\<lambda>quotes.
        retry_loop env opts fees expired late 0 quotes retries))"

subsection \<open>One round\<close>

lemma pick_retries_total: "length qs = length css \<Longrightarrow> \<exists>r. pick_retries i qs css = ret r"
  by (induction i qs css rule: pick_retries.induct) (auto split: option.splits list.splits)

lemma pick_retries_spec:
  assumes "pick_retries i qs css = ret (batch, css')" "length qs = length css"
  shows "distinct (map fst batch)
    \<and> (\<forall>(j, c) \<in> set batch. i \<le> j \<and> j < i + length qs \<and> oq_status (qs ! (j - i)) = QEncodingFailed
         \<and> css ! (j - i) = c # css' ! (j - i))
    \<and> (\<forall>k < length qs. i + k \<notin> fst ` set batch \<longrightarrow>
         css' ! k = css ! k \<and> (oq_status (qs ! k) = QEncodingFailed \<longrightarrow> css ! k = []))"
  using assms
proof (induction i qs css arbitrary: batch css' rule: pick_retries.induct)
  case (3 i q qs cs css)
  obtain b css1 where r: "pick_retries (Suc i) qs css = ret (b, css1)"
    using 3(2) by (cases "pick_retries (Suc i) qs css") auto
  have l: "length qs = length css" using 3(3) by simp
  note ih = 3(1) [OF r l]
  have len: "length css1 = length css" using pick_retries_size [OF r] by simp
  have batch: "batch = (if oq_status q = QEncodingFailed \<and> cs \<noteq> [] then (i, hd cs) # b else b)"
    and css': "css' = (if oq_status q = QEncodingFailed \<and> cs \<noteq> [] then tl cs else cs) # css1"
    using 3(2) r by (auto split: if_splits list.splits)
  have far: "Suc i \<le> j" if "(j, c) \<in> set b" for j c using ih that by blast
  have "distinct (map fst batch)" using ih far by (force simp: batch)
  moreover have "\<forall>(j, c) \<in> set batch. i \<le> j \<and> j < i + length (q # qs)
      \<and> oq_status ((q # qs) ! (j - i)) = QEncodingFailed \<and> (cs # css) ! (j - i) = c # css' ! (j - i)"
  proof -
    have "i \<le> j \<and> j < i + length (q # qs) \<and> oq_status ((q # qs) ! (j - i)) = QEncodingFailed
        \<and> (cs # css) ! (j - i) = c # css' ! (j - i)" if "(j, c) \<in> set b" for j c
    proof -
      have "j - i = Suc (j - Suc i)" using far [OF that] by simp
      then show ?thesis using ih that far [OF that] by (auto simp: css')
    qed
    then show ?thesis by (auto simp: batch css')
  qed
  moreover have "\<forall>k < length (q # qs). i + k \<notin> fst ` set batch \<longrightarrow>
      css' ! k = (cs # css) ! k \<and> (oq_status ((q # qs) ! k) = QEncodingFailed \<longrightarrow> (cs # css) ! k = [])"
  proof (intro allI impI)
    fix k assume k: "k < length (q # qs)" "i + k \<notin> fst ` set batch"
    show "css' ! k = (cs # css) ! k \<and> (oq_status ((q # qs) ! k) = QEncodingFailed \<longrightarrow> (cs # css) ! k = [])"
    proof (cases k)
      case 0
      then show ?thesis using k by (auto simp: batch css' split: if_splits)
    next
      case (Suc m)
      then have "Suc i + m \<notin> fst ` set b" using k by (auto simp: batch split: if_splits)
      then show ?thesis using ih Suc k by (simp add: css')
    qed
  qed
  ultimately show ?case by blast
qed auto

lemma length_store_retried [simp]: "length (fold store_retried rs qs) = length qs"
  by (induction rs arbitrary: qs) (simp_all add: store_retried_def)

lemma fold_store_retried_nth:
  assumes "distinct (map fst rs)" "i < length qs"
  shows "fold store_retried rs qs ! i =
    (case map_of rs i of
       Some q \<Rightarrow> if oq_status q = QSuccess then q else qs ! i
     | None \<Rightarrow> qs ! i)"
  using assms
proof (induction rs arbitrary: qs)
  case (Cons r rs)
  obtain j q where r: "r = (j, q)" by force
  have "map_of rs j = None" using Cons.prems(1) r by (simp add: map_of_eq_None_iff)
  with Cons show ?case
    by (auto simp: r store_retried_def nth_list_update split: option.splits)
qed simp

subsection \<open>The invariant of the rounds\<close>

definition encoder_ready :: "'s encoder_env \<Rightarrow> encoding_options \<Rightarrow> router_fees \<Rightarrow> bool" where
  "encoder_ready env opts fees =
     (en_router_deployed env \<and> (eo_jit_router opts \<longrightarrow> en_jit_router_address env \<noteq> None)
      \<and> fees_in_range fees \<and> validate_encoding_options opts = Inr () \<and> abi_law (en_abi env)
      \<and> call_in_range opts \<and> hook_in_range env)"

definition amounts_fit :: "'s order_quote \<Rightarrow> bool" where
  "amounts_fit q = (oq_amount_in q < 2 ^ 256 \<and> oq_amount_out q < 2 ^ 256)"

definition encodable_ranking :: "'s order_quote list list \<Rightarrow> bool" where
  "encodable_ranking ranked =
     (\<forall>cs \<in> set ranked. cs \<noteq> [] \<and> oq_status (hd cs) \<noteq> QEncodingFailed \<and> (\<forall>c \<in> set cs. amounts_fit c))"

text \<open>What an order has come to after the candidates \<open>tried\<close>.\<close>

definition order_outcome ::
  "'s encoder_env \<Rightarrow> encoding_options \<Rightarrow> router_fees \<Rightarrow> (nat \<Rightarrow> nat \<Rightarrow> bool) \<Rightarrow> 's order_quote list \<Rightarrow>
   's order_quote list \<Rightarrow> 's order_quote \<Rightarrow> bool" where
  "order_outcome env opts fees late cs tried q \<longleftrightarrow>
     oq_status (hd cs) \<noteq> QSuccess \<and> q = hd cs
   \<or> (\<exists>c \<in> insert (hd cs) (set tried). encode_quote env c opts fees = ret (Inr q))
   \<or> q = set_status (hd cs) QEncodingFailed
     \<and> (\<forall>q'. encode_quote env (hd cs) opts fees \<noteq> ret (Inr q'))
     \<and> ((\<forall>k j. \<not> late k j) \<longrightarrow> (\<forall>c \<in> set tried. \<forall>q'. encode_quote env c opts fees \<noteq> ret (Inr q')))"

definition retry_inv ::
  "'s encoder_env \<Rightarrow> encoding_options \<Rightarrow> router_fees \<Rightarrow> (nat \<Rightarrow> nat \<Rightarrow> bool) \<Rightarrow> 's order_quote list list \<Rightarrow>
   's order_quote list \<Rightarrow> 's order_quote list list \<Rightarrow> bool" where
  "retry_inv env opts fees late ranked quotes retries \<longleftrightarrow>
     length quotes = length ranked \<and> length retries = length ranked
   \<and> (\<forall>i < length ranked. \<exists>tried. retryable_candidates (ranked ! i) = tried @ retries ! i
        \<and> order_outcome env opts fees late (ranked ! i) tried (quotes ! i))"

lemma encode_until_ready:
  assumes "encoder_ready env opts fees" "\<And>q. q \<in> set quotes \<Longrightarrow> amounts_fit q"
  shows "encode_until env quotes opts fees late =
    Inr (map (\<lambda>(i, q). encoded_outcome env opts fees late i q) (List.enumerate 0 quotes))"
  using assms by (intro encode_until_eq) (auto simp: encoder_ready_def amounts_fit_def)

lemma retryable_subset:
  assumes "c \<in> set (retryable_candidates cs)"
  shows "c \<in> set cs" "oq_status c = QSuccess"
  using assms by (auto simp: retryable_candidates_def dest: in_set_dropD)

lemma encoded_outcome_cases:
  assumes "oq_status c = QSuccess"
  shows "(encode_quote env c opts fees = ret (Inr (encoded_outcome env opts fees late i c)) \<and> \<not> late i)
       \<or> (encoded_outcome env opts fees late i c = set_status c QEncodingFailed
          \<and> (late i \<or> (\<forall>q'. encode_quote env c opts fees \<noteq> ret (Inr q'))))"
  using assms by (auto simp: encoded_outcome_def split: option.splits sum.splits)

lemma set_status_status [simp]: "oq_status (set_status q st) = st"
  by (simp add: set_status_def)

lemma order_outcome_retry:
  assumes "order_outcome env opts fees late cs tried q" "oq_status q = QEncodingFailed"
    "oq_status (hd cs) \<noteq> QEncodingFailed" "oq_status c = QSuccess"
    and r_def: "r = encoded_outcome env opts fees (late k) j c"
  shows "order_outcome env opts fees late cs (tried @ [c]) (if oq_status r = QSuccess then r else q)"
proof -
  have "\<not> (\<exists>c \<in> insert (hd cs) (set tried). encode_quote env c opts fees = ret (Inr q))"
    using encode_quote_outcome(1) assms(2) by fastforce
  then have q: "q = set_status (hd cs) QEncodingFailed"
    "\<forall>q'. encode_quote env (hd cs) opts fees \<noteq> ret (Inr q')"
    "(\<forall>k j. \<not> late k j) \<longrightarrow> (\<forall>c \<in> set tried. \<forall>q'. encode_quote env c opts fees \<noteq> ret (Inr q'))"
    using assms(1-3) by (auto simp: order_outcome_def)
  from encoded_outcome_cases [OF assms(4), of env opts fees "late k" j]
  show ?thesis
  proof
    assume e: "encode_quote env c opts fees = ret (Inr (encoded_outcome env opts fees (late k) j c)) \<and> \<not> late k j"
    then have "oq_status r = QSuccess" using encode_quote_outcome(1) by (auto simp: r_def)
    then show ?thesis using e by (auto simp: order_outcome_def r_def)
  next
    assume e: "encoded_outcome env opts fees (late k) j c = set_status c QEncodingFailed
      \<and> (late k j \<or> (\<forall>q'. encode_quote env c opts fees \<noteq> ret (Inr q')))"
    then show ?thesis using q by (auto simp: order_outcome_def r_def)
  qed
qed

lemma retry_round:
  assumes "encodable_ranking ranked" "retry_inv env opts fees late ranked quotes retries"
    "pick_retries 0 quotes retries = ret (batch, retries')"
    and retried: "retried = map (\<lambda>(i, q). encoded_outcome env opts fees (late k) i q) (List.enumerate 0 (map snd batch))"
  shows "retry_inv env opts fees late ranked (fold store_retried (zip (map fst batch) retried) quotes) retries'"
proof -
  have len: "length quotes = length ranked" "length retries = length ranked"
    using assms(2) by (auto simp: retry_inv_def)
  note spec = pick_retries_spec [OF assms(3)] and size = pick_retries_size [OF assms(3)]
  have dist: "distinct (map fst (zip (map fst batch) retried))"
    using spec len retried by simp
  have "\<exists>tried. retryable_candidates (ranked ! i) = tried @ retries' ! i
      \<and> order_outcome env opts fees late (ranked ! i) tried
          (fold store_retried (zip (map fst batch) retried) quotes ! i)" if i: "i < length ranked" for i
  proof -
    obtain tried where t: "retryable_candidates (ranked ! i) = tried @ retries ! i"
      "order_outcome env opts fees late (ranked ! i) tried (quotes ! i)"
      using assms(2) i by (auto simp: retry_inv_def)
    have nth: "fold store_retried (zip (map fst batch) retried) quotes ! i =
      (case map_of (zip (map fst batch) retried) i of
         Some q \<Rightarrow> if oq_status q = QSuccess then q else quotes ! i | None \<Rightarrow> quotes ! i)"
      using fold_store_retried_nth [OF dist] i len by simp
    show ?thesis
    proof (cases "i \<in> fst ` set batch")
      case True
      then obtain j where j: "j < length batch" "fst (batch ! j) = i" by (metis imageE in_set_conv_nth)
      define c where "c = snd (batch ! j)"
      have "(i, c) \<in> set batch" using j nth_mem [OF j(1)] unfolding c_def by (metis prod.collapse)
      then have st: "oq_status (quotes ! i) = QEncodingFailed" and css: "retries ! i = c # retries' ! i"
        using spec len by fastforce+
      have "c \<in> set (retryable_candidates (ranked ! i))" using t(1) css by simp
      note c = retryable_subset(2) [OF this]
      have hd: "oq_status (hd (ranked ! i)) \<noteq> QEncodingFailed"
        using assms(1) i by (simp add: encodable_ranking_def)
      have "retried ! j = encoded_outcome env opts fees (late k) j c"
        using j by (simp add: retried c_def nth_enumerate_eq)
      moreover have "map_of (zip (map fst batch) retried) i = Some (retried ! j)"
        using dist j by (intro map_of_is_SomeI) (auto simp: in_set_zip retried intro!: exI [of _ j])
      ultimately have "order_outcome env opts fees late (ranked ! i) (tried @ [c])
          (fold store_retried (zip (map fst batch) retried) quotes ! i)"
        unfolding nth using order_outcome_retry [OF t(2) st hd c] by simp
      then show ?thesis using t(1) css by (intro exI [of _ "tried @ [c]"]) simp
    next
      case False
      then have "map_of (zip (map fst batch) retried) i = None"
        by (auto simp: map_of_eq_None_iff dest!: set_zip_leftD)
      moreover have "retries' ! i = retries ! i" using spec len i False by auto
      ultimately show ?thesis using t unfolding nth by auto
    qed
  qed
  then show ?thesis using len size by (simp add: retry_inv_def)
qed

lemma retry_loop_settles:
  assumes "encoder_ready env opts fees" "encodable_ranking ranked"
    "retry_inv env opts fees late ranked quotes retries"
  shows "\<exists>qs retries'. retry_loop env opts fees expired late k quotes retries = ret (Inr qs)
    \<and> retry_inv env opts fees late ranked qs retries'
    \<and> ((\<forall>k. \<not> expired k) \<longrightarrow>
         (\<forall>i < length ranked. oq_status (qs ! i) = QEncodingFailed \<longrightarrow> retries' ! i = []))"
  using assms(3)
proof (induction "sum_list (map length retries)" arbitrary: k quotes retries rule: less_induct)
  case less
  have len: "length quotes = length ranked" "length retries = length ranked"
    using less.prems by (auto simp: retry_inv_def)
  obtain batch retries' where p: "pick_retries 0 quotes retries = ret (batch, retries')"
    using pick_retries_total [of quotes retries 0] len by auto
  note spec = pick_retries_spec [OF p] and size = pick_retries_size [OF p]
  consider "batch = []" | "batch \<noteq> []" "expired k" | "batch \<noteq> []" "\<not> expired k" by blast
  then show ?case
  proof cases
    case 1
    then have "\<forall>i < length ranked. oq_status (quotes ! i) = QEncodingFailed \<longrightarrow> retries ! i = []"
      using spec len by auto
    then show ?thesis using 1 p less.prems by (auto simp: retry_loop.simps [of _ _ _ _ _ k])
  next
    case 2
    then show ?thesis using p less.prems by (auto simp: retry_loop.simps [of _ _ _ _ _ k])
  next
    case 3
    have fit: "amounts_fit q" if q: "q \<in> set (map snd batch)" for q
    proof -
      obtain i where i: "(i, q) \<in> set batch" using q by auto
      then have "i < length ranked" "retries ! i = q # retries' ! i" using spec len by fastforce+
      then have "q \<in> set (retryable_candidates (ranked ! i))" "ranked ! i \<in> set ranked"
        using less.prems by (fastforce simp: retry_inv_def)+
      then show ?thesis using retryable_subset(1) assms(2) by (auto simp: encodable_ranking_def)
    qed
    let ?retried = "map (\<lambda>(i, q). encoded_outcome env opts fees (late k) i q) (List.enumerate 0 (map snd batch))"
    let ?quotes = "fold store_retried (zip (map fst batch) ?retried) quotes"
    have step: "retry_loop env opts fees expired late k quotes retries
        = retry_loop env opts fees expired late (Suc k) ?quotes retries'"
      using 3 p encode_until_ready [OF assms(1) fit, of "map snd batch" "late k"]
      by (subst retry_loop.simps) simp
    have "sum_list (map length retries') < sum_list (map length retries)"
      using size 3 by (simp flip: length_greater_0_conv)
    from less.hyps [OF this retry_round [OF assms(2) less.prems p refl]] show ?thesis
      unfolding step by blast
  qed
qed

lemma retry_inv_start:
  assumes "encodable_ranking ranked"
  shows "retry_inv env opts fees late ranked
    (map (\<lambda>(i, q). encoded_outcome env opts fees (\<lambda>_. False) i q) (List.enumerate 0 (map hd ranked)))
    (map retryable_candidates ranked)"
proof -
  have "order_outcome env opts fees late cs [] (encoded_outcome env opts fees (\<lambda>_. False) i (hd cs))"
    for cs i
  proof (cases "oq_status (hd cs) = QSuccess")
    case True
    from encoded_outcome_cases [OF this, of env opts fees "\<lambda>_. False" i] show ?thesis
      by (auto simp: order_outcome_def)
  qed (simp add: order_outcome_def encoded_outcome_def)
  then show ?thesis by (simp add: retry_inv_def nth_enumerate_eq)
qed


subsection \<open>Encoding keeps the worker pool of an answer\<close>

lemma collect_results_Inr: "collect_results rs = Inr xs \<Longrightarrow> rs = map Inr xs"
  by (induction rs arbitrary: xs rule: collect_results.induct) (auto split: sum.splits)

definition same_pool :: "'s order_quote \<Rightarrow> 's order_quote \<Rightarrow> bool" where
  "same_pool q q' = (oq_worker_pool q' = oq_worker_pool q)"

lemma fold_store_encoded_pools:
  assumes "list_all2 same_pool qs cur" "\<forall>(i, r) \<in> set rs. i < length qs \<and> (\<forall>q'. r = Inr q' \<longrightarrow> same_pool (qs ! i) q')"
  shows "list_all2 same_pool qs (fold store_encoded rs cur)"
  using assms
proof (induction rs arbitrary: cur)
  case (Cons x rs)
  obtain i r where x: "x = (i, r)" by force
  have i: "i < length qs" "i < length cur" using Cons.prems x by (auto dest: list_all2_lengthD)
  have "list_all2 same_pool (qs[i := qs ! i]) (store_encoded x cur)"
  proof (cases r)
    case (Inl e)
    have "same_pool (qs ! i) (set_status (cur ! i) QEncodingFailed)"
      using list_all2_nthD [OF Cons.prems(1) i(1)] by (simp add: same_pool_def set_status_def)
    from list_all2_update_cong [OF Cons.prems(1) this, of i] show ?thesis
      using Inl by (simp add: x store_encoded_def)
  next
    case (Inr q')
    then have "same_pool (qs ! i) q'" using Cons.prems(2) by (simp add: x)
    from list_all2_update_cong [OF Cons.prems(1) this, of i] show ?thesis
      using Inr by (simp add: x store_encoded_def)
  qed
  then show ?case using Cons by simp
qed simp

lemma encode_until_pools:
  assumes "encode_until env qs opts fees late = Inr qs'"
  shows "list_all2 same_pool qs qs'"
proof -
  obtain rs where rs: "encode_quotes env qs opts fees late = Inr rs" and qs': "qs' = fold store_encoded rs qs"
    using assms by (auto simp: encode_until_def split: if_splits sum.splits)
  have "\<forall>(i, r) \<in> set rs. i < length qs \<and> (\<forall>q'. r = Inr q' \<longrightarrow> same_pool (qs ! i) q')"
  proof (intro ballI, clarify, intro conjI allI impI)
    fix i r assume "(i, r) \<in> set rs"
    then have "Inr (i, r) \<in> set (map Inr rs :: (solve_error + _) list)" by simp
    then have "Inr (i, r) \<in> (\<lambda>(i, q).
               if late i
               then Inr (i, Inl (FailedEncoding ''the quote did not encode before the deadline''))
               else case encode_quote env q opts fees of
                      None \<Rightarrow> Inl (FailedEncoding ''the encoding task failed'')
                    | Some result \<Rightarrow> Inr (i, result)) ` set (List.enumerate 0 qs)"
      unfolding collect_results_Inr [OF rs [unfolded encode_quotes_def], symmetric] set_map
      by (rule subsetD [OF image_mono, rotated]) auto
    then obtain q where q: "(i, q) \<in> set (List.enumerate 0 qs)"
      and r: "r = Inl (FailedEncoding ''the quote did not encode before the deadline'')
        \<or> encode_quote env q opts fees = ret r"
      by (auto split: if_splits option.splits)
    then show "i < length qs" by (simp add: in_set_enumerate_eq)
    fix q' assume "r = Inr q'"
    then show "same_pool (qs ! i) q'"
      using r q encode_quote_outcome(2) by (auto simp: same_pool_def in_set_enumerate_eq)
  qed
  then show ?thesis
    unfolding qs' by (intro fold_store_encoded_pools) (simp_all add: list_all2_refl same_pool_def)
qed

lemma pick_retries_set:
  assumes "pick_retries i qs css = ret (batch, css')" "\<forall>cs \<in> set css. \<forall>q \<in> set cs. oq_worker_pool q \<in> S"
  shows "(\<forall>(j, c) \<in> set batch. oq_worker_pool c \<in> S) \<and> (\<forall>cs \<in> set css'. \<forall>q \<in> set cs. oq_worker_pool q \<in> S)"
  using assms
proof (induction i qs css arbitrary: batch css' rule: pick_retries.induct)
  case (3 i q qs cs css)
  obtain b css1 where r: "pick_retries (Suc i) qs css = ret (b, css1)"
    using 3(2) by (cases "pick_retries (Suc i) qs css") auto
  have rest: "(\<forall>(j, c) \<in> set b. oq_worker_pool c \<in> S) \<and> (\<forall>cs \<in> set css1. \<forall>q \<in> set cs. oq_worker_pool q \<in> S)"
    using 3(1) [OF r] 3(3) by simp
  show ?case
  proof (cases "oq_status q = QEncodingFailed")
    case False
    then show ?thesis using 3(2,3) r rest by auto
  next
    case True
    then show ?thesis using 3(2,3) r rest by (cases cs) auto
  qed
qed (auto split: if_splits)

lemma fold_store_retried_pools:
  "\<forall>q \<in> set qs. oq_worker_pool q \<in> S \<Longrightarrow> \<forall>(i, q) \<in> set rs. oq_worker_pool q \<in> S \<Longrightarrow>
     \<forall>q \<in> set (fold store_retried rs qs). oq_worker_pool q \<in> S"
proof (induction rs arbitrary: qs)
  case (Cons r rs)
  have "\<forall>q \<in> set (store_retried r qs). oq_worker_pool q \<in> S"
    using Cons.prems by (cases r) (auto simp: store_retried_def dest!: subsetD [OF set_update_subset_insert])
  from Cons.IH [OF this] show ?case using Cons.prems(2) by simp
qed simp

lemma retry_loop_pools:
  assumes "retry_loop env opts fees expired late k qs css = ret (Inr qs')"
    "\<forall>q \<in> set qs. oq_worker_pool q \<in> S" "\<forall>cs \<in> set css. \<forall>q \<in> set cs. oq_worker_pool q \<in> S"
  shows "length qs' = length qs \<and> (\<forall>q \<in> set qs'. oq_worker_pool q \<in> S)"
  using assms
proof (induction env opts fees expired late k qs css rule: retry_loop.induct)
  case (1 env opts fees expired late k qs css)
  obtain batch css' where p: "pick_retries 0 qs css = ret (batch, css')"
    using "1.prems"(1) by (cases "pick_retries 0 qs css") (auto simp: retry_loop.simps [of _ _ _ _ _ k])
  show ?case
  proof (cases "batch = [] \<or> expired k")
    case True
    then have "qs' = qs" using 1(2) p by (auto simp: retry_loop.simps [of _ _ _ _ _ k] split: if_splits)
    then show ?thesis using 1(3) by simp
  next
    case False
    then obtain retried where e: "encode_until env (map snd batch) opts fees (late k) = Inr retried"
      using 1(2) p by (cases "encode_until env (map snd batch) opts fees (late k)")
        (auto simp: retry_loop.simps [of _ _ _ _ _ k])
    let ?qs = "fold store_retried (zip (map fst batch) retried) qs"
    have step: "retry_loop env opts fees expired late (Suc k) ?qs css' = ret (Inr qs')"
      using 1(2) p e False by (simp add: retry_loop.simps [of _ _ _ _ _ k])
    note css' = pick_retries_set [OF p 1(4)]
    have "\<forall>q \<in> set retried. oq_worker_pool q \<in> S"
    proof
      fix q assume "q \<in> set retried"
      from list_all2_set2 [OF encode_until_pools [OF e] this] css'
      show "oq_worker_pool q \<in> S" by (auto simp: same_pool_def)
    qed
    then have "\<forall>(i, q) \<in> set (zip (map fst batch) retried). oq_worker_pool q \<in> S"
      by (auto dest: set_zip_rightD)
    from 1(1) [OF p refl _ _ e step fold_store_retried_pools [OF 1(3) this]] css' False show ?thesis by auto
  qed
qed

lemma encode_with_retries_pools:
  assumes "encode_with_retries env ranked opts fees expired late = ret (Inr qs)" "[] \<notin> set ranked"
    "\<forall>cs \<in> set ranked. \<forall>q \<in> set cs. oq_worker_pool q \<in> S"
  shows "length qs = length ranked \<and> (\<forall>q \<in> set qs. oq_worker_pool q \<in> S)"
proof -
  have best: "concat (map (take 1) ranked) = map hd ranked"
    using assms(2) by (induction ranked) (auto simp: take_Suc)
  obtain first where f: "encode_until env (map hd ranked) opts fees (\<lambda>_. False) = Inr first"
    and l: "retry_loop env opts fees expired late 0 first (map retryable_candidates ranked) = ret (Inr qs)"
    using assms(1) unfolding encode_with_retries_def best Let_def or_return_Inr_iff by blast
  have len: "length first = length ranked" using list_all2_lengthD [OF encode_until_pools [OF f]] by simp
  have "\<forall>q \<in> set first. oq_worker_pool q \<in> S"
  proof
    fix q assume "q \<in> set first"
    from list_all2_set2 [OF encode_until_pools [OF f] this] obtain cs where
      "cs \<in> set ranked" "oq_worker_pool q = oq_worker_pool (hd cs)" by (auto simp: same_pool_def)
    then show "oq_worker_pool q \<in> S" using assms(2,3) by (metis list.set_sel(1))
  qed
  moreover have "\<forall>cs \<in> set (map retryable_candidates ranked). \<forall>q \<in> set cs. oq_worker_pool q \<in> S"
    using assms(3) unfolding set_map by (blast dest: retryable_subset(1))
  ultimately have "length qs = length first \<and> (\<forall>q \<in> set qs. oq_worker_pool q \<in> S)"
    by (rule retry_loop_pools [OF l])
  then show ?thesis using len by simp
qed

lemma example_encoder_ready:
  "encoder_ready example_env (encoding_options_new (Finite 0)) router_fees_fallback"
  using example_env_ranges fallback_fees_in_range example_encoding_options
  by (simp add: encoder_ready_def example_env_def encoding_options_new_def)


end
