(* ===== verification/Router.thy ===== *)
theory Router
  imports Fanout PriceGuard Retries
begin

text \<open>
  The request pipeline of \<open>src/fynd-core/src/worker_pool_router/mod.rs\<close>: \<open>solve\<close>, encoding with
  retries, simulation and \<open>quote\<close>.

  \<open>router_env\<close> holds what a \<open>WorkerPoolRouter\<close> holds (pools, price guard, encoder, simulator) and
  what the code outside this development answers: the gas estimator of the Tycho crates, the
  simulator and the rendering of names. The events the fan-out of order \<open>i\<close> sees, the deadlines and
  the clock are inputs. The messages of internal errors are shortened. Start times, token prices and metrics are left out of the results.
\<close>

subsection \<open>Legs\<close>

datatype strategy = Single | Sequential | Split

definition derive_strategy :: "'s order_quote \<Rightarrow> strategy" where
  "derive_strategy q =
     (case oq_route q of
        None \<Rightarrow> Single
      | Some r \<Rightarrow>
          if length (rt_swaps r) = 1 then Single
          else if list_ex (\<lambda>s. f64_less (Finite 0) (sw_split s)) (rt_swaps r) then Split
          else Sequential)"

subsection \<open>The router\<close>

record 's router_env =
  re_solver_pools :: "solver_pool_handle list"
  re_min_responses :: nat
  re_encoder :: "'s encoder_env"
  re_router_fees :: router_fees
  re_price_guard :: "price_provider list option"
  re_simulator :: "('s order_quote \<Rightarrow> client_fee_params option \<Rightarrow> simulation_result) option"
  re_user_share_bps :: nat
  re_estimate_gas_usage :: "'s solution \<Rightarrow> strategy \<Rightarrow> biguint"
  re_drain :: "string set \<Rightarrow> string list"
  re_show_names :: "string list \<Rightarrow> string"

definition refine_quote ::
  "'s router_env \<Rightarrow> encoding_options \<Rightarrow> 's worker_pool_quote \<Rightarrow> (solve_error + 's worker_pool_quote) run" where
  "refine_quote env opts wq =
     (let q = wq_quote wq in
      if oq_status q \<noteq> QSuccess then ret (Inr wq)
      else
        or_return (solution_from_quote (en_fallback (re_encoder env)) q (oq_amount_out q) None) (\<lambda>solution.
          let refined_gas = re_estimate_gas_usage env
                (solution\<lparr>sl_user_transfer_type := eo_transfer_type opts\<rparr>) (derive_strategy q);
              naive_gas = oq_gas_estimate q in
          if 0 < naive_gas then do {
            new_net \<leftarrow> refined_net_amount_out (oq_amount_out q) (oq_amount_out_net_gas q) refined_gas naive_gas;
            ret (Inr (wq\<lparr>wq_quote := set_gas_estimate (set_amount_out_net_gas q new_net) refined_gas\<rparr>))
          }
          else ret (Inr wq)))"

text \<open>The loop over the quotes of all orders that both passes below make.\<close>

definition each_quote ::
  "('s worker_pool_quote \<Rightarrow> (solve_error + 's worker_pool_quote) run) \<Rightarrow> 's order_responses list \<Rightarrow>
   (solve_error + 's order_responses list) run" where
  "each_quote step responses =
     try_each (\<lambda>rs. do {
       stepped \<leftarrow> try_each step (os_quotes rs);
       or_return stepped (\<lambda>qs. ret (Inr (rs\<lparr>os_quotes := qs\<rparr>)))
     }) responses"

definition refine_gas_estimates ::
  "'s router_env \<Rightarrow> encoding_options \<Rightarrow> 's order_responses list \<Rightarrow> (solve_error + 's order_responses list) run" where
  "refine_gas_estimates env opts responses = each_quote (refine_quote env opts) responses"

definition drop_pamm_quote ::
  "'s router_env \<Rightarrow> encoding_options \<Rightarrow> 's worker_pool_quote \<Rightarrow> (solve_error + 's worker_pool_quote) run" where
  "drop_pamm_quote env opts wq =
     (let q = wq_quote wq in
      if oq_status q \<noteq> QSuccess then ret (Inr wq)
      else if Option.bind (oq_route q) rt_fallback_amount_out = None then ret (Inr wq)
      else do {
        clears \<leftarrow> fallback_clears_min_amount_out (en_show_error (re_encoder env)) (re_router_fees env) q opts;
        or_return clears (\<lambda>ok.
          if ok then ret (Inr wq)
          else ret (Inr (wq\<lparr>wq_quote := set_no_route_cause (set_status q QNoRouteFound)
                             (Some (RouteRejected (oq_order_id q) FallbackBelowMinAmountOut))\<rparr>)))
      })"

definition drop_pamm_quotes_below_min_amount_out ::
  "'s router_env \<Rightarrow> encoding_options \<Rightarrow> 's order_responses list \<Rightarrow> (solve_error + 's order_responses list) run" where
  "drop_pamm_quotes_below_min_amount_out env opts responses = each_quote (drop_pamm_quote env opts) responses"

definition rank_order ::
  "'s router_env \<Rightarrow> quote_options \<Rightarrow> 's order_responses \<times> allocation \<Rightarrow> 's order_quote list run" where
  "rank_order env opts x =
     (case x of (rs, a) \<Rightarrow>
        if al_exclusive_routing_active a then
          combine_with_surplus rs (al_scopes a) opts (rank_quotes (public_only rs (al_scopes a)) opts)
            (re_user_share_bps env)
        else ret (rank_quotes rs opts))"

definition started_at :: "'s order_quote list list \<Rightarrow> solve_error + 's order_quote list list" where
  "started_at per_order =
     (if list_ex (\<lambda>cs. cs = []) per_order then Inl (Internal ''order has no candidates'') else Inr per_order)"

definition into_best :: "'s order_quote list list \<Rightarrow> 's order_quote list run" where
  "into_best per_order = run_each (\<lambda>cs. case cs of [] \<Rightarrow> panic | c # _ \<Rightarrow> ret c) per_order"

definition guard_prices ::
  "'s router_env \<Rightarrow> quote_options \<Rightarrow> 's order_quote list list \<Rightarrow> (solve_error + 's order_quote list list) run" where
  "guard_prices env opts ranked =
     (case (re_price_guard env,
            Option.bind (qo_encoding_options opts)
              (\<lambda>e. if pg_enabled (eo_price_guard e) then Some (eo_price_guard e) else None)) of
        (Some providers, Some config) \<Rightarrow>
          do {
            checked \<leftarrow> price_guard_validate providers ranked config;
            case checked of
              Inl _ \<Rightarrow> ret (Inl (Internal ''price guard''))
            | Inr kept \<Rightarrow> ret (Inr kept)
          }
      | (None, Some _) \<Rightarrow>
          ret (Inl (Internal ''price guard config provided but price guard is not enabled on this server''))
      | (_, None) \<Rightarrow> ret (Inr ranked))"

definition order_class_of :: "quote_options \<Rightarrow> exclusive_access \<Rightarrow> order_class" where
  "order_class_of opts access =
     \<lparr>oc_exclusive_access = access, oc_requires_tokens = (rc_required_tokens (qo_route_filter opts) \<noteq> {})\<rparr>"

definition prepare_responses ::
  "'s router_env \<Rightarrow> quote_options \<Rightarrow> 's order_responses list \<Rightarrow> (solve_error + 's order_responses list) run" where
  "prepare_responses env opts responses =
     (case qo_encoding_options opts of
        None \<Rightarrow> ret (Inr responses)
      | Some encoding_opts \<Rightarrow>
          do {
            r \<leftarrow> refine_gas_estimates env encoding_opts responses;
            or_return r (drop_pamm_quotes_below_min_amount_out env encoding_opts)
          })"

definition rank_and_guard ::
  "'s router_env \<Rightarrow> quote_options \<Rightarrow> ('s order_responses \<times> allocation) list \<Rightarrow>
   (solve_error + 's order_quote list list) run" where
  "rank_and_guard env opts responses =
     do {
       ranked \<leftarrow> run_each (rank_order env opts) responses;
       guarded \<leftarrow> guard_prices env opts ranked;
       or_return guarded (\<lambda>per_order. ret (started_at per_order))
     }"

definition solve ::
  "'s router_env \<Rightarrow> quote_request \<Rightarrow> exclusive_access \<Rightarrow> (nat \<Rightarrow> 's event list) \<Rightarrow>
   (solve_error + 's order_quote list list) run" where
  "solve env request access events =
     (let opts = qr_options request;
          min_responses = (case qo_min_responses opts of Some m \<Rightarrow> m | None \<Rightarrow> re_min_responses env);
          c = order_class_of opts access;
          allowlist = qo_worker_pools opts;
          pools = re_solver_pools env in
      if pools = [] then ret (Inl (Internal ''no solver pools configured''))
      else
        or_return (case allowlist of
                     None \<Rightarrow> Inr ()
                   | Some names \<Rightarrow> validate_pool_allowlist (re_show_names env) pools names) (\<lambda>_.
        let allocations = map (\<lambda>_. allocate pools c allowlist) (qr_orders request) in
        if list_ex allocation_is_empty allocations then
          (if oc_requires_tokens c
              \<and> \<not> allocation_is_empty (allocate pools (without_required_tokens c) allowlist)
           then ret (Inl RequiredTokensNotSupported)
           else ret (Inl (Internal ''no solver pool serves this request'')))
        else do {
          let responses = map (\<lambda>(i, (d, a)). solve_order (re_drain env) d min_responses a (events i))
                            (List.enumerate 0 (zip (qr_orders request) allocations));
          refined \<leftarrow> prepare_responses env opts responses;
          or_return refined (\<lambda>rs. rank_and_guard env opts (zip rs allocations))
        }))"

subsection \<open>Simulation and the final quote\<close>

definition simulate_quotes_for ::
  "'s router_env \<Rightarrow> 's order_quote list \<Rightarrow> encoding_options \<Rightarrow> solve_error + 's order_quote list" where
  "simulate_quotes_for env quotes opts =
     (if \<not> eo_simulate opts then Inr quotes
      else case re_simulator env of
             None \<Rightarrow> Inl (Internal ''simulation requested but simulation is not enabled on this server'')
           | Some simulate \<Rightarrow>
               Inr (map (\<lambda>q. if oq_status q = QSuccess
                             then set_simulation_result q (simulate q (eo_client_fee_params opts))
                             else q) quotes))"

definition finalize_quote :: "'s order_quote list \<Rightarrow> nat \<Rightarrow> 's quote" where
  "finalize_quote quotes solve_time_ms =
     \<lparr>qt_orders = quotes, qt_total_gas_estimate = fold (\<lambda>q acc. acc + oq_gas_estimate q) quotes 0,
      qt_solve_time_ms = solve_time_ms\<rparr>"

definition answer_orders ::
  "'s router_env \<Rightarrow> quote_options \<Rightarrow> (nat \<Rightarrow> bool) \<Rightarrow> (nat \<Rightarrow> nat \<Rightarrow> bool) \<Rightarrow> 's order_quote list list \<Rightarrow>
   (solve_error + 's order_quote list) run" where
  "answer_orders env opts expired late ranked =
     (case qo_encoding_options opts of
        Some encoding_opts \<Rightarrow>
          do {
            encoded \<leftarrow> encode_with_retries (re_encoder env) ranked encoding_opts (re_router_fees env) expired late;
            or_return encoded (\<lambda>qs. ret (simulate_quotes_for env qs encoding_opts))
          }
      | None \<Rightarrow> do { best \<leftarrow> into_best ranked; ret (Inr best) })"

definition quote_request_answer ::
  "'s router_env \<Rightarrow> quote_request \<Rightarrow> exclusive_access \<Rightarrow> (nat \<Rightarrow> 's event list) \<Rightarrow> (nat \<Rightarrow> bool) \<Rightarrow>
   (nat \<Rightarrow> nat \<Rightarrow> bool) \<Rightarrow> nat \<Rightarrow> (solve_error + 's quote) run" where
  "quote_request_answer env request access events expired late elapsed_ms =
     do {
       solved \<leftarrow> solve env request access events;
       or_return solved (\<lambda>ranked. do {
         answers \<leftarrow> answer_orders env (qr_options request) expired late ranked;
         or_return answers (\<lambda>qs. ret (Inr (finalize_quote qs elapsed_ms)))
       })
     }"

subsection \<open>A pass over the quotes keeps what it must\<close>

text \<open>The contract of a pass: a quote keeps its pool, route and amounts, and stays within its output.\<close>

locale quote_pass =
  fixes step :: "'s worker_pool_quote \<Rightarrow> (solve_error + 's worker_pool_quote) run"
  assumes keeps: "step wq = ret (Inr wq') \<Longrightarrow>
      wq_worker_pool wq' = wq_worker_pool wq
      \<and> oq_worker_pool (wq_quote wq') = oq_worker_pool (wq_quote wq)
      \<and> oq_route (wq_quote wq') = oq_route (wq_quote wq)
      \<and> oq_amount_in (wq_quote wq') = oq_amount_in (wq_quote wq)
      \<and> oq_amount_out (wq_quote wq') = oq_amount_out (wq_quote wq)
      \<and> (net_le_out (wq_quote wq) \<longrightarrow> net_le_out (wq_quote wq'))"
begin

lemma each_quote_keeps:
  assumes "each_quote step rss = ret (Inr rss')"
  shows "list_all2 (\<lambda>rs rs'. os_order_id rs' = os_order_id rs \<and> os_failed_solvers rs' = os_failed_solvers rs
      \<and> list_all2 (\<lambda>wq wq'. oq_worker_pool (wq_quote wq') = oq_worker_pool (wq_quote wq)
          \<and> (net_le_out (wq_quote wq) \<longrightarrow> net_le_out (wq_quote wq'))) (os_quotes rs) (os_quotes rs')) rss rss'"
proof -
  have "list_all2 (\<lambda>rs rs'. (do {
       stepped \<leftarrow> try_each step (os_quotes rs);
       or_return stepped (\<lambda>qs. ret (Inr (rs\<lparr>os_quotes := qs\<rparr>)))
     }) = ret (Inr rs')) rss rss'"
    using assms by (simp add: each_quote_def try_each_Inr)
  then show ?thesis
  proof (rule list_all2_mono)
    fix rs rs' assume "(do {
       stepped \<leftarrow> try_each step (os_quotes rs);
       or_return stepped (\<lambda>qs. ret (Inr (rs\<lparr>os_quotes := qs\<rparr>)))
     }) = ret (Inr rs')"
    then obtain qs where qs: "list_all2 (\<lambda>x y. step x = ret (Inr y)) (os_quotes rs) qs"
      and rs': "rs' = rs\<lparr>os_quotes := qs\<rparr>"
      by (auto simp: bind_eq_Some_conv or_return_Inr_iff try_each_Inr)
    have "list_all2 (\<lambda>wq wq'. oq_worker_pool (wq_quote wq') = oq_worker_pool (wq_quote wq)
          \<and> (net_le_out (wq_quote wq) \<longrightarrow> net_le_out (wq_quote wq'))) (os_quotes rs) qs"
      by (rule list_all2_mono [OF qs]) (drule keeps, simp)
    then show "os_order_id rs' = os_order_id rs \<and> os_failed_solvers rs' = os_failed_solvers rs
      \<and> list_all2 (\<lambda>wq wq'. oq_worker_pool (wq_quote wq') = oq_worker_pool (wq_quote wq)
          \<and> (net_le_out (wq_quote wq) \<longrightarrow> net_le_out (wq_quote wq'))) (os_quotes rs) (os_quotes rs')"
      by (simp add: rs')
  qed
qed

lemma each_quote_pools:
  assumes "each_quote step rss = ret (Inr rss')"
    and "\<forall>rs \<in> set rss. \<forall>wq \<in> set (os_quotes rs). oq_worker_pool (wq_quote wq) \<in> S"
  shows "length rss' = length rss
    \<and> (\<forall>rs \<in> set rss'. \<forall>wq \<in> set (os_quotes rs). oq_worker_pool (wq_quote wq) \<in> S)"
proof (intro conjI ballI)
  note k = each_quote_keeps [OF assms(1)]
  show "length rss' = length rss" using k by (simp add: list_all2_lengthD)
  fix rs' wq' assume q: "rs' \<in> set rss'" "wq' \<in> set (os_quotes rs')"
  obtain rs where rs: "rs \<in> set rss" and "list_all2 (\<lambda>wq wq'. oq_worker_pool (wq_quote wq') = oq_worker_pool (wq_quote wq)
          \<and> (net_le_out (wq_quote wq) \<longrightarrow> net_le_out (wq_quote wq'))) (os_quotes rs) (os_quotes rs')"
    using list_all2_set2 [OF k q(1)] by blast
  from list_all2_set2 [OF this(2) q(2)] obtain wq where "wq \<in> set (os_quotes rs)"
    "oq_worker_pool (wq_quote wq') = oq_worker_pool (wq_quote wq)" by blast
  with rs show "oq_worker_pool (wq_quote wq') \<in> S" using assms(2) by simp
qed

end

lemma refine_quote_keeps:
  assumes "refine_quote env opts wq = ret (Inr wq')"
  shows "wq_worker_pool wq' = wq_worker_pool wq
      \<and> oq_worker_pool (wq_quote wq') = oq_worker_pool (wq_quote wq)
      \<and> oq_route (wq_quote wq') = oq_route (wq_quote wq)
      \<and> oq_amount_in (wq_quote wq') = oq_amount_in (wq_quote wq)
      \<and> oq_amount_out (wq_quote wq') = oq_amount_out (wq_quote wq)
      \<and> (net_le_out (wq_quote wq) \<longrightarrow> net_le_out (wq_quote wq'))"
  using assms refined_net_le
  by (auto simp: refine_quote_def Let_def or_return_Inr_iff bind_eq_Some_conv order_quote_setters net_le_out_def
      split: if_splits)

interpretation refine_pass: quote_pass "refine_quote env opts" for env opts
  by unfold_locales (rule refine_quote_keeps)

interpretation drop_pass: quote_pass "drop_pamm_quote env opts" for env opts
  by unfold_locales
    (auto simp: drop_pamm_quote_def Let_def or_return_Inr_iff bind_eq_Some_conv order_quote_setters
      net_le_out_def split: if_splits)

subsection \<open>Which pools an answer can come from\<close>

definition request_allocation :: "'s router_env \<Rightarrow> quote_request \<Rightarrow> exclusive_access \<Rightarrow> allocation" where
  "request_allocation env request access =
     allocate (re_solver_pools env) (order_class_of (qr_options request) access)
       (qo_worker_pools (qr_options request))"

lemma prepare_responses_pools:
  assumes "prepare_responses env opts rss = ret (Inr rss')"
    and "\<forall>rs \<in> set rss. \<forall>wq \<in> set (os_quotes rs). oq_worker_pool (wq_quote wq) \<in> S"
  shows "length rss' = length rss
    \<and> (\<forall>rs \<in> set rss'. \<forall>wq \<in> set (os_quotes rs). oq_worker_pool (wq_quote wq) \<in> S)"
proof (cases "qo_encoding_options opts")
  case None
  then show ?thesis using assms by (simp add: prepare_responses_def)
next
  case (Some eo)
  then obtain mid where mid: "each_quote (refine_quote env eo) rss = ret (Inr mid)"
    "each_quote (drop_pamm_quote env eo) mid = ret (Inr rss')"
    using assms(1) by (auto simp: prepare_responses_def refine_gas_estimates_def
        drop_pamm_quotes_below_min_amount_out_def bind_eq_Some_conv or_return_Inr_iff)
  show ?thesis
    using refine_pass.each_quote_pools [OF mid(1) assms(2)] drop_pass.each_quote_pools [OF mid(2), of S] by simp
qed

lemma rank_quotes_pools:
  assumes "\<forall>wq \<in> set (os_quotes rs). oq_worker_pool (wq_quote wq) \<in> S" "q \<in> set (rank_quotes rs opts)"
  shows "oq_worker_pool q \<in> insert [] S"
  using assms by (auto simp: rank_quotes_def Let_def no_route_placeholder_def unanswered_placeholder_def
      order_quote_new_def set_no_route_cause_def split: if_splits list.splits)

lemma retain_loop_set:
  "retain_loop ps cfg qs passing best = ret (p, b) \<Longrightarrow>
     set p \<subseteq> set passing \<union> set qs \<and> set_option b \<subseteq> set_option best \<union> set qs"
proof (induction qs arbitrary: passing best)
  case (Cons q qs)
  then obtain ok where "passes_price_check ps cfg q = ret ok" by (auto simp: bind_eq_Some_conv)
  then show ?case using Cons by (cases ok) (fastforce split: option.splits)+
qed simp

lemma retain_valid_pools:
  assumes "retain_valid ps cfg cs = ret (Inr kept)" "\<forall>q \<in> set cs. oq_worker_pool q \<in> S" "q \<in> set kept"
  shows "oq_worker_pool q \<in> S"
proof (cases "case cs of [] \<Rightarrow> False | c # _ \<Rightarrow> oq_status c \<noteq> QSuccess")
  case True
  then show ?thesis using assms by (simp add: retain_valid_def)
next
  case False
  then obtain p b where l: "retain_loop ps cfg cs [] None = ret (p, b)"
    using assms(1) by (auto simp: retain_valid_def bind_eq_Some_conv)
  have "kept = p \<or> (\<exists>r. b = Some r \<and> kept = [set_status r QPriceCheckFailed])"
    using assms(1) False l by (auto simp: retain_valid_def split: if_splits option.splits)
  then show ?thesis
    using retain_loop_set [OF l] assms(2,3) by (auto simp: set_status_def)
qed

lemma validate_orders_pools:
  assumes "validate_orders ps cfg css = ret (Inr kept)" "\<forall>cs \<in> set css. \<forall>q \<in> set cs. oq_worker_pool q \<in> S"
  shows "length kept = length css \<and> (\<forall>cs \<in> set kept. \<forall>q \<in> set cs. oq_worker_pool q \<in> S)"
  using assms
proof (induction css arbitrary: kept)
  case (Cons cs css)
  then obtain k ks where k: "retain_valid ps cfg cs = ret (Inr k)" "validate_orders ps cfg css = ret (Inr ks)"
    "kept = k # ks" by (auto simp: bind_eq_Some_conv or_return_Inr_iff)
  have "\<forall>q \<in> set k. oq_worker_pool q \<in> S"
    using retain_valid_pools [OF k(1)] Cons.prems(2) by simp
  moreover have "length ks = length css \<and> (\<forall>cs \<in> set ks. \<forall>q \<in> set cs. oq_worker_pool q \<in> S)"
    using Cons.IH [OF k(2)] Cons.prems(2) by simp
  ultimately show ?case by (simp add: k(3))
qed simp

lemma guard_prices_pools:
  assumes "guard_prices env opts ranked = ret (Inr kept)"
    "\<forall>cs \<in> set ranked. \<forall>q \<in> set cs. oq_worker_pool q \<in> S"
  shows "length kept = length ranked \<and> (\<forall>cs \<in> set kept. \<forall>q \<in> set cs. oq_worker_pool q \<in> S)"
proof -
  have "kept = ranked \<or> (\<exists>ps cfg. validate_orders ps cfg ranked = ret (Inr kept))"
  proof (cases "re_price_guard env")
    case None
    then show ?thesis using assms(1) by (auto simp: guard_prices_def split: option.splits)
  next
    case (Some ps)
    show ?thesis
    proof (cases "Option.bind (qo_encoding_options opts)
        (\<lambda>e. if pg_enabled (eo_price_guard e) then Some (eo_price_guard e) else None)")
      case None
      then show ?thesis using assms(1) Some by (simp add: guard_prices_def)
    next
      case cfg: (Some cfg)
      then have "price_guard_validate ps ranked cfg = ret (Inr kept)"
        using assms(1) Some
        by (cases "price_guard_validate ps ranked cfg") (auto simp: guard_prices_def split: sum.splits)
      then show ?thesis by (auto simp: price_guard_validate_def split: if_splits)
    qed
  qed
  then show ?thesis using validate_orders_pools assms(2) by blast
qed

lemma solve_steps:
  assumes "solve env request access events = ret (Inr per_order)"
  shows "\<exists>m rs. prepare_responses env (qr_options request)
        (map (\<lambda>(i, (d, a)). solve_order (re_drain env) d m a (events i))
          (List.enumerate 0 (zip (qr_orders request)
             (map (\<lambda>_. request_allocation env request access) (qr_orders request))))) = ret (Inr rs)
      \<and> rank_and_guard env (qr_options request)
          (zip rs (map (\<lambda>_. request_allocation env request access) (qr_orders request))) = ret (Inr per_order)"
proof -
  note d = assms [unfolded solve_def Let_def or_return_Inr_iff]
  show ?thesis
    using d
    by (auto simp: or_return_Inr_iff bind_eq_Some_conv request_allocation_def split: if_splits)
qed

lemma collect_loop_pools:
  "\<forall>wq \<in> set (cs_quotes st). oq_worker_pool (wq_quote wq) \<in> S \<Longrightarrow> set (answer_names es) \<subseteq> S \<Longrightarrow>
     \<forall>wq \<in> set (cs_quotes (collect_loop drain a m es st)). oq_worker_pool (wq_quote wq) \<in> S"
proof (induction drain a m es st rule: collect_loop.induct)
  case (2 drain a m elapsed es st)
  then show ?case by (simp add: on_deadline_def)
next
  case (3 drain a m name e es st)
  then show ?case by (simp add: on_answer_quotes)
next
  case (4 drain a m name q es st)
  then show ?case by (simp add: on_answer_quotes Let_def set_worker_pool_def)
qed simp

lemma solve_order_pools:
  assumes "set (answer_names es) \<subseteq> S"
  shows "\<forall>wq \<in> set (os_quotes (solve_order drain d m a es)). oq_worker_pool (wq_quote wq) \<in> S"
  using collect_loop_pools [OF _ assms, of "collect_start a"] by (simp add: solve_order_def Let_def collect_start_def)

lemma rank_and_guard_pools:
  assumes "rank_and_guard env opts xs = ret (Inr per_order)" "\<forall>(rs, a) \<in> set xs. \<not> al_exclusive_routing_active a"
    "\<forall>(rs, a) \<in> set xs. \<forall>wq \<in> set (os_quotes rs). oq_worker_pool (wq_quote wq) \<in> S"
  shows "length per_order = length xs \<and> [] \<notin> set per_order
    \<and> (\<forall>cs \<in> set per_order. \<forall>q \<in> set cs. oq_worker_pool q \<in> insert [] S)"
proof -
  have ranked: "run_each (rank_order env opts) xs = ret (map (\<lambda>(rs, a). rank_quotes rs opts) xs)"
    using assms(2) by (auto simp: run_each_ret list_all2_map2 list_all2_same rank_order_def)
  obtain kept where k: "guard_prices env opts (map (\<lambda>(rs, a). rank_quotes rs opts) xs) = ret (Inr kept)"
    and s: "started_at kept = Inr per_order"
    using assms(1) by (auto simp: rank_and_guard_def ranked or_return_Inr_iff bind_eq_Some_conv)
  have "\<forall>cs \<in> set (map (\<lambda>(rs, a). rank_quotes rs opts) xs). \<forall>q \<in> set cs. oq_worker_pool q \<in> insert [] S"
    using assms(3) rank_quotes_pools [of _ S] by fastforce
  from guard_prices_pools [OF k this] s show ?thesis
    by (auto simp: started_at_def list_ex_iff split: if_splits)
qed

lemma into_best_pools:
  assumes "into_best css = ret qs" "\<forall>cs \<in> set css. \<forall>q \<in> set cs. oq_worker_pool q \<in> S"
  shows "length qs = length css \<and> (\<forall>q \<in> set qs. oq_worker_pool q \<in> S)"
proof -
  have l: "list_all2 (\<lambda>cs q. q \<in> set cs) css qs"
    by (rule list_all2_mono [OF assms(1) [unfolded into_best_def run_each_ret]]) (auto split: list.splits)
  then show ?thesis using assms(2) list_all2_set2 [OF l] by (fastforce dest: list_all2_lengthD)
qed

lemma solve_pools:
  assumes "solve env request Denied events = ret (Inr per_order)"
    "\<forall>i. set (answer_names (events i)) \<subseteq> S"
  shows "length per_order = length (qr_orders request) \<and> [] \<notin> set per_order
    \<and> (\<forall>cs \<in> set per_order. \<forall>q \<in> set cs. oq_worker_pool q \<in> insert [] S)"
proof -
  let ?a = "request_allocation env request Denied" and ?n = "length (qr_orders request)"
  obtain m rs where p: "prepare_responses env (qr_options request)
        (map (\<lambda>(i, (d, a)). solve_order (re_drain env) d m a (events i))
          (List.enumerate 0 (zip (qr_orders request) (map (\<lambda>_. ?a) (qr_orders request))))) = ret (Inr rs)"
    and g: "rank_and_guard env (qr_options request) (zip rs (map (\<lambda>_. ?a) (qr_orders request))) = ret (Inr per_order)"
    using solve_steps [OF assms(1)] by blast
  have "\<forall>r \<in> (\<lambda>(i, (d, a)). solve_order (re_drain env) d m a (events i)) ` X.
      \<forall>wq \<in> set (os_quotes r). oq_worker_pool (wq_quote wq) \<in> S" for X
    using solve_order_pools assms(2) by (intro ballI) (clarsimp, blast)
  then have prep: "length rs = ?n \<and> (\<forall>r \<in> set rs. \<forall>wq \<in> set (os_quotes r). oq_worker_pool (wq_quote wq) \<in> S)"
    using prepare_responses_pools [OF p, of S] unfolding set_map by (simp add: length_enumerate)
  have "\<not> al_exclusive_routing_active ?a"
    by (simp add: request_allocation_def denied_inactive order_class_of_def)
  then have inactive: "\<forall>(r, a) \<in> set (zip rs (map (\<lambda>_. ?a) (qr_orders request))). \<not> al_exclusive_routing_active a"
    by (auto dest: set_zip_rightD)
  have "\<forall>(r, a) \<in> set (zip rs (map (\<lambda>_. ?a) (qr_orders request))).
      \<forall>wq \<in> set (os_quotes r). oq_worker_pool (wq_quote wq) \<in> S"
    using prep by (auto dest: set_zip_leftD)
  from rank_and_guard_pools [OF g inactive this] prep show ?thesis by simp
qed

lemma simulate_quotes_pools:
  assumes "simulate_quotes_for env qs opts = Inr qs'" "\<forall>q \<in> set qs. oq_worker_pool q \<in> S"
  shows "length qs' = length qs \<and> (\<forall>q \<in> set qs'. oq_worker_pool q \<in> S)"
  using assms by (auto simp: simulate_quotes_for_def set_simulation_result_def split: if_splits option.splits)

lemma finalize_quote_gas:
  "qt_total_gas_estimate (finalize_quote qs ms) = sum_list (map oq_gas_estimate qs)"
proof -
  have "fold (\<lambda>q acc. acc + oq_gas_estimate q) qs g = g + sum_list (map oq_gas_estimate qs)" for g
    by (induction qs arbitrary: g) simp_all
  then show ?thesis by (simp add: finalize_quote_def)
qed

lemma answer_orders_pools:
  assumes "answer_orders env opts expired late ranked = ret (Inr qs)" "[] \<notin> set ranked"
    "\<forall>cs \<in> set ranked. \<forall>q \<in> set cs. oq_worker_pool q \<in> S"
  shows "length qs = length ranked \<and> (\<forall>q \<in> set qs. oq_worker_pool q \<in> S)"
proof (cases "qo_encoding_options opts")
  case None
  then have "into_best ranked = ret qs"
    using assms(1) by (simp add: answer_orders_def bind_eq_Some_conv)
  then show ?thesis by (rule into_best_pools [OF _ assms(3)])
next
  case (Some e)
  obtain enc where e: "encode_with_retries (re_encoder env) ranked e (re_router_fees env) expired late = ret (Inr enc)"
    and s: "simulate_quotes_for env enc e = Inr qs"
    using assms(1) by (auto simp: answer_orders_def Some bind_eq_Some_conv or_return_Inr_iff)
  note enc = encode_with_retries_pools [OF e assms(2,3)]
  then show ?thesis using simulate_quotes_pools [OF s, of S] by simp
qed

text \<open>C1: a caller without exclusive access gets one answer per order, and every answer either comes
  from no worker pool (a placeholder) or from an allocated one, which routes through public liquidity
  only, whatever the pools answer, in whatever order, and through refinement, ranking, the price
  guard, encoding with its retries and simulation; the reported gas is the total of the answers.\<close>

theorem denied_quote_public_only:
  assumes "quote_request_answer env request Denied events expired late elapsed_ms = ret (Inr qt)"
    and "\<forall>i. set (answer_names (events i)) \<subseteq>
          sp_name ` set (al_worker_pools (request_allocation env request Denied))"
  shows "length (qt_orders qt) = length (qr_orders request)
    \<and> qt_total_gas_estimate qt = sum_list (map oq_gas_estimate (qt_orders qt))
    \<and> (\<forall>q \<in> set (qt_orders qt). oq_worker_pool q = [] \<or>
         (\<exists>p \<in> set (re_solver_pools env). sp_name p = oq_worker_pool q \<and> sp_liquidity_scope p = PublicOnly))"
proof -
  let ?S = "sp_name ` set (al_worker_pools (request_allocation env request Denied))"
  obtain ranked qs where r: "solve env request Denied events = ret (Inr ranked)"
    and a: "answer_orders env (qr_options request) expired late ranked = ret (Inr qs)"
    and qt: "qt = finalize_quote qs elapsed_ms"
    using assms(1) unfolding quote_request_answer_def bind_eq_Some_conv or_return_Inr_iff by blast
  note ranked = solve_pools [OF r assms(2)]
  have qs: "length qs = length ranked \<and> (\<forall>q \<in> set qs. oq_worker_pool q \<in> insert [] ?S)"
    using ranked by (intro answer_orders_pools [OF a]) blast+
  have public: "sp_liquidity_scope p = PublicOnly \<and> p \<in> set (re_solver_pools env)"
    if "p \<in> set (al_worker_pools (request_allocation env request Denied))" for p
    using that denied_pool_scope [OF _ that [unfolded request_allocation_def]]
    by (simp add: request_allocation_def order_class_of_def allocate_worker_pools)
  have "\<forall>q \<in> set qs. oq_worker_pool q = [] \<or>
         (\<exists>p \<in> set (re_solver_pools env). sp_name p = oq_worker_pool q \<and> sp_liquidity_scope p = PublicOnly)"
  proof
    fix q assume "q \<in> set qs"
    then have "oq_worker_pool q = [] \<or> oq_worker_pool q \<in> ?S" using qs by simp
    then show "oq_worker_pool q = [] \<or>
         (\<exists>p \<in> set (re_solver_pools env). sp_name p = oq_worker_pool q \<and> sp_liquidity_scope p = PublicOnly)"
      using public by (elim disjE imageE) auto
  qed
  moreover have "qt_orders qt = qs" by (simp add: qt finalize_quote_def)
  ultimately show ?thesis using qs ranked finalize_quote_gas [of qs elapsed_ms, folded qt] by simp
qed

definition example_router :: "unit router_env" where
  "example_router =
     \<lparr>re_solver_pools = example_pools, re_min_responses = 1, re_encoder = example_env,
      re_router_fees = router_fees_fallback, re_price_guard = None, re_simulator = None,
      re_user_share_bps = 0, re_estimate_gas_usage = (\<lambda>_ _. 0), re_drain = sorted_list_of_set,
      re_show_names = concat\<rparr>"

definition example_request :: quote_request where
  "example_request = \<lparr>qr_orders = [example_order], qr_options = example_options\<rparr>"

lemma example_denied_allocation:
  "al_worker_pools (request_allocation example_router example_request Denied) = take 1 example_pools"
  by (simp add: request_allocation_def example_router_def example_request_def order_class_of_def allocate_def
      example_pools_def serves_def example_options_def Let_def)

lemma example_denied_solve:
  "solve example_router example_request Denied (\<lambda>_. [Answer ''pub'' (Inr example_answer)])
     = ret (Inr [[set_worker_pool (example_quote 50 40) ''pub'']])"
  by (simp add: solve_def example_router_def example_request_def order_class_of_def allocate_def
      example_pools_def serves_def example_options_def Let_def allocation_is_empty_def or_return_def
      solve_order_def collect_start_def on_answer_def early_return_def scope_ready_def allocation_is_exclusive_def
      example_answer_def prepare_responses_def rank_and_guard_def rank_order_def rank_quotes_def is_rankable_def
      within_max_gas_def guard_prices_def started_at_def set_worker_pool_def
      sort_desc_by_def)

theorem denied_quote_public_only_witness:
  "\<exists>qt. quote_request_answer example_router example_request Denied (\<lambda>_. [Answer ''pub'' (Inr example_answer)])
       (\<lambda>_. False) (\<lambda>_ _. False) 7 = ret (Inr qt) \<and> map oq_worker_pool (qt_orders qt) = [''pub'']
     \<and> (\<forall>q \<in> set (qt_orders qt). \<exists>p \<in> set example_pools. sp_name p = oq_worker_pool q \<and> sp_liquidity_scope p = PublicOnly)"
proof -
  let ?e = "\<lambda>_ :: nat. [Answer ''pub'' (Inr example_answer)]"
  let ?q = "finalize_quote [set_worker_pool (example_quote 50 40) ''pub''] 7"
  have a: "quote_request_answer example_router example_request Denied ?e (\<lambda>_. False) (\<lambda>_ _. False) 7 = ret (Inr ?q)"
    unfolding quote_request_answer_def example_denied_solve
    by (simp add: or_return_def answer_orders_def into_best_def example_request_def example_options_def)
  have "\<forall>i. set (answer_names (?e i)) \<subseteq> sp_name ` set (al_worker_pools (request_allocation example_router example_request Denied))"
    by (simp add: example_denied_allocation example_pools_def)
  from denied_quote_public_only [OF a this] show ?thesis
    using a by (auto simp: finalize_quote_def set_worker_pool_def example_router_def)
qed

end
