(* ===== verification/Market.thy ===== *)
theory Market
  imports Quotes Bytes "HOL-Library.Word" "HOL-Library.Sublist"
begin

text \<open>
  The market: \<open>MarketState\<close>, its overlays and its views (\<open>src/fynd-core/src/feed/market_data.rs\<close>),
  the swap directions of a component (\<open>types/topology.rs\<close>) and the per-worker component filter
  (\<open>feed/component_filter.rs\<close>).

  A hash map is a partial map and a hash set a set; an iterator over one is the list of its items in
  the order the iteration visits them. The read and write locks make every operation atomic, so an
  operation is a function on the state. A simulation state has the type \<open>'s\<close>. Of a block gas price
  only the effective price is read, so that is what is kept of it. A duration is in nanoseconds.
  The decoder of the swap directions attribute and its name belong to the simulation library.
\<close>

subsection \<open>Swap directions\<close>

type_synonym swap_direction = "address \<times> address"

record component_topology =
  ct_tokens :: "address list"
  ct_swap_directions :: "swap_direction list"

record topology_env =
  te_attribute :: string
  te_decode :: "string \<Rightarrow> string + swap_direction list"

text \<open>\<open>Itertools::tuple_combinations\<close> for pairs.\<close>

fun combinations :: "'a list \<Rightarrow> ('a \<times> 'a) list" where
  "combinations [] = []"
| "combinations (x # xs) = map (Pair x) xs @ combinations xs"

definition every_swap_direction :: "address list \<Rightarrow> swap_direction list" where
  "every_swap_direction tokens =
     concat (map (\<lambda>(first, second). [(first, second), (second, first)])
       (combinations (remdups_adj (sort tokens))))"

definition swap_directions :: "topology_env \<Rightarrow> protocol_component \<Rightarrow> swap_direction list" where
  "swap_directions env c =
     (case pc_static_attributes c (te_attribute env) of
        None \<Rightarrow> every_swap_direction (pc_tokens c)
      | Some attr \<Rightarrow>
          (case te_decode env attr of
             Inr directions \<Rightarrow>
               filter (\<lambda>(token_in, token_out). token_in \<in> set (pc_tokens c) \<and> token_out \<in> set (pc_tokens c))
                 directions
           | Inl _ \<Rightarrow> []))"

subsection \<open>Component filter\<close>

definition ends_with_colon :: "string \<Rightarrow> bool" where
  "ends_with_colon s = (s \<noteq> [] \<and> last s = CHR '':'')"

definition protocol_matches :: "string \<Rightarrow> string \<Rightarrow> bool" where
  "protocol_matches entry system = (if ends_with_colon entry then prefix entry system else system = entry)"

definition is_excluded_protocol :: "string list \<Rightarrow> protocol_component \<Rightarrow> bool" where
  "is_excluded_protocol exclude_protocols c =
     list_ex (\<lambda>entry. protocol_matches entry (pc_protocol_system c)) exclude_protocols"

subsection \<open>Sync status\<close>

record block_header =
  bh_number :: nat
  bh_hash :: string
  bh_timestamp :: nat

datatype synchronizer_state =
  Started | Ready block_header | Delayed block_header | Stale block_header | Advanced block_header | Ended string

text \<open>A duration of whole seconds, in nanoseconds.\<close>

definition from_secs :: "nat \<Rightarrow> nat" where
  "from_secs n = n * 10 ^ 9"

definition is_unsynced :: "synchronizer_state \<Rightarrow> nat option \<Rightarrow> nat \<Rightarrow> bool" where
  "is_unsynced status last_updated_timestamp max_sync_lag =
     (case status of
        Started \<Rightarrow> False
      | Ready _ \<Rightarrow> False
      | Advanced _ \<Rightarrow> False
      | Stale _ \<Rightarrow> True
      | Ended _ \<Rightarrow> True
      | Delayed header \<Rightarrow>
          (case last_updated_timestamp of
             None \<Rightarrow> False
           | Some last_updated \<Rightarrow> max_sync_lag < from_secs (last_updated - bh_timestamp header)))"

subsection \<open>The market state\<close>

record stored_component =
  st_component :: protocol_component
  st_swap_directions :: "swap_direction list"

record upserted_components =
  uc_new :: "component_id list"
  uc_reshaped :: "component_id list"

record 's market_state =
  mk_label :: state_label
  mk_components :: "component_id \<rightharpoonup> stored_component"
  mk_simulation_states :: "component_id \<rightharpoonup> 's"
  mk_tokens :: "address \<rightharpoonup> token"
  mk_gas_price :: "biguint option"
  mk_protocol_sync_status :: "string \<rightharpoonup> synchronizer_state"
  mk_last_updated :: "block_info option"
  mk_unsynced_protocols :: "string set"
  mk_unsynced_pools :: "component_id set"
  mk_components_by_protocol :: "string \<rightharpoonup> component_id set"
  mk_constraint_generation :: "64 word"

definition market_state_new :: "'s market_state" where
  "market_state_new =
     \<lparr>mk_label = [], mk_components = Map.empty, mk_simulation_states = Map.empty, mk_tokens = Map.empty,
      mk_gas_price = None, mk_protocol_sync_status = Map.empty, mk_last_updated = None,
      mk_unsynced_protocols = {}, mk_unsynced_pools = {}, mk_components_by_protocol = Map.empty,
      mk_constraint_generation = 0\<rparr>"

definition get_component :: "'s market_state \<Rightarrow> component_id \<Rightarrow> protocol_component option" where
  "get_component m i = map_option st_component (mk_components m i)"

definition components_by_protocol :: "'s market_state \<Rightarrow> string \<Rightarrow> component_id set" where
  "components_by_protocol m system =
     (case mk_components_by_protocol m system of None \<Rightarrow> {} | Some ids \<Rightarrow> ids)"

definition market_is_unsynced_pool :: "'s market_state \<Rightarrow> component_id \<Rightarrow> bool" where
  "market_is_unsynced_pool m i = (i \<in> mk_unsynced_pools m)"

definition stored_topology :: "stored_component \<Rightarrow> component_topology" where
  "stored_topology s = \<lparr>ct_tokens = pc_tokens (st_component s), ct_swap_directions = st_swap_directions s\<rparr>"

definition topology_of :: "'s market_state \<Rightarrow> component_id \<Rightarrow> component_topology option" where
  "topology_of m i = map_option stored_topology (mk_components m i)"

definition component_topology_of_market :: "'s market_state \<Rightarrow> component_id \<rightharpoonup> component_topology" where
  "component_topology_of_market m = (\<lambda>i. map_option stored_topology (mk_components m i))"

definition swap_directions_of :: "'s market_state \<Rightarrow> component_id \<Rightarrow> swap_direction list option" where
  "swap_directions_of m i = map_option st_swap_directions (mk_components m i)"

subsection \<open>Updates of the market state\<close>

text \<open>One component of \<open>MarketState::upsert_components\<close>.\<close>

definition upsert_component ::
  "topology_env \<Rightarrow> protocol_component \<Rightarrow> 's market_state \<times> upserted_components \<Rightarrow>
   's market_state \<times> upserted_components" where
  "upsert_component env c acc =
     (case acc of (m, u) \<Rightarrow>
        let i = pc_id c; directions = swap_directions env c; old = mk_components m i; is_new = (old = None);
            u' = (case old of
                    None \<Rightarrow> u\<lparr>uc_new := uc_new u @ [i]\<rparr>
                  | Some stored \<Rightarrow>
                      if st_swap_directions stored \<noteq> directions then u\<lparr>uc_reshaped := uc_reshaped u @ [i]\<rparr> else u);
            m1 = m\<lparr>mk_components := (mk_components m)(i \<mapsto> \<lparr>st_component = c, st_swap_directions = directions\<rparr>)\<rparr>;
            m2 = (if is_new \<and> pc_protocol_system c \<in> mk_unsynced_protocols m1
                  then m1\<lparr>mk_unsynced_pools := insert i (mk_unsynced_pools m1)\<rparr> else m1);
            m3 = m2\<lparr>mk_components_by_protocol := (mk_components_by_protocol m2)(pc_protocol_system c \<mapsto>
                        insert i (components_by_protocol m2 (pc_protocol_system c)))\<rparr>;
            m4 = (if is_new then m3\<lparr>mk_constraint_generation := mk_constraint_generation m3 + 1\<rparr> else m3)
        in (m4, u'))"

definition upsert_components ::
  "topology_env \<Rightarrow> protocol_component list \<Rightarrow> 's market_state \<Rightarrow> 's market_state \<times> upserted_components" where
  "upsert_components env cs m = fold (upsert_component env) cs (m, \<lparr>uc_new = [], uc_reshaped = []\<rparr>)"

definition upsert_tokens :: "token list \<Rightarrow> 's market_state \<Rightarrow> 's market_state" where
  "upsert_tokens tokens m = fold (\<lambda>t m. m\<lparr>mk_tokens := (mk_tokens m)(tk_address t \<mapsto> t)\<rparr>) tokens m"

definition refresh_unsynced_protocols :: "nat \<Rightarrow> 's market_state \<Rightarrow> 's market_state" where
  "refresh_unsynced_protocols max_sync_lag m =
     (let timestamp = map_option bi_timestamp (mk_last_updated m);
          unsynced = {system. \<exists>status. mk_protocol_sync_status m system = Some status
                                \<and> is_unsynced status timestamp max_sync_lag} in
      if unsynced = mk_unsynced_protocols m then m
      else m\<lparr>mk_unsynced_protocols := unsynced,
             mk_unsynced_pools := (\<Union>system \<in> unsynced. components_by_protocol m system),
             mk_constraint_generation := mk_constraint_generation m + 1\<rparr>)"

text \<open>The loop over the reported states: a newer \<open>Ready\<close> block replaces the newest one.\<close>

definition note_ready :: "synchronizer_state \<Rightarrow> block_info option \<Rightarrow> block_info option" where
  "note_ready status newest =
     (case status of
        Ready header \<Rightarrow>
          if (case newest of None \<Rightarrow> True | Some b \<Rightarrow> bi_number b < bh_number header)
          then Some \<lparr>bi_number = bh_number header, bi_hash = bh_hash header, bi_timestamp = bh_timestamp header\<rparr>
          else newest
      | _ \<Rightarrow> newest)"

definition update_sync_status ::
  "(string \<times> synchronizer_state) list \<Rightarrow> nat \<Rightarrow> 's market_state \<Rightarrow> 's market_state" where
  "update_sync_status sync_states max_sync_lag m =
     (let newest_ready = fold (\<lambda>(_, status). note_ready status) sync_states None;
          m1 = fold (\<lambda>(system, status) m.
                  m\<lparr>mk_protocol_sync_status := (mk_protocol_sync_status m)(system \<mapsto> status)\<rparr>) sync_states m in
      if sync_states = [] then m1
      else refresh_unsynced_protocols max_sync_lag
             (case newest_ready of None \<Rightarrow> m1 | Some b \<Rightarrow> m1\<lparr>mk_last_updated := Some b\<rparr>))"

definition remove_component :: "component_id \<Rightarrow> 's market_state \<Rightarrow> 's market_state" where
  "remove_component i m =
     (let m1 = (case mk_components m i of
                  None \<Rightarrow> m
                | Some stored \<Rightarrow>
                    let system = pc_protocol_system (st_component stored) in
                    m\<lparr>mk_components := (mk_components m)(i := None),
                      mk_constraint_generation := mk_constraint_generation m + 1,
                      mk_unsynced_pools := mk_unsynced_pools m - {i},
                      mk_components_by_protocol :=
                        (case mk_components_by_protocol m system of
                           None \<Rightarrow> mk_components_by_protocol m
                         | Some ids \<Rightarrow> (mk_components_by_protocol m)(system \<mapsto> ids - {i}))\<rparr>)
      in m1\<lparr>mk_simulation_states := (mk_simulation_states m1)(i := None)\<rparr>)"

definition remove_components :: "component_id list \<Rightarrow> 's market_state \<Rightarrow> 's market_state" where
  "remove_components ids m = fold remove_component ids m"

definition update_states :: "(component_id \<times> 's) list \<Rightarrow> 's market_state \<Rightarrow> 's market_state" where
  "update_states states m =
     fold (\<lambda>(i, s) m. m\<lparr>mk_simulation_states := (mk_simulation_states m)(i \<mapsto> s)\<rparr>) states m"

definition update_gas_price :: "biguint \<Rightarrow> 's market_state \<Rightarrow> 's market_state" where
  "update_gas_price p m = m\<lparr>mk_gas_price := Some p\<rparr>"

subsection \<open>Snapshots\<close>

definition index_by_protocol :: "(component_id \<rightharpoonup> stored_component) \<Rightarrow> string \<rightharpoonup> component_id set" where
  "index_by_protocol components =
     (\<lambda>system. let ids = {i. \<exists>s. components i = Some s \<and> pc_protocol_system (st_component s) = system} in
        if ids = {} then None else Some ids)"

definition extract_subset :: "component_id set \<Rightarrow> 's market_state \<Rightarrow> 's market_state" where
  "extract_subset ids m =
     (let components = mk_components m |` ids;
          token_addresses = (\<Union>s \<in> ran components. set (pc_tokens (st_component s))) in
      m\<lparr>mk_components := components,
        mk_simulation_states := mk_simulation_states m |` ids,
        mk_tokens := mk_tokens m |` token_addresses,
        mk_protocol_sync_status := Map.empty,
        mk_components_by_protocol := index_by_protocol components\<rparr>)"

definition merge_subset :: "'s market_state \<Rightarrow> 's market_state \<Rightarrow> 's market_state" where
  "merge_subset m other =
     m\<lparr>mk_components := mk_components m ++ mk_components other,
       mk_simulation_states := mk_simulation_states m ++ mk_simulation_states other,
       mk_tokens := mk_tokens m ++ mk_tokens other\<rparr>"

subsection \<open>Route constraints against the market\<close>

definition resolve_route_filter :: "'s market_state \<Rightarrow> route_constraints \<Rightarrow> resolved_route_constraints" where
  "resolve_route_filter m flt =
     \<lparr>rr_excluded_pools = rc_excluded_pools flt \<union>
        (\<Union>entry \<in> rc_excluded_protocols flt.
           if ends_with_colon entry
           then (\<Union>system \<in> {system \<in> dom (mk_components_by_protocol m). protocol_matches entry system}.
                   components_by_protocol m system)
           else components_by_protocol m entry),
      rr_excluded_tokens = rc_excluded_tokens flt,
      rr_required_tokens = rc_required_tokens flt,
      rr_unsynced_pools = mk_unsynced_pools m\<rparr>"

subsection \<open>Overlays and views\<close>

record 's overlay_entry =
  ov_states :: "component_id \<rightharpoonup> 's"
  ov_valid_until :: nat

record 's market_data =
  md_data :: "'s market_state"
  md_overlays :: "state_label \<rightharpoonup> 's overlay_entry"

record 's market_data_view =
  mv_base :: "'s market_state"
  mv_overlay :: "(state_label \<times> (component_id \<rightharpoonup> 's)) option"

datatype read_labeled_error = LabelNotFound state_label

definition market_read :: "'s market_data \<Rightarrow> 's market_data_view" where
  "market_read d = \<lparr>mv_base = md_data d, mv_overlay = None\<rparr>"

definition read_labeled :: "'s market_data \<Rightarrow> state_label \<Rightarrow> read_labeled_error + 's market_data_view" where
  "read_labeled d label =
     (case md_overlays d label of
        Some e \<Rightarrow> Inr \<lparr>mv_base = md_data d, mv_overlay = Some (label, ov_states e)\<rparr>
      | None \<Rightarrow>
          if mk_label (md_data d) = label then Inr \<lparr>mv_base = md_data d, mv_overlay = None\<rparr>
          else Inl (LabelNotFound label))"

definition register_labeled_state ::
  "state_label \<Rightarrow> (component_id \<rightharpoonup> 's) \<Rightarrow> nat \<Rightarrow> 's market_data \<Rightarrow> 's market_data" where
  "register_labeled_state label states valid_until d =
     d\<lparr>md_overlays := (md_overlays d)(label \<mapsto> \<lparr>ov_states = states, ov_valid_until = valid_until\<rparr>)\<rparr>"

definition remove_labeled_state :: "state_label \<Rightarrow> 's market_data \<Rightarrow> 's market_data" where
  "remove_labeled_state label d = d\<lparr>md_overlays := (md_overlays d)(label := None)\<rparr>"

definition clear_labeled_states :: "'s market_data \<Rightarrow> 's market_data" where
  "clear_labeled_states d = d\<lparr>md_overlays := Map.empty\<rparr>"

text \<open>\<open>u64::to_string\<close>: the decimal digits.\<close>

fun decimal :: "nat \<Rightarrow> string" where
  "decimal n = (if n < 10 then [char_of (48 + n)] else decimal (n div 10) @ [char_of (48 + n mod 10)])"

declare decimal.simps [simp del]

definition apply_block_update ::
  "nat \<Rightarrow> ('s market_state \<Rightarrow> 's market_state) \<Rightarrow> 's market_data \<Rightarrow> 's market_data" where
  "apply_block_update new_block_number update d =
     \<lparr>md_data = update ((md_data d)\<lparr>mk_label := decimal new_block_number\<rparr>),
      md_overlays = (\<lambda>label. case md_overlays d label of
         None \<Rightarrow> None
       | Some e \<Rightarrow> if new_block_number \<le> ov_valid_until e then Some e else None)\<rparr>"

definition view_get_simulation_state :: "'s market_data_view \<Rightarrow> component_id \<Rightarrow> 's option" where
  "view_get_simulation_state v i =
     (case mv_overlay v of
        Some (_, states) \<Rightarrow>
          (case states i of Some s \<Rightarrow> Some s | None \<Rightarrow> mk_simulation_states (mv_base v) i)
      | None \<Rightarrow> mk_simulation_states (mv_base v) i)"

definition extract_subset_with_overlay :: "component_id set \<Rightarrow> 's market_data_view \<Rightarrow> 's market_state" where
  "extract_subset_with_overlay ids v =
     (let subset = extract_subset ids (mv_base v) in
      case mv_overlay v of
        None \<Rightarrow> subset
      | Some (label, states) \<Rightarrow>
          subset\<lparr>mk_simulation_states :=
                   (\<lambda>i. if mk_simulation_states subset i \<noteq> None \<and> states i \<noteq> None then states i
                        else mk_simulation_states subset i),
                 mk_label := label\<rparr>)"

subsection \<open>Snapshots in batches\<close>

text \<open>
  The guard is released between two batches, so each batch may see another state: \<open>reads b\<close> is the
  state batch \<open>b\<close> of an attempt reads. A batch with another label than the first one ends the attempt.
\<close>

function chunks :: "nat \<Rightarrow> 'a list \<Rightarrow> 'a list list" where
  "chunks n xs = (if xs = [] \<or> n = 0 then [] else take n xs # chunks n (drop n xs))"
  by pat_completeness auto
termination by (relation "measure (\<lambda>(n, xs). length xs)") auto

declare chunks.simps [simp del]

fun batch_loop ::
  "(nat \<Rightarrow> 's market_state) \<Rightarrow> nat \<Rightarrow> component_id list list \<Rightarrow> 's market_state option \<Rightarrow>
   's market_state option option" where
  "batch_loop reads b [] merged = Some merged"
| "batch_loop reads b (chunk # cs) None =
     batch_loop reads (Suc b) cs (Some (extract_subset (set chunk) (reads b)))"
| "batch_loop reads b (chunk # cs) (Some snapshot) =
     (let part = extract_subset (set chunk) (reads b) in
      if mk_label part \<noteq> mk_label snapshot then None
      else batch_loop reads (Suc b) cs (Some (merge_subset snapshot part)))"

fun batch_attempts ::
  "nat \<Rightarrow> (nat \<Rightarrow> nat \<Rightarrow> 's market_state) \<Rightarrow> component_id list list \<Rightarrow> nat \<Rightarrow> 's market_state option" where
  "batch_attempts 0 reads cs a = None"
| "batch_attempts (Suc k) reads cs a =
     (case batch_loop (reads a) 0 cs None of
        Some merged \<Rightarrow> Some (case merged of Some m \<Rightarrow> m | None \<Rightarrow> market_state_new)
      | None \<Rightarrow> batch_attempts k reads cs (Suc a))"

definition extract_subset_in_batches ::
  "(nat \<Rightarrow> nat \<Rightarrow> 's market_state) \<Rightarrow> 's market_state \<Rightarrow> component_id list \<Rightarrow> nat \<Rightarrow> 's market_state run" where
  "extract_subset_in_batches reads now ids batch_size =
     (if ids = [] then ret (extract_subset {} now)
      else if batch_size = 0 then panic
      else case batch_attempts 3 reads (chunks batch_size ids) 0 of
             Some m \<Rightarrow> ret m
           | None \<Rightarrow> ret (extract_subset (set ids) now))"

definition extract_subset_batched ::
  "(nat \<Rightarrow> nat \<Rightarrow> 's market_state) \<Rightarrow> 's market_state \<Rightarrow> component_id list \<Rightarrow> 's market_state run" where
  "extract_subset_batched reads now ids = extract_subset_in_batches reads now ids 512"

subsection \<open>Well-formed markets\<close>

lemma combinations_iff:
  "distinct xs \<Longrightarrow> (a, b) \<in> set (combinations xs) \<or> (b, a) \<in> set (combinations xs) \<longleftrightarrow>
     a \<in> set xs \<and> b \<in> set xs \<and> a \<noteq> b"
  by (induction xs) auto

lemma sorted_distinct_remdups_adj: "sorted xs \<Longrightarrow> distinct (remdups_adj xs)"
  by (induction xs rule: remdups_adj.induct) auto

lemma set_every_swap_direction:
  "set (every_swap_direction tokens) = {(a, b). a \<in> set tokens \<and> b \<in> set tokens \<and> a \<noteq> b}"
proof -
  have mem: "(a, b) \<in> set (concat (map (\<lambda>(x, y). [(x, y), (y, x)]) cs)) \<longleftrightarrow> (a, b) \<in> set cs \<or> (b, a) \<in> set cs"
    for a b :: address and cs
    by (induction cs) auto
  have "distinct (remdups_adj (sort tokens))" by (simp add: sorted_distinct_remdups_adj)
  note combinations_iff [OF this, unfolded remdups_adj_set set_sort]
  then have "(a, b) \<in> set (every_swap_direction tokens) \<longleftrightarrow> a \<in> set tokens \<and> b \<in> set tokens \<and> a \<noteq> b" for a b
    unfolding every_swap_direction_def mem .
  then show ?thesis by blast
qed

lemma swap_directions_tokens:
  "(a, b) \<in> set (swap_directions env c) \<Longrightarrow> a \<in> set (pc_tokens c) \<and> b \<in> set (pc_tokens c)"
  by (auto simp: swap_directions_def set_every_swap_direction split: option.splits sum.splits)

text \<open>
  The invariant: a component is stored under its id with its own swap directions, the index by
  protocol lists exactly the stored components of each protocol, and the pools kept out of routing
  are exactly the stored components of the protocols out of sync.
\<close>

definition stored_under :: "'s market_state \<Rightarrow> component_id \<Rightarrow> string \<Rightarrow> bool" where
  "stored_under m i system = (\<exists>c. get_component m i = Some c \<and> pc_protocol_system c = system)"

definition market_inv :: "topology_env \<Rightarrow> 's market_state \<Rightarrow> bool" where
  "market_inv env m =
     ((\<forall>i s. mk_components m i = Some s \<longrightarrow>
         pc_id (st_component s) = i \<and> st_swap_directions s = swap_directions env (st_component s))
      \<and> (\<forall>system i. i \<in> components_by_protocol m system \<longleftrightarrow> stored_under m i system)
      \<and> (\<forall>i. i \<in> mk_unsynced_pools m \<longleftrightarrow> (\<exists>system \<in> mk_unsynced_protocols m. stored_under m i system)))"

text \<open>A component the market holds is sent again under the same protocol system.\<close>

definition keeps_system :: "'s market_state \<Rightarrow> protocol_component \<Rightarrow> bool" where
  "keeps_system m c =
     (case get_component m (pc_id c) of None \<Rightarrow> True | Some held \<Rightarrow> pc_protocol_system held = pc_protocol_system c)"

lemma market_invD:
  assumes "market_inv env m"
  shows "mk_components m i = Some s \<Longrightarrow>
      pc_id (st_component s) = i \<and> st_swap_directions s = swap_directions env (st_component s)"
    "i \<in> components_by_protocol m system \<longleftrightarrow> stored_under m i system"
    "i \<in> mk_unsynced_pools m \<longleftrightarrow> (\<exists>system \<in> mk_unsynced_protocols m. stored_under m i system)"
  using assms by (simp_all add: market_inv_def)

lemma market_invI:
  assumes "\<And>i s. mk_components m i = Some s \<Longrightarrow>
      pc_id (st_component s) = i \<and> st_swap_directions s = swap_directions env (st_component s)"
    "\<And>i system. i \<in> components_by_protocol m system \<longleftrightarrow> stored_under m i system"
    "\<And>i. i \<in> mk_unsynced_pools m \<longleftrightarrow> (\<exists>system \<in> mk_unsynced_protocols m. stored_under m i system)"
  shows "market_inv env m"
  using assms unfolding market_inv_def by blast

lemma market_inv_new: "market_inv env market_state_new"
  by (simp add: market_inv_def market_state_new_def components_by_protocol_def stored_under_def get_component_def)

lemma mk_components_upsert:
  "mk_components (fst (upsert_component env c (m, u))) =
     (mk_components m)(pc_id c \<mapsto> \<lparr>st_component = c, st_swap_directions = swap_directions env c\<rparr>)"
  by (simp add: upsert_component_def Let_def)

lemma get_component_upsert:
  "get_component (fst (upsert_component env c (m, u))) = (get_component m)(pc_id c \<mapsto> c)"
  by (auto simp: get_component_def mk_components_upsert)

lemma upsert_component_fields:
  "mk_unsynced_protocols (fst (upsert_component env c (m, u))) = mk_unsynced_protocols m"
  "mk_unsynced_pools (fst (upsert_component env c (m, u))) = mk_unsynced_pools m \<union>
     (if get_component m (pc_id c) = None \<and> pc_protocol_system c \<in> mk_unsynced_protocols m then {pc_id c} else {})"
  "components_by_protocol (fst (upsert_component env c (m, u))) system = components_by_protocol m system \<union>
     (if system = pc_protocol_system c then {pc_id c} else {})"
  by (auto simp: upsert_component_def get_component_def components_by_protocol_def Let_def)

lemma market_inv_upsert:
  assumes "market_inv env m" "keeps_system m c"
  shows "market_inv env (fst (upsert_component env c (m, u)))"
proof -
  let ?m = "fst (upsert_component env c (m, u))"
  have stored: "stored_under ?m i system \<longleftrightarrow>
      (if i = pc_id c then pc_protocol_system c = system else stored_under m i system)" for i system
    by (auto simp: stored_under_def get_component_upsert)
  have old: "stored_under m (pc_id c) system \<Longrightarrow> pc_protocol_system c = system" for system
    using assms(2) by (auto simp: stored_under_def keeps_system_def)
  have none: "get_component m (pc_id c) = None \<longleftrightarrow> \<not> stored_under m (pc_id c) (pc_protocol_system c)"
    using assms(2) by (auto simp: stored_under_def keeps_system_def split: option.splits)
  show ?thesis
  proof (rule market_invI)
    fix i s assume "mk_components ?m i = Some s"
    then show "pc_id (st_component s) = i \<and> st_swap_directions s = swap_directions env (st_component s)"
      using market_invD(1) [OF assms(1), of i s] by (cases "i = pc_id c") (auto simp: mk_components_upsert)
  next
    fix i system
    show "i \<in> components_by_protocol ?m system \<longleftrightarrow> stored_under ?m i system"
      using old [of system]
      by (auto simp: upsert_component_fields stored market_invD(2) [OF assms(1)])
  next
    fix i
    show "i \<in> mk_unsynced_pools ?m \<longleftrightarrow> (\<exists>system \<in> mk_unsynced_protocols ?m. stored_under ?m i system)"
    proof (cases "i = pc_id c")
      case True
      have "i \<in> mk_unsynced_pools ?m \<longleftrightarrow> pc_protocol_system c \<in> mk_unsynced_protocols m"
      proof (cases "stored_under m (pc_id c) (pc_protocol_system c)")
        case held: True
        then have "i \<in> mk_unsynced_pools m \<longleftrightarrow> pc_protocol_system c \<in> mk_unsynced_protocols m"
          using old unfolding market_invD(3) [OF assms(1)] True by blast
        then show ?thesis using none held by (simp add: upsert_component_fields)
      next
        case False
        then have "i \<notin> mk_unsynced_pools m"
          using old unfolding market_invD(3) [OF assms(1)] True by blast
        then show ?thesis using none False by (simp add: upsert_component_fields True)
      qed
      then show ?thesis by (simp add: upsert_component_fields stored True)
    qed (simp add: upsert_component_fields stored market_invD(3) [OF assms(1)])
  qed
qed

lemma remove_component_fields:
  "mk_components (remove_component i m) = (mk_components m)(i := None)"
  "mk_unsynced_protocols (remove_component i m) = mk_unsynced_protocols m"
  "mk_simulation_states (remove_component i m) = (mk_simulation_states m)(i := None)"
  by (auto simp: remove_component_def Let_def split: option.splits)

lemma stored_under_remove:
  "stored_under (remove_component i m) j system \<longleftrightarrow> j \<noteq> i \<and> stored_under m j system"
  by (auto simp: stored_under_def get_component_def remove_component_fields)

lemma stored_underI: "mk_components m i = Some s \<Longrightarrow> stored_under m i (pc_protocol_system (st_component s))"
  by (simp add: stored_under_def get_component_def)

lemma not_storedD: "mk_components m i = None \<Longrightarrow> \<not> stored_under m i system"
  by (simp add: stored_under_def get_component_def)

lemma remove_component_pools:
  assumes "market_inv env m"
  shows "mk_unsynced_pools (remove_component i m) = mk_unsynced_pools m - {i}"
    "components_by_protocol (remove_component i m) system = components_by_protocol m system - {i}"
proof -
  show "mk_unsynced_pools (remove_component i m) = mk_unsynced_pools m - {i}"
    using market_invD(3) [OF assms, of i] not_storedD
    by (cases "mk_components m i") (auto simp: remove_component_def Let_def)
  show "components_by_protocol (remove_component i m) system = components_by_protocol m system - {i}"
  proof (cases "mk_components m i")
    case None
    then show ?thesis
      using market_invD(2) [OF assms, of i system] not_storedD [OF None]
      by (simp add: remove_component_def components_by_protocol_def Let_def)
  next
    case (Some s)
    have "i \<in> components_by_protocol m system \<longleftrightarrow> system = pc_protocol_system (st_component s)"
      using Some unfolding market_invD(2) [OF assms] by (auto simp: stored_under_def get_component_def)
    then show ?thesis
      using Some by (auto simp: remove_component_def components_by_protocol_def Let_def split: option.splits if_splits)
  qed
qed

lemma market_inv_remove:
  assumes "market_inv env m"
  shows "market_inv env (remove_component i m)"
proof (rule market_invI)
  fix j s assume "mk_components (remove_component i m) j = Some s"
  then show "pc_id (st_component s) = j \<and> st_swap_directions s = swap_directions env (st_component s)"
    using market_invD(1) [OF assms, of j s] by (simp add: remove_component_fields split: if_splits)
qed (simp_all add: remove_component_pools [OF assms] remove_component_fields stored_under_remove
      market_invD [OF assms], blast+)

text \<open>The invariant does not read the other fields.\<close>

lemma market_inv_cong:
  assumes "mk_components m' = mk_components m" "mk_unsynced_protocols m' = mk_unsynced_protocols m"
    "mk_unsynced_pools m' = mk_unsynced_pools m" "mk_components_by_protocol m' = mk_components_by_protocol m"
  shows "market_inv env m' = market_inv env m"
  using assms by (simp add: market_inv_def components_by_protocol_def stored_under_def get_component_def)

lemma stored_under_cong:
  "mk_components m' = mk_components m \<Longrightarrow> stored_under m' i system = stored_under m i system"
  by (simp add: stored_under_def get_component_def)

lemma refresh_unsynced:
  "mk_unsynced_protocols (refresh_unsynced_protocols lag m) =
     {system. \<exists>status. mk_protocol_sync_status m system = Some status
        \<and> is_unsynced status (map_option bi_timestamp (mk_last_updated m)) lag}"
  by (simp add: refresh_unsynced_protocols_def Let_def)

lemma market_inv_refresh:
  assumes "market_inv env m"
  shows "market_inv env (refresh_unsynced_protocols lag m)"
proof -
  let ?u = "{system. \<exists>status. mk_protocol_sync_status m system = Some status
        \<and> is_unsynced status (map_option bi_timestamp (mk_last_updated m)) lag}"
  let ?m = "m\<lparr>mk_unsynced_protocols := ?u, mk_unsynced_pools := (\<Union>system \<in> ?u. components_by_protocol m system),
      mk_constraint_generation := mk_constraint_generation m + 1\<rparr>"
  have "market_inv env ?m"
  proof (rule market_invI)
    fix i s assume "mk_components ?m i = Some s"
    then show "pc_id (st_component s) = i \<and> st_swap_directions s = swap_directions env (st_component s)"
      using market_invD(1) [OF assms, of i s] by simp
  next
    fix i system
    show "i \<in> components_by_protocol ?m system \<longleftrightarrow> stored_under ?m i system"
      using market_invD(2) [OF assms, of i system]
      by (simp add: components_by_protocol_def stored_under_def get_component_def)
  next
    fix i
    show "i \<in> mk_unsynced_pools ?m \<longleftrightarrow> (\<exists>system \<in> mk_unsynced_protocols ?m. stored_under ?m i system)"
      by (simp add: market_invD(2) [OF assms] stored_under_def get_component_def)
  qed
  then show ?thesis using assms by (simp add: refresh_unsynced_protocols_def Let_def)
qed

lemma fold_sync_status_fields:
  fixes m :: "'s market_state"
  defines "step \<equiv> \<lambda>(system, status) (m :: 's market_state).
      m\<lparr>mk_protocol_sync_status := (mk_protocol_sync_status m)(system \<mapsto> status)\<rparr>"
  shows "mk_components (fold step ss m) = mk_components m"
    "mk_unsynced_protocols (fold step ss m) = mk_unsynced_protocols m"
    "mk_unsynced_pools (fold step ss m) = mk_unsynced_pools m"
    "mk_components_by_protocol (fold step ss m) = mk_components_by_protocol m"
    "mk_last_updated (fold step ss m) = mk_last_updated m"
    "mk_protocol_sync_status (fold step ss m) = mk_protocol_sync_status m ++ map_of (rev ss)"
  unfolding step_def by (induction ss arbitrary: m) (auto simp: fun_upd_def map_add_def split: option.splits)

lemma market_inv_sync:
  assumes "market_inv env m"
  shows "market_inv env (update_sync_status ss lag m)"
proof -
  let ?m = "fold (\<lambda>(system, status) m.
      m\<lparr>mk_protocol_sync_status := (mk_protocol_sync_status m)(system \<mapsto> status)\<rparr>) ss m"
  have m: "market_inv env ?m"
    using assms market_inv_cong [OF fold_sync_status_fields(1-4), of env ss m] by simp
  then have "market_inv env (?m\<lparr>mk_last_updated := b\<rparr>)" for b
    using market_inv_cong [of "?m\<lparr>mk_last_updated := b\<rparr>" ?m env] by simp
  then show ?thesis
    using m assms by (simp add: update_sync_status_def Let_def market_inv_refresh split: option.splits)
qed

lemma upsert_tokens_fields:
  "mk_components (upsert_tokens ts m) = mk_components m"
  "mk_unsynced_protocols (upsert_tokens ts m) = mk_unsynced_protocols m"
  "mk_unsynced_pools (upsert_tokens ts m) = mk_unsynced_pools m"
  "mk_components_by_protocol (upsert_tokens ts m) = mk_components_by_protocol m"
  unfolding upsert_tokens_def by (induction ts arbitrary: m) simp_all

lemma update_states_fields:
  "mk_components (update_states ss m) = mk_components m"
  "mk_unsynced_protocols (update_states ss m) = mk_unsynced_protocols m"
  "mk_unsynced_pools (update_states ss m) = mk_unsynced_pools m"
  "mk_components_by_protocol (update_states ss m) = mk_components_by_protocol m"
  unfolding update_states_def by (induction ss arbitrary: m) auto

lemma sync_status_components [simp]: "mk_components (update_sync_status ss lag m) = mk_components m"
  by (simp add: update_sync_status_def refresh_unsynced_protocols_def Let_def fold_sync_status_fields split: option.splits)

subsection \<open>Reachable markets\<close>

text \<open>A market the feed can produce: it starts empty and changes by the operations above.\<close>

inductive market_reachable :: "topology_env \<Rightarrow> nat \<Rightarrow> 's market_state \<Rightarrow> bool" for env lag where
  empty: "market_reachable env lag market_state_new"
| upsert: "market_reachable env lag m \<Longrightarrow> keeps_system m c \<Longrightarrow>
    market_reachable env lag (fst (upsert_component env c (m, u)))"
| remove: "market_reachable env lag m \<Longrightarrow> market_reachable env lag (remove_component i m)"
| sync: "market_reachable env lag m \<Longrightarrow> market_reachable env lag (update_sync_status ss lag m)"
| tokens: "market_reachable env lag m \<Longrightarrow> market_reachable env lag (upsert_tokens ts m)"
| states: "market_reachable env lag m \<Longrightarrow> market_reachable env lag (update_states sts m)"
| gas: "market_reachable env lag m \<Longrightarrow> market_reachable env lag (update_gas_price p m)"
| label: "market_reachable env lag m \<Longrightarrow> market_reachable env lag (m\<lparr>mk_label := l\<rparr>)"

lemma market_reachable_inv: "market_reachable env lag m \<Longrightarrow> market_inv env m"
proof (induction rule: market_reachable.induct)
  case (tokens m ts)
  then show ?case using market_inv_cong [OF upsert_tokens_fields] by blast
next
  case (states m sts)
  then show ?case using market_inv_cong [OF update_states_fields] by blast
next
  case (gas m p)
  then show ?case using market_inv_cong [of "update_gas_price p m" m env] by (simp add: update_gas_price_def)
next
  case (label m l)
  then show ?case using market_inv_cong [of "m\<lparr>mk_label := l\<rparr>" m env] by simp
qed (simp_all add: market_inv_new market_inv_upsert market_inv_remove market_inv_sync)

text \<open>C31: in every market the feed can produce, the constraints resolved for a request keep a stored
  component out of routing exactly when the request names its pool, names its protocol system
  (exactly, or as a family ending in a colon), or the protocol system is out of sync.\<close>

theorem resolved_filter_exact:
  assumes "market_reachable env lag m" and "get_component m i = Some c"
  shows "excludes_pool (resolve_route_filter m flt) i \<longleftrightarrow>
     i \<in> rc_excluded_pools flt
     \<or> (\<exists>entry \<in> rc_excluded_protocols flt. protocol_matches entry (pc_protocol_system c))
     \<or> pc_protocol_system c \<in> mk_unsynced_protocols m"
proof -
  note inv = market_reachable_inv [OF assms(1)]
  have held: "stored_under m i system \<longleftrightarrow> pc_protocol_system c = system" for system
    using assms(2) by (auto simp: stored_under_def)
  have dom: "pc_protocol_system c \<in> dom (mk_components_by_protocol m)"
    using market_invD(2) [OF inv, of i "pc_protocol_system c"] held
    by (auto simp: components_by_protocol_def split: option.splits)
  have entry: "i \<in> (if ends_with_colon entry
           then (\<Union>system \<in> {system \<in> dom (mk_components_by_protocol m). protocol_matches entry system}.
                   components_by_protocol m system)
           else components_by_protocol m entry) \<longleftrightarrow> protocol_matches entry (pc_protocol_system c)" for entry
    using dom by (auto simp: market_invD(2) [OF inv] held protocol_matches_def)
  have "i \<in> mk_unsynced_pools m \<longleftrightarrow> pc_protocol_system c \<in> mk_unsynced_protocols m"
    by (simp add: market_invD(3) [OF inv] held)
  then show ?thesis
    unfolding excludes_pool_def is_unsynced_pool_def resolve_route_filter_def
      resolved_route_constraints.simps Un_iff UN_iff [of i] entry by (simp only:) blast
qed

text \<open>The example: a market of two pools, one of a protocol that falls out of sync.\<close>

definition example_topology_env :: topology_env where
  "example_topology_env = \<lparr>te_attribute = ''swap_directions'', te_decode = (\<lambda>_. Inl [])\<rparr>"

definition example_pamm :: protocol_component where
  "example_pamm = \<lparr>pc_id = ''pamm'', pc_protocol_system = ''fallback:maker'', pc_chain = ''ethereum'',
     pc_tokens = [''A'', ''B''], pc_static_attributes = Map.empty\<rparr>"

definition example_market :: "unit market_state" where
  "example_market =
     update_sync_status [(''uniswap_v2'', Stale \<lparr>bh_number = 1, bh_hash = [], bh_timestamp = 1\<rparr>)] 0
       (fst (upsert_component example_topology_env example_pamm
          (fst (upsert_component example_topology_env example_component
             (market_state_new, \<lparr>uc_new = [], uc_reshaped = []\<rparr>)), \<lparr>uc_new = [], uc_reshaped = []\<rparr>)))"

lemma example_market_reachable: "market_reachable example_topology_env 0 example_market"
  unfolding example_market_def
  by (intro market_reachable.intros)
    (simp_all add: keeps_system_def get_component_upsert example_pamm_def example_component_def
      get_component_def market_state_new_def)

lemma get_component_new: "get_component market_state_new = Map.empty"
  by (simp add: get_component_def market_state_new_def fun_eq_iff)

lemma example_market_components:
  "get_component example_market = [''pool'' \<mapsto> example_component, ''pamm'' \<mapsto> example_pamm]"
proof -
  have "get_component (update_sync_status ss lag m) = get_component m" for ss lag and m :: "unit market_state"
    by (simp add: get_component_def fun_eq_iff)
  then show ?thesis
    unfolding example_market_def
    by (simp add: get_component_upsert example_pamm_def example_component_def get_component_new)
qed

theorem resolved_filter_exact_witness:
  "excludes_pool (resolve_route_filter example_market
      \<lparr>rc_excluded_pools = {}, rc_excluded_protocols = {''fallback:''}, rc_excluded_tokens = {}, rc_required_tokens = {}\<rparr>)
     ''pamm''"
proof -
  have c: "get_component example_market ''pamm'' = Some example_pamm" by (simp add: example_market_components)
  show ?thesis
    unfolding resolved_filter_exact [OF example_market_reachable c]
    by (simp add: protocol_matches_def ends_with_colon_def example_pamm_def)
qed

subsection \<open>A batched snapshot is a snapshot\<close>

lemma restrict_map_union: "f |` S ++ f |` T = f |` (S \<union> T)"
  by (auto simp: fun_eq_iff map_add_def restrict_map_def split: option.splits)

lemma ran_restrict_union: "ran (f |` (S \<union> T)) = ran (f |` S) \<union> ran (f |` T)"
  by (auto simp: ran_def restrict_map_def)

text \<open>Two states that agree on all but the index by protocol, which a merge leaves as it is.\<close>

definition same_but_index :: "'s market_state \<Rightarrow> 's market_state \<Rightarrow> bool" where
  "same_but_index m m' =
     (m\<lparr>mk_components_by_protocol := Map.empty\<rparr> = m'\<lparr>mk_components_by_protocol := Map.empty\<rparr>)"

lemma merge_extract:
  assumes "same_but_index m (extract_subset S base)"
  shows "same_but_index (merge_subset m (extract_subset T base)) (extract_subset (S \<union> T) base)"
proof -
  have "mk_components m = mk_components base |` S" "mk_simulation_states m = mk_simulation_states base |` S"
    "mk_tokens m = mk_tokens base |` (\<Union>s \<in> ran (mk_components base |` S). set (pc_tokens (st_component s)))"
    using arg_cong [OF assms [unfolded same_but_index_def], of mk_components]
      arg_cong [OF assms [unfolded same_but_index_def], of mk_simulation_states]
      arg_cong [OF assms [unfolded same_but_index_def], of mk_tokens]
    by (simp_all add: extract_subset_def Let_def)
  then show ?thesis
    using assms
    by (cases m, cases base) (simp add: same_but_index_def merge_subset_def extract_subset_def Let_def
        restrict_map_union ran_restrict_union UN_Un)
qed

lemma label_extract_subset [simp]: "mk_label (extract_subset S m) = mk_label m"
  by (simp add: extract_subset_def Let_def)

lemma label_same_but_index: "same_but_index m m' \<Longrightarrow> mk_label m = mk_label m'"
  unfolding same_but_index_def by (drule arg_cong [of _ _ mk_label]) simp

lemma batch_loop_snapshot:
  assumes "\<forall>b b'. mk_label (reads b) = mk_label (reads b') \<longrightarrow> reads b = reads b'"
  shows "batch_loop reads b cs (Some m) = Some merged \<Longrightarrow> same_but_index m (extract_subset S (reads b0)) \<Longrightarrow>
    \<exists>m'. merged = Some m' \<and> same_but_index m' (extract_subset (S \<union> set (concat cs)) (reads b0))"
proof (induction cs arbitrary: b m S)
  case (Cons chunk cs)
  have l: "mk_label (reads b) = mk_label m"
    using Cons.prems(1) by (auto simp: Let_def split: if_splits)
  then have "reads b = reads b0"
    using assms label_same_but_index [OF Cons.prems(2)] by simp
  then have "same_but_index (merge_subset m (extract_subset (set chunk) (reads b)))
      (extract_subset (S \<union> set chunk) (reads b0))"
    using merge_extract [OF Cons.prems(2)] by simp
  from Cons.IH [OF _ this, of "Suc b"] show ?case
    using Cons.prems(1) l by (simp add: Let_def Un_assoc)
qed auto

lemma concat_chunks: "0 < n \<Longrightarrow> concat (chunks n xs) = xs"
  by (induction n xs rule: chunks.induct) (subst chunks.simps, auto)

lemma chunks_Nil_iff: "0 < n \<Longrightarrow> chunks n xs = [] \<longleftrightarrow> xs = []"
  by (subst chunks.simps) simp

lemma batch_attempts_snapshot:
  assumes "\<forall>a b b'. mk_label (reads a b) = mk_label (reads a b') \<longrightarrow> reads a b = reads a b'" "cs \<noteq> []"
  shows "batch_attempts k reads cs a = Some m \<Longrightarrow>
    \<exists>a' b. same_but_index m (extract_subset (set (concat cs)) (reads a' b))"
proof (induction k arbitrary: a)
  case (Suc k)
  obtain c cs' where cs: "cs = c # cs'" using assms(2) by (cases cs) auto
  show ?case
  proof (cases "batch_loop (reads a) 0 cs None")
    case None
    then show ?thesis using Suc by simp
  next
    case (Some merged)
    have "batch_loop (reads a) 1 cs' (Some (extract_subset (set c) (reads a 0))) = Some merged"
      using Some by (simp add: cs)
    from batch_loop_snapshot [OF _ this, of "set c" 0] obtain m' where
      "merged = Some m'" "same_but_index m' (extract_subset (set (concat cs)) (reads a 0))"
      using assms(1) by (auto simp: cs same_but_index_def)
    then show ?thesis using Suc.prems Some by auto
  qed
qed simp



text \<open>A merge does not extend the index by protocol, so a snapshot of more than one batch lists only
  the components of its first batch there.\<close>

lemma merged_index_first_batch:
  "mk_components_by_protocol (merge_subset m other) = mk_components_by_protocol m"
  by (simp add: merge_subset_def)

lemma batched_index_misses_later_batches:
  assumes "extract_subset_in_batches (\<lambda>_ _. example_market) example_market [''pool'', ''pamm''] 1 = ret m"
  shows "get_component m ''pamm'' = Some example_pamm \<and> components_by_protocol m ''fallback:maker'' = {}"
proof -
  have ch: "chunks (Suc 0) [''pool'', ''pamm''] = [[''pool''], [''pamm'']]" by (simp add: chunks.simps)
  have m: "m = merge_subset (extract_subset {''pool''} example_market) (extract_subset {''pamm''} example_market)"
    using assms by (simp add: extract_subset_in_batches_def ch numeral_3_eq_3)
  have "pc_protocol_system (st_component s) = ''uniswap_v2''" if "mk_components example_market ''pool'' = Some s" for s
    using that example_market_components [THEN fun_cong, of "''pool''"]
    by (simp add: get_component_def example_component_def)
  then have "components_by_protocol m ''fallback:maker'' = {}"
    unfolding m components_by_protocol_def merged_index_first_batch
    by (auto simp: extract_subset_def Let_def index_by_protocol_def restrict_map_def split: if_splits)
  moreover have "get_component m ''pamm'' = Some example_pamm"
    using example_market_components [THEN fun_cong, of "''pamm''"]
    by (auto simp: m get_component_def merge_subset_def extract_subset_def Let_def map_add_def restrict_map_def
        split: option.splits)
  ultimately show ?thesis by simp
qed

end
