(* ===== verification/Replay.thy ===== *)
theory Replay
  imports Market
begin

text \<open>
  Replaying a route against a market state: \<open>src/fynd-core/src/replay.rs\<close>, the guard around pool
  simulations (\<open>algorithm/sim_guard.rs\<close>) and the division of an amount by a fraction
  (\<open>split_amount\<close> of \<open>algorithm/split_primitives.rs\<close>).

  A pool is a \<open>dyn ProtocolSim\<close> of the simulation library: \<open>sim_env\<close> holds its methods, and a
  panic inside one is \<open>panic\<close>. The Display form of an address belongs to the same libraries.
\<close>

subsection \<open>Pools\<close>

record 's amount_out_result =
  ao_amount :: biguint
  ao_gas :: biguint
  ao_new_state :: 's

record 's sim_env =
  pm_get_amount_out :: "'s \<Rightarrow> biguint \<Rightarrow> token \<Rightarrow> token \<Rightarrow> (string + 's amount_out_result) run"
  pm_spot_price :: "'s \<Rightarrow> token \<Rightarrow> token \<Rightarrow> (string + f64) run"
  pm_show_address :: "address \<Rightarrow> string"
  pm_panic_message :: "'s \<Rightarrow> biguint \<Rightarrow> token \<Rightarrow> token \<Rightarrow> string"

definition get_amount_out_guarded ::
  "'s sim_env \<Rightarrow> 's \<Rightarrow> biguint \<Rightarrow> token \<Rightarrow> token \<Rightarrow> string + 's amount_out_result" where
  "get_amount_out_guarded env s amount_in token_in token_out =
     (case pm_get_amount_out env s amount_in token_in token_out of
        None \<Rightarrow> Inl (''get_amount_out panicked: '' @ pm_panic_message env s amount_in token_in token_out)
      | Some outcome \<Rightarrow> outcome)"

subsection \<open>Dividing an amount\<close>

definition split_scale :: nat where
  "split_scale = 1000000000000000000"

definition split_amount :: "biguint \<Rightarrow> f64 \<Rightarrow> (biguint \<times> biguint) run" where
  "split_amount amount fraction =
     (let clamped = f64_clamp (Finite 0) (Finite 1) fraction;
          numerator = f64_to_uint 64 (f64_mul clamped (round_f64 (of_nat split_scale))) in
      do {
        part \<leftarrow> biguint_div (amount * numerator) split_scale;
        remainder \<leftarrow> biguint_sub amount part;
        ret (part, remainder)
      })"

subsection \<open>Simulating the swaps of a route\<close>

datatype replay_error =
    ReplayEmptyRoute
  | ReplayMissingState component_id
  | ReplayMissingToken address
  | ReplaySimulation component_id string

record simulated_swap =
  sv_amount_in :: biguint
  sv_amount_out :: biguint
  sv_gas :: biguint

record simulated_route =
  sd_swaps :: "simulated_swap list"
  sd_amount_out :: biguint
  sd_gas :: biguint

record route_replay =
  rp_amount_out :: biguint
  rp_gas :: biguint

text \<open>The loop state of \<open>simulate_swaps\<close>.\<close>

record 's replay_state =
  ry_available :: "address \<rightharpoonup> biguint"
  ry_branch_totals :: "address \<rightharpoonup> biguint"
  ry_post_swap :: "component_id \<rightharpoonup> 's"
  ry_total_gas :: biguint
  ry_simulated :: "simulated_swap list"

definition unwrap_or_default :: "biguint option \<Rightarrow> biguint" where
  "unwrap_or_default v = (case v of None \<Rightarrow> 0 | Some n \<Rightarrow> n)"

definition ok_or :: "'a option \<Rightarrow> 'e \<Rightarrow> 'e + 'a" where
  "ok_or v e = (case v of None \<Rightarrow> Inl e | Some x \<Rightarrow> Inr x)"

definition replay_amount_in :: "'s swap \<Rightarrow> biguint \<Rightarrow> biguint \<Rightarrow> biguint run" where
  "replay_amount_in swap branch_total remaining =
     (if f64_less (Finite 0) (sw_split swap)
      then do {
        (part, _) \<leftarrow> split_amount branch_total (sw_split swap);
        ret (min part remaining)
      }
      else ret remaining)"

definition record_swap ::
  "'s swap \<Rightarrow> biguint \<Rightarrow> biguint \<Rightarrow> biguint \<Rightarrow> 's amount_out_result \<Rightarrow> 's replay_state \<Rightarrow> 's replay_state" where
  "record_swap swap branch_total amount_in left result st =
     (let available = (ry_available st)(sw_token_in swap \<mapsto> left) in
      st\<lparr>ry_available := available(sw_token_out swap \<mapsto>
           unwrap_or_default (available (sw_token_out swap)) + ao_amount result),
         ry_branch_totals := (ry_branch_totals st)(sw_token_in swap \<mapsto> branch_total),
         ry_post_swap := (ry_post_swap st)(sw_component_id swap \<mapsto> ao_new_state result),
         ry_total_gas := ry_total_gas st + ao_gas result,
         ry_simulated := ry_simulated st @
           [\<lparr>sv_amount_in = amount_in, sv_amount_out = ao_amount result, sv_gas = ao_gas result\<rparr>]\<rparr>)"

definition simulate_swap ::
  "'s sim_env \<Rightarrow> (address \<Rightarrow> token option) \<Rightarrow> ('s swap \<Rightarrow> 's option) \<Rightarrow> 's swap \<Rightarrow> 's replay_state \<Rightarrow>
   (replay_error + 's replay_state) run" where
  "simulate_swap env get_token get_state swap st =
     or_return (ok_or (get_token (sw_token_in swap)) (ReplayMissingToken (sw_token_in swap))) (\<lambda>token_in.
     or_return (ok_or (get_token (sw_token_out swap)) (ReplayMissingToken (sw_token_out swap))) (\<lambda>token_out.
       let remaining = unwrap_or_default (ry_available st (sw_token_in swap));
           branch_total = (case ry_branch_totals st (sw_token_in swap) of
                             None \<Rightarrow> remaining | Some n \<Rightarrow> n) in
       do {
         amount_in \<leftarrow> replay_amount_in swap branch_total remaining;
         left \<leftarrow> biguint_sub remaining amount_in;
         or_return (ok_or (case ry_post_swap st (sw_component_id swap) of
                             None \<Rightarrow> get_state swap | Some s \<Rightarrow> Some s)
                      (ReplayMissingState (sw_component_id swap))) (\<lambda>sim.
         or_return (map_sum (ReplaySimulation (sw_component_id swap)) id
                      (get_amount_out_guarded env sim amount_in token_in token_out)) (\<lambda>result.
           ret (Inr (record_swap swap branch_total amount_in left result st))))
       }))"

fun simulate_each ::
  "'s sim_env \<Rightarrow> (address \<Rightarrow> token option) \<Rightarrow> ('s swap \<Rightarrow> 's option) \<Rightarrow> 's swap list \<Rightarrow> 's replay_state \<Rightarrow>
   (replay_error + 's replay_state) run" where
  "simulate_each env get_token get_state [] st = ret (Inr st)"
| "simulate_each env get_token get_state (swap # swaps) st =
     do {
       r \<leftarrow> simulate_swap env get_token get_state swap st;
       or_return r (simulate_each env get_token get_state swaps)
     }"

definition replay_start :: "address \<Rightarrow> biguint \<Rightarrow> 's replay_state" where
  "replay_start input_tok total_in =
     \<lparr>ry_available = [input_tok \<mapsto> total_in], ry_branch_totals = Map.empty, ry_post_swap = Map.empty,
      ry_total_gas = 0, ry_simulated = []\<rparr>"

definition simulate_swaps ::
  "'s sim_env \<Rightarrow> 's swap list \<Rightarrow> address \<Rightarrow> address \<Rightarrow> biguint \<Rightarrow> (address \<Rightarrow> token option) \<Rightarrow>
   ('s swap \<Rightarrow> 's option) \<Rightarrow> (replay_error + simulated_route) run" where
  "simulate_swaps env swaps input_tok output_tok total_in get_token get_state =
     do {
       r \<leftarrow> simulate_each env get_token get_state swaps (replay_start input_tok total_in);
       or_return r (\<lambda>st. ret (Inr
         \<lparr>sd_swaps = ry_simulated st, sd_amount_out = unwrap_or_default (ry_available st output_tok),
          sd_gas = ry_total_gas st\<rparr>))
     }"

definition replay_route :: "'s sim_env \<Rightarrow> 's route \<Rightarrow> 's market_state \<Rightarrow> (replay_error + route_replay) run" where
  "replay_route env r m =
     (case (input_token r, output_token r) of
        (Some input_tok, Some output_tok) \<Rightarrow>
          let total_in = sum_list (map sw_amount_in (filter (\<lambda>s. sw_token_in s = input_tok) (rt_swaps r))) in
          do {
            simulated \<leftarrow> simulate_swaps env (rt_swaps r) input_tok output_tok total_in (mk_tokens m)
                           (\<lambda>s. mk_simulation_states m (sw_component_id s));
            or_return simulated (\<lambda>s. ret (Inr \<lparr>rp_amount_out = sd_amount_out s, rp_gas = sd_gas s\<rparr>))
          }
      | _ \<Rightarrow> ret (Inl ReplayEmptyRoute))"

subsection \<open>Division is exact\<close>

lemma round_f64_scale: "round_f64 (of_nat split_scale) = Finite (of_nat split_scale)"
proof -
  have scale: "split_scale = 3814697265625 * 2 ^ 18" by (simp add: split_scale_def)
  have "(of_nat split_scale :: rat) < of_nat (2 ^ 1024)" by (simp add: split_scale_def)
  also have "\<dots> = 2 powi 1024" by (metis of_nat_numeral of_nat_power power_int_numeral)
  finally have "(of_nat split_scale :: rat) < 2 powi 1024" .
  moreover have "round_rat (of_nat split_scale) = of_nat split_scale"
    unfolding scale by (rule round_rat_shifted) simp
  ultimately show ?thesis by (simp add: round_f64_def)
qed

lemma split_numerator_le:
  "f64_to_uint 64 (f64_mul (f64_clamp (Finite 0) (Finite 1) x) (round_f64 (of_nat split_scale))) \<le> split_scale"
proof -
  have "f64_to_uint 64 (f64_mul (Finite a) (Finite (of_nat split_scale))) \<le> split_scale" if "0 \<le> a" "a \<le> 1" for a
  proof -
    have "a * of_nat split_scale \<le> of_nat split_scale" using that mult_right_mono [of a 1 "of_nat split_scale"] by simp
    then have up: "round_rat (a * of_nat split_scale) \<le> round_rat (of_nat split_scale)" by (rule round_rat_mono)
    have lo: "0 \<le> round_rat (a * of_nat split_scale)" using that by (intro round_rat_nonneg) simp
    have "round_rat (of_nat split_scale) = of_nat split_scale" "of_nat split_scale < (2 powi 1024 :: rat)"
      using round_f64_scale by (auto simp: round_f64_def Let_def split: if_splits)
    then show ?thesis using up lo by (intro f64_to_uint_bound) (auto simp: round_f64_def Let_def)
  qed
  moreover have "f64_clamp (Finite 0) (Finite 1) x = NaN \<or>
      (\<exists>a. f64_clamp (Finite 0) (Finite 1) x = Finite a \<and> 0 \<le> a \<and> a \<le> 1)"
    by (cases x) (auto simp: f64_clamp_def)
  ultimately show ?thesis unfolding round_f64_scale by fastforce
qed

lemma split_amount_exact:
  "\<exists>part. split_amount n x = ret (part, n - part) \<and> part \<le> n"
proof -
  let ?k = "f64_to_uint 64 (f64_mul (f64_clamp (Finite 0) (Finite 1) x) (round_f64 (of_nat split_scale)))"
  have "n * ?k div split_scale \<le> n * split_scale div split_scale"
    by (intro div_le_mono mult_le_mono2 split_numerator_le)
  then have "n * ?k div split_scale \<le> n" by (simp add: split_scale_def)
  then show ?thesis by (simp add: split_amount_def Let_def biguint_div_def split_scale_def)
qed

subsection \<open>Nothing is spent that was not received\<close>

definition taken :: "address \<Rightarrow> 's swap list \<Rightarrow> simulated_swap list \<Rightarrow> biguint" where
  "taken t swaps sims = sum_list (map (sv_amount_in \<circ> snd) (filter (\<lambda>(s, _). sw_token_in s = t) (zip swaps sims)))"

definition given :: "address \<Rightarrow> 's swap list \<Rightarrow> simulated_swap list \<Rightarrow> biguint" where
  "given t swaps sims = sum_list (map (sv_amount_out \<circ> snd) (filter (\<lambda>(s, _). sw_token_out s = t) (zip swaps sims)))"

abbreviation held :: "'s replay_state \<Rightarrow> address \<Rightarrow> biguint" where
  "held st t \<equiv> unwrap_or_default (ry_available st t)"

lemma unwrap_or_default_simps [simp]: "unwrap_or_default None = 0" "unwrap_or_default (Some n) = n"
  by (simp_all add: unwrap_or_default_def)

lemma ok_or_Inr [simp]: "ok_or v e = Inr x \<longleftrightarrow> v = Some x"
  by (simp add: ok_or_def split: option.splits)

lemma replay_amount_in_le:
  "\<exists>n \<le> remaining. replay_amount_in swap branch_total remaining = ret n"
  using split_amount_exact [of branch_total "sw_split swap"] by (auto simp: replay_amount_in_def)

lemma simulate_swap_no_panic: "simulate_swap env get_token get_state swap st \<noteq> panic"
proof -
  let ?b = "case ry_branch_totals st (sw_token_in swap) of None \<Rightarrow> held st (sw_token_in swap) | Some n \<Rightarrow> n"
  obtain n where "n \<le> held st (sw_token_in swap)"
    "replay_amount_in swap ?b (held st (sw_token_in swap)) = ret n"
    using replay_amount_in_le by blast
  then show ?thesis by (simp add: simulate_swap_def Let_def or_return_panic_iff)
qed

lemma simulate_swap_Inr:
  assumes "simulate_swap env get_token get_state swap st = ret (Inr st')"
  obtains sim where "ry_simulated st' = ry_simulated st @ [sim]"
    and "ry_total_gas st' = ry_total_gas st + sv_gas sim"
    and "\<And>t. held st' t + (if sw_token_in swap = t then sv_amount_in sim else 0)
           = held st t + (if sw_token_out swap = t then sv_amount_out sim else 0)"
proof -
  let ?n = "held st (sw_token_in swap)"
  obtain b amount_in left result where amount: "biguint_sub ?n amount_in = ret left"
    and st': "st' = record_swap swap b amount_in left result st"
    using assms unfolding simulate_swap_def by (auto simp: or_return_Inr_iff bind_eq_Some_conv Let_def)
  have le: "amount_in \<le> ?n" "left = ?n - amount_in" using amount by (auto simp: biguint_sub_Some_iff)
  show thesis
  proof (rule that)
    show "ry_simulated st' = ry_simulated st @
        [\<lparr>sv_amount_in = amount_in, sv_amount_out = ao_amount result, sv_gas = ao_gas result\<rparr>]"
      by (simp add: st' record_swap_def Let_def)
  qed (use le in \<open>auto simp: st' record_swap_def Let_def\<close>)
qed

lemma simulate_each_no_panic: "simulate_each env get_token get_state swaps st \<noteq> panic"
proof (induction swaps arbitrary: st)
  case (Cons s swaps)
  then show ?case using simulate_swap_no_panic [of env get_token get_state s st]
    by (auto simp: or_return_panic_iff bind_eq_None_conv)
qed simp

lemma simulate_each_balance:
  assumes "simulate_each env get_token get_state swaps st = ret (Inr st')"
  shows "\<exists>sims. ry_simulated st' = ry_simulated st @ sims \<and> length sims = length swaps
    \<and> ry_total_gas st' = ry_total_gas st + sum_list (map sv_gas sims)
    \<and> (\<forall>t. held st' t + taken t swaps sims = held st t + given t swaps sims)"
  using assms
proof (induction swaps arbitrary: st)
  case Nil
  then show ?case by (simp add: taken_def given_def)
next
  case (Cons s swaps)
  then obtain st1 where 1: "simulate_swap env get_token get_state s st = ret (Inr st1)"
    and rest: "simulate_each env get_token get_state swaps st1 = ret (Inr st')"
    by (auto simp: bind_eq_Some_conv or_return_Inr_iff)
  obtain sim where sim: "ry_simulated st1 = ry_simulated st @ [sim]" "ry_total_gas st1 = ry_total_gas st + sv_gas sim"
    and held1: "\<And>t. held st1 t + (if sw_token_in s = t then sv_amount_in sim else 0)
           = held st t + (if sw_token_out s = t then sv_amount_out sim else 0)"
    using simulate_swap_Inr [OF 1] by metis
  obtain sims where sims: "ry_simulated st' = ry_simulated st1 @ sims" "length sims = length swaps"
      "ry_total_gas st' = ry_total_gas st1 + sum_list (map sv_gas sims)"
    and bal: "\<And>t. held st' t + taken t swaps sims = held st1 t + given t swaps sims"
    using Cons.IH [OF rest] by blast
  have "held st' t + taken t (s # swaps) (sim # sims) = held st t + given t (s # swaps) (sim # sims)" for t
    using held1 [of t] bal [of t] by (simp add: taken_def given_def split: if_splits)
  then show ?case using sim sims by (intro exI [of _ "sim # sims"]) simp
qed

text \<open>C34: Simulating the swaps of a route never panics, whatever the splits, the market and the
  pools. When it succeeds there is one simulated swap per swap, the gas is the sum of theirs, no
  token is spent beyond what the route started with and received of it, and the amount out is
  exactly what is left of the output token.\<close>

theorem simulated_route_conserves:
  "case simulate_swaps env swaps input_tok output_tok total_in get_token get_state of
     None \<Rightarrow> False
   | Some (Inl _) \<Rightarrow> True
   | Some (Inr r) \<Rightarrow>
       let received = \<lambda>t. (if t = input_tok then total_in else 0) + given t swaps (sd_swaps r) in
       length (sd_swaps r) = length swaps
       \<and> sd_gas r = sum_list (map sv_gas (sd_swaps r))
       \<and> (\<forall>t. taken t swaps (sd_swaps r) \<le> received t)
       \<and> sd_amount_out r = received output_tok - taken output_tok swaps (sd_swaps r)"
proof (cases "simulate_each env get_token get_state swaps (replay_start input_tok total_in)")
  case None
  then show ?thesis using simulate_each_no_panic by blast
next
  case (Some r)
  show ?thesis
  proof (cases r)
    case (Inl e)
    then show ?thesis using Some by (simp add: simulate_swaps_def)
  next
    case (Inr st)
    from simulate_each_balance [OF Some [unfolded Inr]] obtain sims where
      sims: "ry_simulated st = sims" "length sims = length swaps" "ry_total_gas st = sum_list (map sv_gas sims)"
      and bal: "\<And>t. held st t + taken t swaps sims = (if t = input_tok then total_in else 0) + given t swaps sims"
      by (force simp: replay_start_def)
    have "taken t swaps sims \<le> (if t = input_tok then total_in else 0) + given t swaps sims" for t
      using bal [of t] by linarith
    moreover have "held st output_tok
        = (if output_tok = input_tok then total_in else 0) + given output_tok swaps sims - taken output_tok swaps sims"
      using bal [of output_tok] by linarith
    ultimately show ?thesis using Some Inr sims by (simp add: simulate_swaps_def Let_def)
  qed
qed

end
