(* ===== verification/Split.thy ===== *)
theory Split
  imports Replay "HOL-Library.Product_Lexorder"
begin

text \<open>
  Executing an order over several paths: \<open>src/fynd-core/src/algorithm/split_primitives.rs\<close>.

  A split solution is a list of paths with an amount each. Hops that several paths share become one
  swap; the swaps run in dependency order, a token being traded once everything that produces it
  has run; every swap is given to the chain as a fraction of the balance of its input token.

  A hash map is an association list with distinct keys; where the source iterates over one, the
  order only decides which of several errors is reported. An \<open>OtherAlgorithmError\<close> carries the message
  the source formats. \<open>get_amount_out_metered\<close> is the guarded call: counting is compiled out of the
  default build.
\<close>

subsection \<open>Paths\<close>

record hop_descriptor =
  hd_component_id :: component_id
  hd_token_in :: token
  hd_token_out :: token

record simulated_hop =
  sh_descriptor :: hop_descriptor
  sh_amount_out :: biguint
  sh_gas :: biguint

record path_allocation =
  pa_hops :: "simulated_hop list"
  pa_flow_fraction :: f64
  pa_amount_in :: biguint
  pa_amount_out :: biguint
  pa_marginal_price_product :: f64

abbreviation hop_in :: "hop_descriptor \<Rightarrow> address" where
  "hop_in h \<equiv> tk_address (hd_token_in h)"

abbreviation hop_out :: "hop_descriptor \<Rightarrow> address" where
  "hop_out h \<equiv> tk_address (hd_token_out h)"

fun check_token_cycles ::
  "'s sim_env \<Rightarrow> address \<Rightarrow> address set \<Rightarrow> nat \<Rightarrow> simulated_hop list \<Rightarrow> algorithm_error + unit" where
  "check_token_cycles env first_token seen i [] = Inr ()"
| "check_token_cycles env first_token seen i (hop # hops) =
     (let out = hop_out (sh_descriptor hop) in
      if out \<in> seen \<and> \<not> (hops = [] \<and> out = first_token)
      then Inl (OtherAlgorithmError (''path revisits token '' @ pm_show_address env out @ '' at hop '' @ decimal i
                  @ '' (would corrupt merge_shared_hops)''))
      else check_token_cycles env first_token (insert out seen) (Suc i) hops)"

definition validate_token_cycles :: "'s sim_env \<Rightarrow> path_allocation \<Rightarrow> algorithm_error + unit" where
  "validate_token_cycles env p =
     (case pa_hops p of
        [] \<Rightarrow> Inl (OtherAlgorithmError ''path has no hops'')
      | hop # _ \<Rightarrow>
          let first_token = hop_in (sh_descriptor hop) in
          check_token_cycles env first_token {first_token} 0 (pa_hops p))"

subsection \<open>Fractions and amounts\<close>

datatype split_math_error =
    EmptyFractions
  | AllZeroFractions
  | NegativeFraction
  | ExceedsTotal biguint biguint

fun split_math_message :: "split_math_error \<Rightarrow> string" where
  "split_math_message EmptyFractions = ''fractions slice must not be empty''"
| "split_math_message AllZeroFractions = ''all fractions are zero, cannot normalize''"
| "split_math_message NegativeFraction = ''fractions must not be negative''"
| "split_math_message (ExceedsTotal asked total_amount) =
     ''the fractions ask for '' @ decimal asked @ '' of '' @ decimal total_amount"

definition normalize_fractions :: "f64 list \<Rightarrow> split_math_error + f64 list" where
  "normalize_fractions fractions =
     (if fractions = [] then Inl EmptyFractions
      else if \<exists>f \<in> set fractions. f64_less f (Finite 0) then Inl NegativeFraction
      else let s = foldl f64_add (Finite 0) fractions in
           if f64_eq s (Finite 0) then Inl AllZeroFractions
           else Inr (map (\<lambda>f. f64_div f s) fractions))"

definition fractions_to_amounts :: "biguint \<Rightarrow> f64 list \<Rightarrow> (split_math_error + biguint list) run" where
  "fractions_to_amounts amount fractions =
     (if fractions = [] then ret (Inl EmptyFractions)
      else do {
        parts \<leftarrow> run_each (\<lambda>f. map_option fst (split_amount amount f)) (butlast fractions);
        let running_sum = sum_list parts;
        if running_sum \<le> amount then ret (Inr (parts @ [amount - running_sum]))
        else ret (Inl (ExceedsTotal running_sum amount))
      })"

definition biguint_to_f64 :: "biguint \<Rightarrow> f64" where
  "biguint_to_f64 n = round_f64 (of_nat n)"

definition share_of :: "biguint \<Rightarrow> biguint \<Rightarrow> f64" where
  "share_of part amount =
     (if f64_less (Finite 0) (biguint_to_f64 amount) then f64_div (biguint_to_f64 part) (biguint_to_f64 amount)
      else Finite 0)"

definition share_output :: "biguint \<Rightarrow> biguint list \<Rightarrow> biguint list run" where
  "share_output out_amount fed_amounts =
     (let fed = sum_list fed_amounts in
      if fed = 0 then ret (replicate (length fed_amounts) 0)
      else let shares = map (\<lambda>n. out_amount * n div fed) fed_amounts in
           do {
             rest \<leftarrow> biguint_sub out_amount (sum_list shares);
             ret (butlast shares @ [last shares + rest])
           })"

subsection \<open>Simulating one path\<close>

type_synonym 's market_overrides = "component_id \<rightharpoonup> 's"

definition pool_state :: "'s market_overrides \<Rightarrow> 's market_state \<Rightarrow> component_id \<Rightarrow> algorithm_error + 's" where
  "pool_state overrides m c =
     ok_or (case overrides c of Some s \<Rightarrow> Some s | None \<Rightarrow> mk_simulation_states m c)
       (DataNotFound ''simulation state'' (Some c))"

fun compute_marginal_price_product ::
  "'s sim_env \<Rightarrow> hop_descriptor list \<Rightarrow> 's market_state \<Rightarrow> 's market_overrides \<Rightarrow> f64 \<Rightarrow> (algorithm_error + f64) run" where
  "compute_marginal_price_product env [] m overrides product = ret (Inr product)"
| "compute_marginal_price_product env (hop # hops) m overrides product =
     or_return (pool_state overrides m (hd_component_id hop)) (\<lambda>sim.
       do {
         priced \<leftarrow> pm_spot_price env sim (hd_token_in hop) (hd_token_out hop);
         or_return (map_sum (AlgSimulationFailed (hd_component_id hop)) id priced) (\<lambda>price.
           compute_marginal_price_product env hops m overrides (f64_mul product price))
       })"

record 's sim_result =
  sm_amount_out :: biguint
  sm_marginal_price_product :: f64
  sm_hop_results :: "(biguint \<times> biguint) list"
  sm_post_swap_states :: "(component_id \<times> 's) list"

text \<open>The latest state this path left a component in wins over the overrides and the market.\<close>

definition path_state ::
  "(component_id \<times> 's) list \<Rightarrow> 's market_overrides \<Rightarrow> 's market_state \<Rightarrow> component_id \<Rightarrow> algorithm_error + 's" where
  "path_state states overrides m c =
     (case map_of (rev states) c of Some s \<Rightarrow> Inr s | None \<Rightarrow> pool_state overrides m c)"

fun simulate_hops ::
  "'s sim_env \<Rightarrow> hop_descriptor list \<Rightarrow> 's market_state \<Rightarrow> 's market_overrides \<Rightarrow> 's sim_result \<Rightarrow>
   (algorithm_error + 's sim_result) run" where
  "simulate_hops env [] m overrides acc = ret (Inr acc)"
| "simulate_hops env (hop # hops) m overrides acc =
     or_return (path_state (sm_post_swap_states acc) overrides m (hd_component_id hop)) (\<lambda>sim.
       do {
         priced \<leftarrow> pm_spot_price env sim (hd_token_in hop) (hd_token_out hop);
         or_return (map_sum (AlgSimulationFailed (hd_component_id hop)) id priced) (\<lambda>price.
         or_return (map_sum (AlgSimulationFailed (hd_component_id hop)) id
                      (get_amount_out_guarded env sim (sm_amount_out acc) (hd_token_in hop) (hd_token_out hop))) (\<lambda>result.
           simulate_hops env hops m overrides
             \<lparr>sm_amount_out = ao_amount result,
              sm_marginal_price_product = f64_mul (sm_marginal_price_product acc) price,
              sm_hop_results = sm_hop_results acc @ [(ao_amount result, ao_gas result)],
              sm_post_swap_states = sm_post_swap_states acc @ [(hd_component_id hop, ao_new_state result)]\<rparr>))
       })"

definition simulate_path ::
  "'s sim_env \<Rightarrow> hop_descriptor list \<Rightarrow> biguint \<Rightarrow> 's market_state \<Rightarrow> 's market_overrides \<Rightarrow>
   (algorithm_error + 's sim_result) run" where
  "simulate_path env hops amount_in m overrides =
     simulate_hops env hops m overrides
       \<lparr>sm_amount_out = amount_in, sm_marginal_price_product = Finite 1, sm_hop_results = [],
        sm_post_swap_states = []\<rparr>"

subsection \<open>Merged swaps\<close>

type_synonym hop_key = "component_id \<times> address \<times> address"

definition hop_key :: "hop_descriptor \<Rightarrow> hop_key" where
  "hop_key hop = (hd_component_id hop, hop_in hop, hop_out hop)"

record split_swap =
  ms_hop :: hop_descriptor
  ms_split :: f64
  ms_amount_in :: biguint

definition insert_hop :: "hop_descriptor \<Rightarrow> split_swap list \<Rightarrow> split_swap list" where
  "insert_hop hop swaps =
     (if hop_key hop \<in> (hop_key \<circ> ms_hop) ` set swaps then swaps
      else swaps @ [\<lparr>ms_hop = hop, ms_split = Finite 0, ms_amount_in = 0\<rparr>])"

definition path_hops :: "path_allocation list \<Rightarrow> hop_descriptor list" where
  "path_hops paths = concat (map (map sh_descriptor \<circ> pa_hops) paths)"

definition merge_shared_hops :: "path_allocation list \<Rightarrow> (address \<times> split_swap list) list" where
  "merge_shared_hops paths =
     map (\<lambda>(t, swaps). (t, sort_key (hop_key \<circ> ms_hop) swaps))
       (branch_collections (hop_in \<circ> ms_hop) (fold insert_hop (path_hops paths) []))"

definition splits_from_amounts :: "split_swap list \<Rightarrow> biguint \<Rightarrow> (algorithm_error + split_swap list) run" where
  "splits_from_amounts hops available =
     (let swaps = sort_desc_by ms_amount_in hops;
          fractions = map (\<lambda>(ix, s). if ix = length swaps - 1 then Finite 0 else share_of (ms_amount_in s) available)
                        (enumerate 0 swaps) in
      do {
        divided \<leftarrow> fractions_to_amounts available fractions;
        or_return (map_sum (\<lambda>e. OtherAlgorithmError
             (''cannot divide the '' @ decimal available @ '' standing at this token between ''
              @ decimal (length fractions) @ '' swaps: '' @ split_math_message e)) id divided) (\<lambda>amounts.
          ret (Inr (map (\<lambda>(s, split, amount). s\<lparr>ms_split := split, ms_amount_in := amount\<rparr>)
                 (zip swaps (zip fractions amounts)))))
      })"

definition count_inflow :: "split_swap \<Rightarrow> (address \<rightharpoonup> nat) \<Rightarrow> address \<rightharpoonup> nat" where
  "count_inflow swap in_degree =
     in_degree(hop_out (ms_hop swap) \<mapsto> (case in_degree (hop_out (ms_hop swap)) of None \<Rightarrow> 0 | Some n \<Rightarrow> n) + 1)"

definition build_in_degree :: "(address \<times> split_swap list) list \<Rightarrow> address \<rightharpoonup> nat" where
  "build_in_degree hops_by_token =
     fold (\<lambda>(t, swaps) in_degree.
             fold count_inflow swaps (in_degree(t \<mapsto> (case in_degree t of None \<Rightarrow> 0 | Some n \<Rightarrow> n))))
       hops_by_token Map.empty"

subsection \<open>The ledger of the paths\<close>

text \<open>Indexing a vector panics out of range.\<close>

definition vec_index :: "'a list \<Rightarrow> nat \<Rightarrow> 'a run" where
  "vec_index xs i = (if i < length xs then ret (xs ! i) else panic)"

record path_ledger =
  lg_amount_in :: "biguint list"
  lg_next_hop_ix :: "nat list"

definition ledger_new :: "path_allocation list \<Rightarrow> algorithm_error + path_ledger" where
  "ledger_new paths =
     (if list_all (\<lambda>p. pa_amount_in p = 0) paths
      then Inl (OtherAlgorithmError
             ''cannot divide the order across these paths: every path carries a zero amount'')
      else Inr \<lparr>lg_amount_in = map pa_amount_in paths, lg_next_hop_ix = replicate (length paths) 0\<rparr>)"

type_synonym standing = "hop_key \<rightharpoonup> nat list"

fun standing_from :: "path_ledger \<Rightarrow> address \<Rightarrow> nat \<Rightarrow> path_allocation list \<Rightarrow> standing \<Rightarrow> standing run" where
  "standing_from ledger t ix [] by_hop = ret by_hop"
| "standing_from ledger t ix (p # paths) by_hop =
     do {
       next_hop \<leftarrow> vec_index (lg_next_hop_ix ledger) ix;
       standing_from ledger t (Suc ix) paths
         (if next_hop < length (pa_hops p) \<and> hop_in (sh_descriptor (pa_hops p ! next_hop)) = t
          then let k = hop_key (sh_descriptor (pa_hops p ! next_hop)) in
               by_hop(k \<mapsto> (case by_hop k of None \<Rightarrow> [] | Some fed \<Rightarrow> fed) @ [ix])
          else by_hop)
     }"

definition standing_at :: "path_ledger \<Rightarrow> path_allocation list \<Rightarrow> address \<Rightarrow> standing run" where
  "standing_at ledger paths t = standing_from ledger t 0 paths Map.empty"

definition fed_amounts :: "path_ledger \<Rightarrow> nat list \<Rightarrow> biguint list run" where
  "fed_amounts ledger fed = run_each (vec_index (lg_amount_in ledger)) fed"

definition fed_total :: "path_ledger \<Rightarrow> nat list \<Rightarrow> biguint run" where
  "fed_total ledger fed = map_option sum_list (fed_amounts ledger fed)"

definition rescale :: "nat list \<Rightarrow> biguint \<Rightarrow> path_ledger \<Rightarrow> path_ledger run" where
  "rescale fed amount ledger =
     do {
       amounts \<leftarrow> fed_amounts ledger fed;
       shares \<leftarrow> share_output amount amounts;
       ret (ledger\<lparr>lg_amount_in := fold (\<lambda>(ix, share) xs. xs[ix := share]) (zip fed shares) (lg_amount_in ledger)\<rparr>)
     }"

fun advance_each :: "nat list \<Rightarrow> nat list \<Rightarrow> nat list run" where
  "advance_each [] xs = ret xs"
| "advance_each (ix # fed) xs = do { n \<leftarrow> vec_index xs ix; advance_each fed (xs[ix := n + 1]) }"

definition advance :: "nat list \<Rightarrow> path_ledger \<Rightarrow> path_ledger run" where
  "advance fed ledger =
     do { ixs \<leftarrow> advance_each fed (lg_next_hop_ix ledger); ret (ledger\<lparr>lg_next_hop_ix := ixs\<rparr>) }"

subsection \<open>Balances\<close>

type_synonym token_balances = "address \<rightharpoonup> biguint"

definition balance_at :: "token_balances \<Rightarrow> address \<Rightarrow> biguint" where
  "balance_at balances t = unwrap_or_default (balances t)"

definition spend :: "token \<Rightarrow> component_id \<Rightarrow> biguint \<Rightarrow> token_balances \<Rightarrow> algorithm_error + token_balances" where
  "spend tok c amount balances =
     (let standing = balance_at balances (tk_address tok) in
      if standing < amount
      then Inl (OtherAlgorithmError (''the swap through '' @ c @ '' spends '' @ decimal amount @ '' '' @ tk_symbol tok
                  @ '', more than the '' @ decimal standing @ '' standing at it''))
      else Inr (balances(tk_address tok \<mapsto> standing - amount)))"

definition credit :: "address \<Rightarrow> biguint \<Rightarrow> token_balances \<Rightarrow> token_balances" where
  "credit t amount balances = balances(t \<mapsto> balance_at balances t + amount)"

subsection \<open>One merged swap\<close>

datatype state_capture = Skip | Keep

record 's simulated_split_swap =
  xs_hop :: hop_descriptor
  xs_split :: f64
  xs_amount_in :: biguint
  xs_amount_out :: biguint
  xs_gas :: biguint
  xs_pre_swap_state :: "'s option"

definition size_swap :: "standing \<Rightarrow> path_ledger \<Rightarrow> split_swap \<Rightarrow> (algorithm_error + split_swap) run" where
  "size_swap standing ledger swap =
     (case standing (hop_key (ms_hop swap)) of
        None \<Rightarrow> ret (Inl (OtherAlgorithmError (''no path feeds the swap through '' @ hd_component_id (ms_hop swap)
                       @ '' at this point in the plan'')))
      | Some fed \<Rightarrow> do { amount \<leftarrow> fed_total ledger fed; ret (Inr (swap\<lparr>ms_amount_in := amount\<rparr>)) })"

definition amounts_for_branch ::
  "split_swap list \<Rightarrow> standing \<Rightarrow> path_ledger \<Rightarrow> biguint \<Rightarrow> (algorithm_error + (split_swap \<times> nat list) list) run" where
  "amounts_for_branch branch standing ledger amount =
     do {
       sized \<leftarrow> try_each (size_swap standing ledger) branch;
       or_return sized (\<lambda>swaps. do {
         divided \<leftarrow> splits_from_amounts swaps amount;
         or_return divided (\<lambda>swaps'.
           ret (Inr (map (\<lambda>s. (s, case standing (hop_key (ms_hop s)) of None \<Rightarrow> [] | Some fed \<Rightarrow> fed)) swaps')))
       })
     }"

definition run_merged_swap ::
  "'s sim_env \<Rightarrow> split_swap \<Rightarrow> 's market_state \<Rightarrow> 's market_overrides \<Rightarrow> 's market_overrides \<Rightarrow> state_capture \<Rightarrow>
   algorithm_error + ('s simulated_split_swap \<times> 's)" where
  "run_merged_swap env swap m base_overrides post_swap capture =
     (case (case post_swap (hd_component_id (ms_hop swap)) of
              Some s \<Rightarrow> Inr s
            | None \<Rightarrow> pool_state base_overrides m (hd_component_id (ms_hop swap))) of
        Inl e \<Rightarrow> Inl e
      | Inr sim \<Rightarrow>
          (case get_amount_out_guarded env sim (ms_amount_in swap) (hd_token_in (ms_hop swap)) (hd_token_out (ms_hop swap)) of
             Inl e \<Rightarrow> Inl (AlgSimulationFailed (hd_component_id (ms_hop swap)) e)
           | Inr result \<Rightarrow>
               Inr (\<lparr>xs_hop = ms_hop swap, xs_split = ms_split swap, xs_amount_in = ms_amount_in swap,
                     xs_amount_out = ao_amount result, xs_gas = ao_gas result,
                     xs_pre_swap_state = (case capture of Keep \<Rightarrow> Some sim | Skip \<Rightarrow> None)\<rparr>,
                    ao_new_state result)))"

subsection \<open>The whole plan\<close>

record 's split_state =
  sx_hops_by_token :: "(address \<times> split_swap list) list"
  sx_in_degree :: "address \<rightharpoonup> nat"
  sx_ready :: "address list"
  sx_ledger :: path_ledger
  sx_balances :: token_balances
  sx_swaps :: "'s simulated_split_swap list"
  sx_post_swap :: "'s market_overrides"
  sx_total_gas :: nat

definition saturating_gas :: "nat \<Rightarrow> biguint \<Rightarrow> nat" where
  "saturating_gas acc gas = min (acc + min gas (2 ^ 64 - 1)) (2 ^ 64 - 1)"

definition release :: "address \<Rightarrow> 's split_state \<Rightarrow> 's split_state" where
  "release t st =
     (case sx_in_degree st t of
        None \<Rightarrow> st
      | Some n \<Rightarrow>
          let st' = st\<lparr>sx_in_degree := (sx_in_degree st)(t \<mapsto> n - 1)\<rparr> in
          if n - 1 = 0 then st'\<lparr>sx_ready := sx_ready st' @ [t]\<rparr> else st')"

text \<open>The loop over the sized swaps of one token.\<close>

fun execute_swaps ::
  "'s sim_env \<Rightarrow> 's market_state \<Rightarrow> 's market_overrides \<Rightarrow> state_capture \<Rightarrow> (split_swap \<times> nat list) list \<Rightarrow>
   's split_state \<Rightarrow> (algorithm_error + 's split_state) run" where
  "execute_swaps env m base_overrides capture [] st = ret (Inr st)"
| "execute_swaps env m base_overrides capture ((swap, fed) # sized) st =
     (let hop = ms_hop swap in
      or_return (spend (hd_token_in hop) (hd_component_id hop) (ms_amount_in swap) (sx_balances st)) (\<lambda>balances.
      or_return (run_merged_swap env swap m base_overrides (sx_post_swap st) capture) (\<lambda>(executed, new_state). do {
        ledger1 \<leftarrow> rescale fed (xs_amount_out executed) (sx_ledger st);
        ledger2 \<leftarrow> advance fed ledger1;
        execute_swaps env m base_overrides capture sized
          (release (hop_out hop)
             (st\<lparr>sx_balances := credit (hop_out hop) (xs_amount_out executed) balances,
                 sx_ledger := ledger2,
                 sx_total_gas := saturating_gas (sx_total_gas st) (xs_gas executed),
                 sx_swaps := sx_swaps st @ [executed],
                 sx_post_swap := (sx_post_swap st)(hd_component_id hop \<mapsto> new_state)\<rparr>))
      })))"

fun rescale_each :: "(split_swap \<times> nat list) list \<Rightarrow> path_ledger \<Rightarrow> path_ledger run" where
  "rescale_each [] ledger = ret ledger"
| "rescale_each ((swap, fed) # sized) ledger =
     do { ledger' \<leftarrow> rescale fed (ms_amount_in swap) ledger; rescale_each sized ledger' }"

definition process_token ::
  "'s sim_env \<Rightarrow> path_allocation list \<Rightarrow> 's market_state \<Rightarrow> 's market_overrides \<Rightarrow> state_capture \<Rightarrow> address \<Rightarrow>
   split_swap list \<Rightarrow> 's split_state \<Rightarrow> (algorithm_error + 's split_state) run" where
  "process_token env paths m base_overrides capture t branch st =
     do {
       standing \<leftarrow> standing_at (sx_ledger st) paths t;
       sized \<leftarrow> amounts_for_branch branch standing (sx_ledger st) (balance_at (sx_balances st) t);
       or_return sized (\<lambda>sized. do {
         ledger \<leftarrow> rescale_each sized (sx_ledger st);
         execute_swaps env m base_overrides capture sized (st\<lparr>sx_ledger := ledger\<rparr>)
       })
     }"

lemma release_hops [simp]: "sx_hops_by_token (release t st) = sx_hops_by_token st"
  by (simp add: release_def Let_def split: option.splits)

lemma execute_swaps_hops:
  "execute_swaps env m base_overrides capture sized st = ret (Inr st') \<Longrightarrow> sx_hops_by_token st' = sx_hops_by_token st"
proof (induction sized arbitrary: st)
  case (Cons x sized)
  then show ?case
    by (cases x) (fastforce simp: or_return_Inr_iff bind_eq_Some_conv Let_def split: prod.splits)
qed simp

lemma process_token_hops:
  "process_token env paths m base_overrides capture t branch st = ret (Inr st') \<Longrightarrow>
   sx_hops_by_token st' = sx_hops_by_token st"
  by (auto simp: process_token_def or_return_Inr_iff bind_eq_Some_conv dest: execute_swaps_hops)

function plan_loop ::
  "'s sim_env \<Rightarrow> path_allocation list \<Rightarrow> 's market_state \<Rightarrow> 's market_overrides \<Rightarrow> state_capture \<Rightarrow>
   's split_state \<Rightarrow> (algorithm_error + 's split_state) run" where
  "plan_loop env paths m base_overrides capture st =
     (case sx_ready st of
        [] \<Rightarrow> ret (Inr st)
      | t # ready \<Rightarrow>
          (case map_of (sx_hops_by_token st) t of
             None \<Rightarrow> plan_loop env paths m base_overrides capture (st\<lparr>sx_ready := ready\<rparr>)
           | Some branch \<Rightarrow>
               (case process_token env paths m base_overrides capture t branch
                       (st\<lparr>sx_ready := ready,
                           sx_hops_by_token := filter (\<lambda>x. fst x \<noteq> t) (sx_hops_by_token st)\<rparr>) of
                  None \<Rightarrow> panic
                | Some (Inl e) \<Rightarrow> ret (Inl e)
                | Some (Inr st') \<Rightarrow> plan_loop env paths m base_overrides capture st')))"
  by pat_completeness auto

lemma filter_key_shorter: "map_of xs t = Some v \<Longrightarrow> length (filter (\<lambda>x. fst x \<noteq> t) xs) < length xs"
  by (induction xs) (auto split: if_splits intro: le_imp_less_Suc)

lemma process_token_shorter:
  assumes "process_token env paths m base_overrides capture t branch
      (st\<lparr>sx_ready := ready, sx_hops_by_token := filter (\<lambda>x. fst x \<noteq> t) (sx_hops_by_token st)\<rparr>) = ret (Inr st')"
    and "map_of (sx_hops_by_token st) t = Some v"
  shows "length (sx_hops_by_token st') < length (sx_hops_by_token st)"
  using process_token_hops [OF assms(1)] filter_key_shorter [OF assms(2)] by simp

termination plan_loop
  by (relation "measures [\<lambda>(_, _, _, _, _, st). length (sx_hops_by_token st), \<lambda>(_, _, _, _, _, st). length (sx_ready st)]")
    (auto dest: process_token_shorter)

declare plan_loop.simps [simp del]

fun validate_paths :: "'s sim_env \<Rightarrow> path_allocation list \<Rightarrow> algorithm_error + unit" where
  "validate_paths env [] = Inr ()"
| "validate_paths env (p # paths) =
     (case validate_token_cycles env p of Inl e \<Rightarrow> Inl e | Inr _ \<Rightarrow> validate_paths env paths)"

definition split_start :: "path_allocation list \<Rightarrow> address \<Rightarrow> biguint \<Rightarrow> path_ledger \<Rightarrow> 's split_state" where
  "split_start paths start_token start_amount ledger =
     (let hops_by_token = merge_shared_hops paths in
      \<lparr>sx_hops_by_token = hops_by_token, sx_in_degree = build_in_degree hops_by_token, sx_ready = [start_token],
       sx_ledger = ledger, sx_balances = [start_token \<mapsto> start_amount], sx_swaps = [],
       sx_post_swap = Map.empty, sx_total_gas = 0\<rparr>)"

fun join_comma :: "string list \<Rightarrow> string" where
  "join_comma [] = []"
| "join_comma [x] = x"
| "join_comma (x # y # xs) = x @ '', '' @ join_comma (y # xs)"

definition execute_split_plan ::
  "'s sim_env \<Rightarrow> path_allocation list \<Rightarrow> 's market_state \<Rightarrow> address \<Rightarrow> biguint \<Rightarrow> 's market_overrides \<Rightarrow>
   state_capture \<Rightarrow> (algorithm_error + 's split_state) run" where
  "execute_split_plan env paths m start_token start_amount base_overrides capture =
     or_return (validate_paths env paths) (\<lambda>_.
     or_return (ledger_new paths) (\<lambda>ledger. do {
       executed \<leftarrow> plan_loop env paths m base_overrides capture (split_start paths start_token start_amount ledger);
       or_return executed (\<lambda>st.
         if sx_hops_by_token st \<noteq> []
         then ret (Inl (OtherAlgorithmError (''dependency cycle '' @ [CHR 0xE2, CHR 0x80, CHR 0x94] @ '' unprocessed tokens: [''
                @ join_comma (map (pm_show_address env \<circ> fst) (sx_hops_by_token st)) @ '']'')))
         else ret (Inr st))
     }))"

subsection \<open>What is built on the plan\<close>

definition build_post_swap_overrides ::
  "'s sim_env \<Rightarrow> path_allocation list \<Rightarrow> 's market_state \<Rightarrow> (algorithm_error + 's market_overrides) run" where
  "build_post_swap_overrides env paths m =
     (case paths of
        [] \<Rightarrow> ret (Inr Map.empty)
      | p # _ \<Rightarrow>
          (case pa_hops p of
             [] \<Rightarrow> ret (Inr Map.empty)
           | root_hop # _ \<Rightarrow>
               map_option (map_sum id sx_post_swap)
                 (execute_split_plan env paths m (hop_in (sh_descriptor root_hop)) (sum_list (map pa_amount_in paths))
                    Map.empty Skip)))"

definition allocation_of ::
  "(hop_descriptor list \<times> f64) \<times> biguint \<Rightarrow> algorithm_error + path_allocation" where
  "allocation_of x =
     (case x of ((path, flow_fraction), amount_in) \<Rightarrow>
        if path = [] then Inl (OtherAlgorithmError ''path has no hops'')
        else Inr \<lparr>pa_hops = map (\<lambda>d. \<lparr>sh_descriptor = d, sh_amount_out = 0, sh_gas = 0\<rparr>) path,
                  pa_flow_fraction = flow_fraction, pa_amount_in = amount_in, pa_amount_out = 0,
                  pa_marginal_price_product = Finite 0\<rparr>)"

definition allocations_from_descriptors ::
  "hop_descriptor list list \<Rightarrow> f64 list \<Rightarrow> biguint \<Rightarrow> (algorithm_error + path_allocation list) run" where
  "allocations_from_descriptors paths fractions amount =
     (if length paths \<noteq> length fractions
      then ret (Inl (OtherAlgorithmError (''paths/fractions length mismatch: '' @ decimal (length paths) @ '' paths, ''
             @ decimal (length fractions) @ '' fractions'')))
      else do {
        divided \<leftarrow> fractions_to_amounts amount fractions;
        or_return (map_sum (OtherAlgorithmError \<circ> split_math_message) id divided) (\<lambda>amounts.
          try_each (\<lambda>x. ret (allocation_of x)) (zip (zip paths fractions) amounts))
      })"

definition evaluate_total_output ::
  "'s sim_env \<Rightarrow> hop_descriptor list list \<Rightarrow> f64 list \<Rightarrow> biguint \<Rightarrow> 's market_state \<Rightarrow> 's market_overrides \<Rightarrow>
   (algorithm_error + biguint \<times> nat) run" where
  "evaluate_total_output env paths fractions amount m overrides =
     (case paths of
        (first_hop # _) # _ \<Rightarrow>
          if [] \<in> set paths then ret (Inl (OtherAlgorithmError ''path has no hops''))
          else do {
            allocated \<leftarrow> allocations_from_descriptors paths fractions amount;
            or_return allocated (\<lambda>allocations. do {
              executed \<leftarrow> execute_split_plan env allocations m (hop_in first_hop) amount overrides Skip;
              or_return executed (\<lambda>st.
                ret (Inr (sum_list (map (balance_at (sx_balances st)) (remdups (map (hop_out \<circ> last) paths))),
                          sx_total_gas st)))
            })
          }
      | _ \<Rightarrow> ret (Inl (OtherAlgorithmError ''paths must not be empty'')))"

definition split_route_swap ::
  "'s market_state \<Rightarrow> 's simulated_split_swap \<Rightarrow> algorithm_error + 's swap" where
  "split_route_swap m executed =
     (let c = hd_component_id (xs_hop executed) in
      case get_component m c of
        None \<Rightarrow> Inl (DataNotFound ''protocol component'' (Some c))
      | Some component \<Rightarrow>
          (case xs_pre_swap_state executed of
             None \<Rightarrow> Inl (OtherAlgorithmError (''the plan kept no state for the swap through '' @ c))
           | Some pre_swap_state \<Rightarrow>
               Inr ((swap_new c (pc_protocol_system component) (hop_in (xs_hop executed)) (hop_out (xs_hop executed))
                       (xs_amount_in executed) (xs_amount_out executed) (xs_gas executed) component pre_swap_state)
                    \<lparr>sw_split := xs_split executed\<rparr>)))"

definition or_insert :: "'a \<Rightarrow> 'b \<Rightarrow> ('a \<rightharpoonup> 'b) \<Rightarrow> 'a \<rightharpoonup> 'b" where
  "or_insert k v t = (case t k of None \<Rightarrow> t(k \<mapsto> v) | Some _ \<Rightarrow> t)"

definition split_route_tokens :: "'s simulated_split_swap list \<Rightarrow> address \<rightharpoonup> token" where
  "split_route_tokens swaps =
     fold (\<lambda>x t. or_insert (hop_out (xs_hop x)) (hd_token_out (xs_hop x))
                   (or_insert (hop_in (xs_hop x)) (hd_token_in (xs_hop x)) t)) swaps Map.empty"

text \<open>\<open>Route::new\<close> has one error, the empty route.\<close>

definition build_split_route ::
  "'s sim_env \<Rightarrow> path_allocation list \<Rightarrow> 's market_state \<Rightarrow> order \<Rightarrow> (algorithm_error + 's route) run" where
  "build_split_route env paths m d =
     do {
       executed \<leftarrow> execute_split_plan env paths m (od_token_in d) (od_amount d) Map.empty Keep;
       or_return executed (\<lambda>st. do {
         built \<leftarrow> try_each (\<lambda>x. ret (split_route_swap m x)) (sx_swaps st);
         or_return built (\<lambda>swaps.
           ret (map_sum (\<lambda>_. OtherAlgorithmError ''route must contain at least one swap'') id
                  (route_new swaps (split_route_tokens (sx_swaps st)))))
       })
     }"

subsection \<open>Dividing a balance\<close>

text \<open>What the fractions of one token mean: the swaps spend the whole balance, every swap but the
  last takes the part its fraction stands for, and the last takes the remainder.\<close>

definition divides :: "biguint \<Rightarrow> split_swap list \<Rightarrow> bool" where
  "divides amount swaps =
     (sum_list (map ms_amount_in swaps) = amount
      \<and> (\<forall>s \<in> set (butlast swaps). map_option fst (split_amount amount (ms_split s)) = ret (ms_amount_in s))
      \<and> (swaps \<noteq> [] \<longrightarrow> ms_split (last swaps) = Finite 0))"

lemma split_part_not_panic: "map_option fst (split_amount n f) \<noteq> panic"
  using split_amount_exact [of n f] by auto

lemma fractions_to_amounts_no_panic: "fractions_to_amounts amount fractions \<noteq> panic"
proof -
  have "run_each (\<lambda>f. map_option fst (split_amount amount f)) (butlast fractions) \<noteq> panic"
    by (rule run_each_no_panic) (rule split_part_not_panic)
  then show ?thesis by (auto simp: fractions_to_amounts_def Let_def)
qed

lemma fractions_to_amounts_Inr:
  assumes "fractions_to_amounts amount fractions = ret (Inr amounts)"
  shows "sum_list amounts = amount" "length amounts = length fractions"
    and "list_all2 (\<lambda>f n. map_option fst (split_amount amount f) = ret n) (butlast fractions) (butlast amounts)"
proof -
  have ne: "fractions \<noteq> []" using assms by (auto simp: fractions_to_amounts_def)
  then obtain parts where run: "run_each (\<lambda>f. map_option fst (split_amount amount f)) (butlast fractions) = ret parts"
    and le: "sum_list parts \<le> amount" and amounts: "amounts = parts @ [amount - sum_list parts]"
    using assms by (auto simp: fractions_to_amounts_def bind_eq_Some_conv Let_def split: if_splits)
  have all: "list_all2 (\<lambda>f n. map_option fst (split_amount amount f) = ret n) (butlast fractions) parts"
    using run by (simp only: run_each_ret)
  then show "list_all2 (\<lambda>f n. map_option fst (split_amount amount f) = ret n) (butlast fractions) (butlast amounts)"
    by (simp add: amounts)
  show "sum_list amounts = amount" using le by (simp add: amounts)
  show "length amounts = length fractions"
    using list_all2_lengthD [OF all] ne by (cases fractions rule: rev_cases) (simp_all add: amounts)
qed

text \<open>C35: Converting fractions into amounts never panics, and the amounts it returns are one per
  fraction and add up to the total exactly, whatever the rounding of the fractions.\<close>

theorem fractions_divide_exactly:
  "case fractions_to_amounts amount fractions of
     None \<Rightarrow> False
   | Some (Inl EmptyFractions) \<Rightarrow> fractions = []
   | Some (Inl (ExceedsTotal asked available)) \<Rightarrow> available = amount \<and> amount < asked
   | Some (Inl _) \<Rightarrow> False
   | Some (Inr amounts) \<Rightarrow> length amounts = length fractions \<and> sum_list amounts = amount"
proof (cases "fractions_to_amounts amount fractions")
  case None
  then show ?thesis using fractions_to_amounts_no_panic by blast
next
  case (Some r)
  show ?thesis
  proof (cases r)
    case (Inl e)
    then show ?thesis using Some
      by (auto simp: fractions_to_amounts_def bind_eq_Some_conv Let_def split: if_splits)
  next
    case (Inr amounts)
    then show ?thesis using Some fractions_to_amounts_Inr [of amount fractions amounts] by simp
  qed
qed

lemma splits_from_amounts_divides:
  assumes "splits_from_amounts hops available = ret (Inr swaps)"
  shows "divides available swaps" "ms_hop ` set swaps = ms_hop ` set hops" "swaps \<noteq> []"
proof -
  define sorted where sorted: "sorted = sort_desc_by ms_amount_in hops"
  define fractions where fractions: "fractions = map (\<lambda>(ix, s). if ix = length sorted - 1 then Finite 0
      else share_of (ms_amount_in s) available) (enumerate 0 sorted)"
  obtain amounts where run: "fractions_to_amounts available fractions = ret (Inr amounts)"
    and swaps: "swaps = map (\<lambda>(s, split, amount). s\<lparr>ms_split := split, ms_amount_in := amount\<rparr>)
                 (zip sorted (zip fractions amounts))"
    using assms unfolding splits_from_amounts_def Let_def sorted [symmetric] fractions [symmetric]
    by (auto simp: bind_eq_Some_conv or_return_Inr_iff split: sum.splits)
  note amounts = fractions_to_amounts_Inr [OF run]
  have len: "length fractions = length sorted" "length amounts = length sorted"
    using amounts(2) by (simp_all add: fractions)
  have "sorted \<noteq> []" using run len by (auto simp: fractions_to_amounts_def)
  then show "swaps \<noteq> []" using len by (auto simp: swaps)
  have maps: "map ms_amount_in swaps = amounts" "map ms_split swaps = fractions" "map ms_hop swaps = map ms_hop sorted"
    using len by (simp_all add: swaps list_eq_iff_nth_eq)
  show "ms_hop ` set swaps = ms_hop ` set hops"
    using maps(3) by (metis list.set_map set_sort_desc_by sorted)
  have "swaps \<noteq> [] \<longrightarrow> ms_split (last swaps) = Finite 0"
    using len by (auto simp: swaps last_conv_nth fractions nth_enumerate_eq)
  moreover have "map_option fst (split_amount available (ms_split s)) = ret (ms_amount_in s)" if "s \<in> set (butlast swaps)" for s
  proof -
    have "list_all2 (\<lambda>f n. map_option fst (split_amount available f) = ret n)
        (map ms_split (butlast swaps)) (map ms_amount_in (butlast swaps))"
      using amounts(3) by (simp add: map_butlast maps)
    then show ?thesis using that by (simp add: list_all2_map1 list_all2_map2 list_all2_same)
  qed
  ultimately show "divides available swaps" using amounts(1) by (simp add: divides_def maps(1))
qed

lemma amounts_for_branch_divides:
  assumes "amounts_for_branch branch standing ledger amount = ret (Inr sized)"
  shows "divides amount (map fst sized)" "ms_hop ` fst ` set sized = ms_hop ` set branch" "sized \<noteq> []"
proof -
  obtain swaps swaps' where each: "try_each (size_swap standing ledger) branch = ret (Inr swaps)"
    and run: "splits_from_amounts swaps amount = ret (Inr swaps')"
    and sized: "map fst sized = swaps'"
    using assms by (auto simp: amounts_for_branch_def bind_eq_Some_conv or_return_Inr_iff comp_def)
  have "list_all2 (\<lambda>b s. ms_hop s = ms_hop b) branch swaps"
    using each unfolding try_each_Inr
    by (rule list_all2_mono) (auto simp: size_swap_def bind_eq_Some_conv split: option.splits)
  then have "map ms_hop swaps = map ms_hop branch"
    by (induction rule: list_all2_induct) auto
  then have "ms_hop ` set swaps = ms_hop ` set branch" by (metis list.set_map)
  then show "ms_hop ` fst ` set sized = ms_hop ` set branch"
    using splits_from_amounts_divides(2) [OF run] sized by (metis list.set_map)
  show "divides amount (map fst sized)" using splits_from_amounts_divides(1) [OF run] sized by simp
  show "sized \<noteq> []" using splits_from_amounts_divides(3) [OF run] sized by auto
qed

subsection \<open>Replaying the plan\<close>

text \<open>
  \<open>replays_as\<close> relates the state of the plan to the state of a replay that has run the swaps so far;
  \<open>stands_for\<close> relates an executed swap to the swap of the route.
\<close>

definition simulated_of :: "'s simulated_split_swap \<Rightarrow> simulated_swap" where
  "simulated_of x = \<lparr>sv_amount_in = xs_amount_in x, sv_amount_out = xs_amount_out x, sv_gas = xs_gas x\<rparr>"

definition stands_for :: "'s simulated_split_swap \<Rightarrow> 's swap \<Rightarrow> bool" where
  "stands_for x s =
     (sw_component_id s = hd_component_id (xs_hop x) \<and> sw_token_in s = hop_in (xs_hop x)
      \<and> sw_token_out s = hop_out (xs_hop x) \<and> sw_split s = xs_split x)"

definition replays_as :: "'s split_state \<Rightarrow> 's replay_state \<Rightarrow> bool" where
  "replays_as st ry =
     (ry_available ry = sx_balances st \<and> ry_post_swap ry = sx_post_swap st
      \<and> ry_simulated ry = map simulated_of (sx_swaps st)
      \<and> ry_total_gas ry = sum_list (map xs_gas (sx_swaps st)))"

definition hop_known :: "'s market_state \<Rightarrow> hop_descriptor \<Rightarrow> bool" where
  "hop_known m hop =
     (mk_tokens m (hop_in hop) = Some (hd_token_in hop) \<and> mk_tokens m (hop_out hop) = Some (hd_token_out hop)
      \<and> hop_in hop \<noteq> hop_out hop)"

abbreviation replay_each ::
  "'s sim_env \<Rightarrow> 's market_state \<Rightarrow> 's swap list \<Rightarrow> 's replay_state \<Rightarrow> (replay_error + 's replay_state) run" where
  "replay_each env m \<equiv> simulate_each env (mk_tokens m) (\<lambda>s. mk_simulation_states m (sw_component_id s))"

lemma release_fields [simp]:
  "sx_balances (release t st) = sx_balances st" "sx_swaps (release t st) = sx_swaps st"
  "sx_post_swap (release t st) = sx_post_swap st" "sx_ledger (release t st) = sx_ledger st"
  by (simp_all add: release_def Let_def split: option.splits)

lemma simulate_each_append:
  assumes "simulate_each env get_token get_state xs st = ret (Inr st1)"
  shows "simulate_each env get_token get_state (xs @ ys) st = simulate_each env get_token get_state ys st1"
  using assms by (induction xs arbitrary: st) (auto simp: bind_eq_Some_conv or_return_Inr_iff)

text \<open>One swap of the plan, and the same swap replayed.\<close>

lemma execute_swaps_Cons_Inr:
  assumes "execute_swaps env m Map.empty capture ((swap, fed) # sized) st = ret (Inr st')"
  obtains result s x st1 where
    "(case sx_post_swap st (hd_component_id (ms_hop swap)) of
        None \<Rightarrow> mk_simulation_states m (hd_component_id (ms_hop swap)) | Some s \<Rightarrow> Some s) = Some s"
    and "get_amount_out_guarded env s (ms_amount_in swap) (hd_token_in (ms_hop swap)) (hd_token_out (ms_hop swap)) = Inr result"
    and "ms_amount_in swap \<le> balance_at (sx_balances st) (hop_in (ms_hop swap))"
    and "xs_hop x = ms_hop swap" "xs_split x = ms_split swap" "xs_amount_in x = ms_amount_in swap"
      "xs_amount_out x = ao_amount result" "xs_gas x = ao_gas result"
    and "sx_balances st1 = credit (hop_out (ms_hop swap)) (ao_amount result)
           ((sx_balances st)(hop_in (ms_hop swap) \<mapsto> balance_at (sx_balances st) (hop_in (ms_hop swap)) - ms_amount_in swap))"
      "sx_swaps st1 = sx_swaps st @ [x]"
      "sx_post_swap st1 = (sx_post_swap st)(hd_component_id (ms_hop swap) \<mapsto> ao_new_state result)"
    and "execute_swaps env m Map.empty capture sized st1 = ret (Inr st')"
proof -
  obtain balances x new_state ledger1 ledger2 where
    spent: "spend (hd_token_in (ms_hop swap)) (hd_component_id (ms_hop swap)) (ms_amount_in swap) (sx_balances st) = Inr balances"
    and merged: "run_merged_swap env swap m Map.empty (sx_post_swap st) capture = Inr (x, new_state)"
    and rest: "execute_swaps env m Map.empty capture sized (release (hop_out (ms_hop swap))
             (st\<lparr>sx_balances := credit (hop_out (ms_hop swap)) (xs_amount_out x) balances,
                 sx_ledger := ledger2,
                 sx_total_gas := saturating_gas (sx_total_gas st) (xs_gas x),
                 sx_swaps := sx_swaps st @ [x],
                 sx_post_swap := (sx_post_swap st)(hd_component_id (ms_hop swap) \<mapsto> new_state)\<rparr>)) = ret (Inr st')"
    using assms by (auto simp: or_return_Inr_iff bind_eq_Some_conv Let_def)
  obtain s result where
    s: "(case sx_post_swap st (hd_component_id (ms_hop swap)) of
        None \<Rightarrow> mk_simulation_states m (hd_component_id (ms_hop swap)) | Some s \<Rightarrow> Some s) = Some s"
    and result: "get_amount_out_guarded env s (ms_amount_in swap) (hd_token_in (ms_hop swap)) (hd_token_out (ms_hop swap)) = Inr result"
    and x: "xs_hop x = ms_hop swap" "xs_split x = ms_split swap" "xs_amount_in x = ms_amount_in swap"
      "xs_amount_out x = ao_amount result" "xs_gas x = ao_gas result" "new_state = ao_new_state result"
    using merged
    by (auto simp: run_merged_swap_def pool_state_def ok_or_def split: option.splits sum.splits)
  have le: "ms_amount_in swap \<le> balance_at (sx_balances st) (hop_in (ms_hop swap))"
    and balances: "balances = (sx_balances st)(hop_in (ms_hop swap) \<mapsto>
        balance_at (sx_balances st) (hop_in (ms_hop swap)) - ms_amount_in swap)"
    using spent by (auto simp: spend_def Let_def split: if_splits)
  show thesis by (rule that [OF s result le x(1-5) _ _ _ rest]) (simp_all add: x balances)
qed

lemma replay_step:
  assumes rel: "replays_as st ry" and known: "hop_known m (ms_hop swap)"
    and s: "(case sx_post_swap st (hd_component_id (ms_hop swap)) of
        None \<Rightarrow> mk_simulation_states m (hd_component_id (ms_hop swap)) | Some s \<Rightarrow> Some s) = Some s"
    and result: "get_amount_out_guarded env s (ms_amount_in swap) (hd_token_in (ms_hop swap)) (hd_token_out (ms_hop swap)) = Inr result"
    and le: "ms_amount_in swap \<le> balance_at (sx_balances st) (hop_in (ms_hop swap))"
    and x: "xs_hop x = ms_hop swap" "xs_amount_in x = ms_amount_in swap"
      "xs_amount_out x = ao_amount result" "xs_gas x = ao_gas result"
    and st1: "sx_balances st1 = credit (hop_out (ms_hop swap)) (ao_amount result)
           ((sx_balances st)(hop_in (ms_hop swap) \<mapsto> balance_at (sx_balances st) (hop_in (ms_hop swap)) - ms_amount_in swap))"
      "sx_swaps st1 = sx_swaps st @ [x]"
      "sx_post_swap st1 = (sx_post_swap st)(hd_component_id (ms_hop swap) \<mapsto> ao_new_state result)"
    and sw: "stands_for x sw"
    and amount: "replay_amount_in sw b (balance_at (sx_balances st) (hop_in (ms_hop swap))) = ret (ms_amount_in swap)"
    and b: "b = (case ry_branch_totals ry (hop_in (ms_hop swap)) of
              None \<Rightarrow> balance_at (sx_balances st) (hop_in (ms_hop swap)) | Some n \<Rightarrow> n)"
  obtains ry1 where "simulate_swap env (mk_tokens m) (\<lambda>s. mk_simulation_states m (sw_component_id s)) sw ry = ret (Inr ry1)"
    and "replays_as st1 ry1" "ry_branch_totals ry1 = (ry_branch_totals ry)(hop_in (ms_hop swap) \<mapsto> b)"
proof -
  let ?t = "hop_in (ms_hop swap)"
  let ?ry = "record_swap sw b (ms_amount_in swap) (balance_at (sx_balances st) ?t - ms_amount_in swap) result ry"
  have fields: "sw_component_id sw = hd_component_id (ms_hop swap)" "sw_token_in sw = ?t"
    "sw_token_out sw = hop_out (ms_hop swap)"
    using sw x(1) by (simp_all add: stands_for_def)
  have held: "held ry ?t = balance_at (sx_balances st) ?t" using rel by (simp add: replays_as_def balance_at_def)
  have sim: "(case ry_post_swap ry (sw_component_id sw) of
        None \<Rightarrow> mk_simulation_states m (sw_component_id sw) | Some s \<Rightarrow> Some s) = Some s"
    using s rel unfolding fields(1) by (simp add: replays_as_def)
  have "simulate_swap env (mk_tokens m) (\<lambda>s. mk_simulation_states m (sw_component_id s)) sw ry = ret (Inr ?ry)"
    using known amount le
    by (simp add: simulate_swap_def fields(2,3) ok_or_def hop_known_def held b [symmetric] sim result)
  moreover have "replays_as st1 ?ry"
    using rel by (auto simp: replays_as_def record_swap_def fields st1 credit_def balance_at_def simulated_of_def x Let_def)
  moreover have "ry_branch_totals ?ry = (ry_branch_totals ry)(?t \<mapsto> b)"
    by (simp add: record_swap_def fields Let_def)
  ultimately show thesis by (rule that)
qed

text \<open>The swaps of one token.\<close>

lemma replay_group:
  assumes "execute_swaps env m Map.empty capture sized st = ret (Inr st')"
    and "\<And>s. s \<in> fst ` set sized \<Longrightarrow> hop_in (ms_hop s) = t \<and> hop_known m (ms_hop s)"
    and "\<And>s. s \<in> set (butlast (map fst sized)) \<Longrightarrow> map_option fst (split_amount amount (ms_split s)) = ret (ms_amount_in s)"
    and "sized \<noteq> [] \<Longrightarrow> ms_split (last (map fst sized)) = Finite 0"
    and "balance_at (sx_balances st) t = sum_list (map (ms_amount_in \<circ> fst) sized)"
  shows "\<exists>xs. sx_swaps st' = sx_swaps st @ xs \<and> length xs = length sized
    \<and> (\<forall>x \<in> set xs. hop_in (xs_hop x) = t) \<and> map xs_amount_in xs = map (ms_amount_in \<circ> fst) sized
    \<and> (\<forall>ss ry. list_all2 stands_for xs ss \<longrightarrow> (\<forall>s \<in> set (butlast ss). f64_less (Finite 0) (sw_split s)) \<longrightarrow>
        replays_as st ry \<longrightarrow>
        (case ry_branch_totals ry t of None \<Rightarrow> balance_at (sx_balances st) t | Some n \<Rightarrow> n) = amount \<longrightarrow>
        (\<exists>ry'. replay_each env m ss ry = ret (Inr ry') \<and> replays_as st' ry'
           \<and> (\<forall>t'. t' \<noteq> t \<longrightarrow> ry_branch_totals ry' t' = ry_branch_totals ry t')))"
  using assms
proof (induction sized arbitrary: st)
  case Nil
  then show ?case by auto
next
  case (Cons y sized)
  obtain swap fed where y: "y = (swap, fed)" by fastforce
  let ?hop = "ms_hop swap"
  have t: "hop_in ?hop = t" and known: "hop_known m ?hop" using Cons.prems(2) [of swap] by (auto simp: y)
  obtain result s x st1 where
    s: "(case sx_post_swap st (hd_component_id ?hop) of
        None \<Rightarrow> mk_simulation_states m (hd_component_id ?hop) | Some s \<Rightarrow> Some s) = Some s"
    and result: "get_amount_out_guarded env s (ms_amount_in swap) (hd_token_in ?hop) (hd_token_out ?hop) = Inr result"
    and le: "ms_amount_in swap \<le> balance_at (sx_balances st) (hop_in ?hop)"
    and x: "xs_hop x = ?hop" "xs_split x = ms_split swap" "xs_amount_in x = ms_amount_in swap"
      "xs_amount_out x = ao_amount result" "xs_gas x = ao_gas result"
    and st1: "sx_balances st1 = credit (hop_out ?hop) (ao_amount result)
           ((sx_balances st)(hop_in ?hop \<mapsto> balance_at (sx_balances st) (hop_in ?hop) - ms_amount_in swap))"
      "sx_swaps st1 = sx_swaps st @ [x]"
      "sx_post_swap st1 = (sx_post_swap st)(hd_component_id ?hop \<mapsto> ao_new_state result)"
    and rest: "execute_swaps env m Map.empty capture sized st1 = ret (Inr st')"
    by (rule execute_swaps_Cons_Inr [OF Cons.prems(1) [unfolded y]])
  have bal1: "balance_at (sx_balances st1) t = balance_at (sx_balances st) t - ms_amount_in swap"
    using known t by (auto simp: st1(1) credit_def balance_at_def hop_known_def)
  have left: "balance_at (sx_balances st1) t = sum_list (map (ms_amount_in \<circ> fst) sized)"
    using Cons.prems(5) by (simp add: bal1 y comp_def)
  have parts1: "map_option fst (split_amount amount (ms_split s)) = ret (ms_amount_in s)" if "s \<in> set (butlast (map fst sized))" for s
    using Cons.prems(3) [of s] that by (cases sized) (auto simp: y)
  have last1: "sized \<noteq> [] \<Longrightarrow> ms_split (last (map fst sized)) = Finite 0" using Cons.prems(4) by (auto simp: y)
  from Cons.IH [OF rest Cons.prems(2) parts1 last1 left] obtain xs where
    xs: "sx_swaps st' = sx_swaps st1 @ xs" "length xs = length sized" "\<forall>x \<in> set xs. hop_in (xs_hop x) = t"
      "map xs_amount_in xs = map (ms_amount_in \<circ> fst) sized"
    and replay: "\<And>ss ry. list_all2 stands_for xs ss \<Longrightarrow> (\<forall>s \<in> set (butlast ss). f64_less (Finite 0) (sw_split s)) \<Longrightarrow>
        replays_as st1 ry \<Longrightarrow>
        (case ry_branch_totals ry t of None \<Rightarrow> balance_at (sx_balances st1) t | Some n \<Rightarrow> n) = amount \<Longrightarrow>
        (\<exists>ry'. replay_each env m ss ry = ret (Inr ry') \<and> replays_as st' ry'
           \<and> (\<forall>t'. t' \<noteq> t \<longrightarrow> ry_branch_totals ry' t' = ry_branch_totals ry t'))"
    by fastforce
  have "\<exists>ry'. replay_each env m ss ry = ret (Inr ry') \<and> replays_as st' ry'
        \<and> (\<forall>t'. t' \<noteq> t \<longrightarrow> ry_branch_totals ry' t' = ry_branch_totals ry t')"
    if ss: "list_all2 stands_for (x # xs) ss" and pos: "\<forall>s \<in> set (butlast ss). f64_less (Finite 0) (sw_split s)"
      and rel: "replays_as st ry"
      and b: "(case ry_branch_totals ry t of None \<Rightarrow> balance_at (sx_balances st) t | Some n \<Rightarrow> n) = amount" for ss ry
  proof -
    obtain sw ss' where ss': "ss = sw # ss'" "stands_for x sw" "list_all2 stands_for xs ss'"
      using ss by (auto simp: list_all2_Cons1)
    have "replay_amount_in sw amount (balance_at (sx_balances st) t) = ret (ms_amount_in swap)"
    proof (cases "sized = []")
      case True
      then have "sw_split sw = Finite 0" "ms_amount_in swap = balance_at (sx_balances st) t"
        using Cons.prems(4,5) ss'(2) x by (simp_all add: y stands_for_def)
      then show ?thesis by (simp add: replay_amount_in_def)
    next
      case False
      then have "ss' \<noteq> []" using ss'(3) xs(2) by (auto dest: list_all2_lengthD)
      then have "f64_less (Finite 0) (ms_split swap)" using pos ss' x by (simp add: stands_for_def)
      moreover have "map_option fst (split_amount amount (ms_split swap)) = ret (ms_amount_in swap)"
        using Cons.prems(3) [of swap] False by (simp add: y)
      ultimately show ?thesis
        using ss'(2) x le t by (auto simp: replay_amount_in_def stands_for_def min_def)
    qed
    then obtain ry1 where step: "simulate_swap env (mk_tokens m) (\<lambda>s. mk_simulation_states m (sw_component_id s)) sw ry = ret (Inr ry1)"
      and rel1: "replays_as st1 ry1" and bt: "ry_branch_totals ry1 = (ry_branch_totals ry)(hop_in ?hop \<mapsto> amount)"
      using replay_step [OF rel known s result le x(1,3,4,5) st1 ss'(2), of amount] b t by metis
    have "\<forall>s \<in> set (butlast ss'). f64_less (Finite 0) (sw_split s)" using pos by (cases ss') (simp_all add: ss'(1))
    from replay [OF ss'(3) this rel1] show ?thesis
      by (auto simp: ss'(1) step bt t)
  qed
  then show ?case using xs x t by (intro exI [of _ "x # xs"]) (auto simp: st1(2) y)
qed

text \<open>The branches still to be processed: distinct tokens, each with swaps of that token.\<close>

definition branches_ok :: "'s market_state \<Rightarrow> (address \<times> split_swap list) list \<Rightarrow> bool" where
  "branches_ok m branches =
     (\<forall>t branch s. map_of branches t = Some branch \<longrightarrow> s \<in> set branch \<longrightarrow>
        hop_in (ms_hop s) = t \<and> hop_known m (ms_hop s))"

lemma map_of_filter_key: "map_of (filter (\<lambda>x. fst x \<noteq> t) xs) = (map_of xs)(t := None)"
  by (induction xs) auto

lemma branches_ok_filter: "branches_ok m xs \<Longrightarrow> branches_ok m (filter (\<lambda>x. fst x \<noteq> t) xs)"
  by (auto simp: branches_ok_def map_of_filter_key split: if_splits)

lemma process_token_replay:
  assumes run: "process_token env paths m Map.empty capture t branch st = ret (Inr st')"
    and branch: "\<And>s. s \<in> set branch \<Longrightarrow> hop_in (ms_hop s) = t \<and> hop_known m (ms_hop s)"
  shows "\<exists>xs. sx_swaps st' = sx_swaps st @ xs \<and> xs \<noteq> [] \<and> (\<forall>x \<in> set xs. hop_in (xs_hop x) = t)
    \<and> sum_list (map xs_amount_in xs) = balance_at (sx_balances st) t
    \<and> (\<forall>ss ry. list_all2 stands_for xs ss \<longrightarrow> (\<forall>s \<in> set (butlast ss). f64_less (Finite 0) (sw_split s)) \<longrightarrow>
        replays_as st ry \<longrightarrow> ry_branch_totals ry t = None \<longrightarrow>
        (\<exists>ry'. replay_each env m ss ry = ret (Inr ry') \<and> replays_as st' ry'
           \<and> (\<forall>t'. t' \<noteq> t \<longrightarrow> ry_branch_totals ry' t' = ry_branch_totals ry t')))"
proof -
  let ?amount = "balance_at (sx_balances st) t"
  obtain standing sized ledger where
    sized: "amounts_for_branch branch standing (sx_ledger st) ?amount = ret (Inr sized)"
    and exec: "execute_swaps env m Map.empty capture sized (st\<lparr>sx_ledger := ledger\<rparr>) = ret (Inr st')"
    using run by (auto simp: process_token_def bind_eq_Some_conv or_return_Inr_iff)
  note divided = amounts_for_branch_divides [OF sized]
  have hops: "hop_in (ms_hop s) = t \<and> hop_known m (ms_hop s)" if "s \<in> fst ` set sized" for s
  proof -
    have "ms_hop s \<in> ms_hop ` set branch" using that divided(2) by blast
    then show ?thesis using branch by auto
  qed
  have all: "sum_list (map (ms_amount_in \<circ> fst) sized) = ?amount" using divided(1) by (simp add: divides_def)
  have rel: "replays_as (st\<lparr>sx_ledger := ledger\<rparr>) ry = replays_as st ry" for ry by (simp add: replays_as_def)
  have "\<And>s. s \<in> set (butlast (map fst sized)) \<Longrightarrow> map_option fst (split_amount ?amount (ms_split s)) = ret (ms_amount_in s)"
    and "sized \<noteq> [] \<Longrightarrow> ms_split (last (map fst sized)) = Finite 0"
    using divided(1) by (auto simp: divides_def)
  note group = replay_group [OF exec hops this]
  have same: "sx_balances (st\<lparr>sx_ledger := ledger\<rparr>) = sx_balances st" "sx_swaps (st\<lparr>sx_ledger := ledger\<rparr>) = sx_swaps st"
    by simp_all
  from group [unfolded rel same] all obtain xs where
    xs: "sx_swaps st' = sx_swaps st @ xs" "\<forall>x \<in> set xs. hop_in (xs_hop x) = t"
      "map xs_amount_in xs = map (ms_amount_in \<circ> fst) sized" "length xs = length sized"
    and replay: "\<forall>ss ry. list_all2 stands_for xs ss \<longrightarrow> (\<forall>s \<in> set (butlast ss). f64_less (Finite 0) (sw_split s)) \<longrightarrow>
        replays_as st ry \<longrightarrow> (case ry_branch_totals ry t of None \<Rightarrow> ?amount | Some n \<Rightarrow> n) = ?amount \<longrightarrow>
        (\<exists>ry'. replay_each env m ss ry = ret (Inr ry') \<and> replays_as st' ry'
           \<and> (\<forall>t'. t' \<noteq> t \<longrightarrow> ry_branch_totals ry' t' = ry_branch_totals ry t'))"
    by metis
  have "sum_list (map xs_amount_in xs) = ?amount" using all by (simp add: xs(3))
  moreover have "xs \<noteq> []" using xs(4) divided(3) by auto
  ultimately show ?thesis using xs(1,2) replay by (intro exI [of _ xs] conjI) simp_all
qed

definition explicit_splits :: "'s swap list \<Rightarrow> bool" where
  "explicit_splits swaps =
     (\<forall>t. \<forall>s \<in> set (butlast (filter (\<lambda>s. sw_token_in s = t) swaps)). f64_less (Finite 0) (sw_split s))"

lemma explicit_splits_suffix: "explicit_splits (xs @ ys) \<Longrightarrow> explicit_splits ys"
  unfolding explicit_splits_def
proof (intro allI ballI)
  fix t s
  assume all: "\<forall>t. \<forall>s \<in> set (butlast (filter (\<lambda>s. sw_token_in s = t) (xs @ ys))). f64_less (Finite 0) (sw_split s)"
    and s: "s \<in> set (butlast (filter (\<lambda>s. sw_token_in s = t) ys))"
  then have "filter (\<lambda>s. sw_token_in s = t) ys \<noteq> []" by auto
  then have "s \<in> set (butlast (filter (\<lambda>s. sw_token_in s = t) (xs @ ys)))" using s by (simp add: butlast_append)
  then show "f64_less (Finite 0) (sw_split s)" using all by blast
qed

lemma explicit_splits_group:
  assumes "explicit_splits (xs @ ys)" and "\<And>s. s \<in> set xs \<Longrightarrow> sw_token_in s = t"
    and "\<And>s. s \<in> set ys \<Longrightarrow> sw_token_in s \<noteq> t"
  shows "\<forall>s \<in> set (butlast xs). f64_less (Finite 0) (sw_split s)"
proof -
  have "filter (\<lambda>s. sw_token_in s = t) (xs @ ys) = xs" using assms(2,3) by (simp add: filter_True filter_False)
  then show ?thesis using assms(1) unfolding explicit_splits_def by metis
qed

lemma stands_for_tokens:
  "list_all2 stands_for xs ss \<Longrightarrow> map sw_token_in ss = map (hop_in \<circ> xs_hop) xs"
  by (induction rule: list_all2_induct) (auto simp: stands_for_def)

lemma plan_loop_replay:
  assumes "plan_loop env paths m base_overrides capture st = ret (Inr st')" and "branches_ok m (sx_hops_by_token st)"
    and "base_overrides = Map.empty"
  shows "\<exists>xs. sx_swaps st' = sx_swaps st @ xs \<and> (\<forall>x \<in> set xs. map_of (sx_hops_by_token st) (hop_in (xs_hop x)) \<noteq> None)
    \<and> (\<forall>ss ry. list_all2 stands_for xs ss \<longrightarrow> explicit_splits ss \<longrightarrow> replays_as st ry \<longrightarrow>
        (\<forall>t. map_of (sx_hops_by_token st) t \<noteq> None \<longrightarrow> ry_branch_totals ry t = None) \<longrightarrow>
        (\<exists>ry'. replay_each env m ss ry = ret (Inr ry') \<and> replays_as st' ry'))"
  using assms
proof (induction env paths m base_overrides capture st rule: plan_loop.induct)
  case (1 env paths m base_overrides capture st)
  show ?case
  proof (cases "sx_ready st")
    case Nil
    then show ?thesis using "1.prems"(1) by (auto simp: plan_loop.simps [of _ _ _ _ _ st])
  next
    case (Cons t ready)
    show ?thesis
    proof (cases "map_of (sx_hops_by_token st) t")
      case None
      have "replays_as (st\<lparr>sx_ready := ready\<rparr>) ry = replays_as st ry" for ry by (simp add: replays_as_def)
      with "1.IH"(1) [OF Cons None] "1.prems" show ?thesis
        by (simp add: plan_loop.simps [of _ _ _ _ _ st] Cons None)
    next
      case (Some branch)
      let ?st = "st\<lparr>sx_ready := ready, sx_hops_by_token := filter (\<lambda>x. fst x \<noteq> t) (sx_hops_by_token st)\<rparr>"
      obtain st1 where p: "process_token env paths m base_overrides capture t branch ?st = ret (Inr st1)"
        and rest: "plan_loop env paths m base_overrides capture st1 = ret (Inr st')"
        using "1.prems"(1)
        by (auto simp: plan_loop.simps [of _ _ _ _ _ st] Cons Some split: option.splits sum.splits)
      have hops1: "sx_hops_by_token st1 = filter (\<lambda>x. fst x \<noteq> t) (sx_hops_by_token st)"
        using process_token_hops [OF p] by simp
      have keys: "map_of (sx_hops_by_token st1) = (map_of (sx_hops_by_token st))(t := None)"
        by (simp add: hops1 map_of_filter_key)
      have ok: "\<And>s. s \<in> set branch \<Longrightarrow> hop_in (ms_hop s) = t \<and> hop_known m (ms_hop s)"
        using "1.prems"(2) Some by (auto simp: branches_ok_def)
      obtain xs where xs: "sx_swaps st1 = sx_swaps ?st @ xs" "\<forall>x \<in> set xs. hop_in (xs_hop x) = t"
        and first: "\<And>ss ry. list_all2 stands_for xs ss \<Longrightarrow> (\<forall>s \<in> set (butlast ss). f64_less (Finite 0) (sw_split s)) \<Longrightarrow>
          replays_as ?st ry \<Longrightarrow> ry_branch_totals ry t = None \<Longrightarrow>
          (\<exists>ry'. replay_each env m ss ry = ret (Inr ry') \<and> replays_as st1 ry'
             \<and> (\<forall>t'. t' \<noteq> t \<longrightarrow> ry_branch_totals ry' t' = ry_branch_totals ry t'))"
        using process_token_replay [OF p [unfolded "1.prems"(3)] ok] by blast
      have ok1: "branches_ok m (sx_hops_by_token st1)"
        using branches_ok_filter "1.prems"(2) by (simp add: hops1)
      obtain ys where ys: "sx_swaps st' = sx_swaps st1 @ ys"
          "\<forall>x \<in> set ys. map_of (sx_hops_by_token st1) (hop_in (xs_hop x)) \<noteq> None"
        and later: "\<And>ss ry. list_all2 stands_for ys ss \<Longrightarrow> explicit_splits ss \<Longrightarrow> replays_as st1 ry \<Longrightarrow>
          (\<forall>t. map_of (sx_hops_by_token st1) t \<noteq> None \<longrightarrow> ry_branch_totals ry t = None) \<Longrightarrow>
          (\<exists>ry'. replay_each env m ss ry = ret (Inr ry') \<and> replays_as st' ry')"
        using "1.IH"(2) [OF Cons Some p refl rest ok1 "1.prems"(3)] by blast
      have apart: "hop_in (xs_hop y) \<noteq> t" if "y \<in> set ys" for y
        using ys(2) that by (auto simp: keys)
      have "\<exists>ry'. replay_each env m ss ry = ret (Inr ry') \<and> replays_as st' ry'"
        if ss: "list_all2 stands_for (xs @ ys) ss" and ex: "explicit_splits ss" and rel: "replays_as st ry"
          and fresh: "\<forall>t. map_of (sx_hops_by_token st) t \<noteq> None \<longrightarrow> ry_branch_totals ry t = None" for ss ry
      proof -
        obtain s1 s2 where s: "ss = s1 @ s2" "list_all2 stands_for xs s1" "list_all2 stands_for ys s2"
          using ss by (auto simp: list_all2_append1)
        have "sw_token_in s = t" if "s \<in> set s1" for s
          using list_all2_set2 [OF s(2) that] xs(2) by (auto simp: stands_for_def)
        moreover have "sw_token_in s \<noteq> t" if "s \<in> set s2" for s
          using list_all2_set2 [OF s(3) that] apart unfolding stands_for_def by metis
        ultimately have pos: "\<forall>s \<in> set (butlast s1). f64_less (Finite 0) (sw_split s)"
          using explicit_splits_group ex unfolding s(1) by blast
        have "replays_as ?st ry" using rel by (simp add: replays_as_def)
        from first [OF s(2) pos this] fresh Some obtain ry1 where
          1: "replay_each env m s1 ry = ret (Inr ry1)" "replays_as st1 ry1"
          and bt: "\<forall>t'. t' \<noteq> t \<longrightarrow> ry_branch_totals ry1 t' = ry_branch_totals ry t'" by auto
        have "\<forall>t'. map_of (sx_hops_by_token st1) t' \<noteq> None \<longrightarrow> ry_branch_totals ry1 t' = None"
          using fresh bt by (simp add: keys)
        from later [OF s(3) explicit_splits_suffix [OF ex [unfolded s(1)]] 1(2) this]
        show ?thesis by (simp add: s(1) simulate_each_append [OF 1(1)])
      qed
      moreover have "\<forall>x \<in> set (xs @ ys). map_of (sx_hops_by_token st) (hop_in (xs_hop x)) \<noteq> None"
        using xs(2) ys(2) Some by (auto simp: keys split: if_splits)
      ultimately show ?thesis using xs(1) ys(1) by (intro exI [of _ "xs @ ys"]) simp
    qed
  qed
qed

subsection \<open>The route of a plan\<close>

lemma insert_hops_hop:
  "s \<in> set (fold insert_hop hops acc) \<Longrightarrow> s \<in> set acc \<or> ms_hop s \<in> set hops"
proof (induction hops arbitrary: acc)
  case (Cons h hops)
  from Cons.IH [of "insert_hop h acc"] Cons.prems show ?case by (auto simp: insert_hop_def split: if_splits)
qed simp

lemma merged_hop:
  assumes "map_of (merge_shared_hops paths) t = Some branch" "s \<in> set branch"
  shows "hop_in (ms_hop s) = t" "ms_hop s \<in> set (path_hops paths)"
proof -
  have "(t, branch) \<in> set (merge_shared_hops paths)" using assms(1) by (rule map_of_SomeD)
  then obtain b where "(t, b) \<in> set (branch_collections (hop_in \<circ> ms_hop) (fold insert_hop (path_hops paths) []))"
    "set branch = set b"
    by (auto simp: merge_shared_hops_def)
  then have "s \<in> set (fold insert_hop (path_hops paths) [])" "hop_in (ms_hop s) = t"
    using assms(2) by (auto simp: in_branch_collections)
  then show "hop_in (ms_hop s) = t" "ms_hop s \<in> set (path_hops paths)"
    using insert_hops_hop [of s "path_hops paths" "[]"] by simp_all
qed

text \<open>The first token processed is the start token, and its swaps spend the whole order.\<close>

lemma plan_first_token:
  assumes st0: "st0 = split_start paths start amount ledger"
    and run: "plan_loop env paths m Map.empty capture st0 = ret (Inr st')"
    and ok: "branches_ok m (merge_shared_hops paths)" and ne: "sx_swaps st' \<noteq> []"
  shows "hop_in (xs_hop (hd (sx_swaps st'))) = start
    \<and> sum_list (map xs_amount_in (filter (\<lambda>x. hop_in (xs_hop x) = start) (sx_swaps st'))) = amount"
proof -
  have init: "sx_ready st0 = [start]" "sx_hops_by_token st0 = merge_shared_hops paths" "sx_swaps st0 = []"
    "sx_balances st0 = [start \<mapsto> amount]"
    by (simp_all add: st0 split_start_def Let_def)
  have "map_of (merge_shared_hops paths) start \<noteq> None"
  proof
    assume none: "map_of (merge_shared_hops paths) start = None"
    have "st' = st0\<lparr>sx_ready := []\<rparr>" using run
      by (simp add: plan_loop.simps [of _ _ _ _ _ st0] init none plan_loop.simps [of _ _ _ _ _ "st0\<lparr>sx_ready := []\<rparr>"])
    then show False using ne init(3) by simp
  qed
  then obtain branch where branch: "map_of (merge_shared_hops paths) start = Some branch" by blast
  let ?st = "st0\<lparr>sx_ready := [], sx_hops_by_token := filter (\<lambda>x. fst x \<noteq> start) (merge_shared_hops paths)\<rparr>"
  obtain st1 where p: "process_token env paths m Map.empty capture start branch ?st = ret (Inr st1)"
    and rest: "plan_loop env paths m Map.empty capture st1 = ret (Inr st')"
    using run by (auto simp: plan_loop.simps [of _ _ _ _ _ st0] init(1,2) branch split: option.splits sum.splits)
  have "\<And>s. s \<in> set branch \<Longrightarrow> hop_in (ms_hop s) = start \<and> hop_known m (ms_hop s)"
    using ok branch by (auto simp: branches_ok_def)
  from process_token_replay [OF p this] obtain xs where
    xs: "sx_swaps st1 = xs" "xs \<noteq> []" "\<forall>x \<in> set xs. hop_in (xs_hop x) = start" "sum_list (map xs_amount_in xs) = amount"
    by (auto simp: init balance_at_def)
  have hops1: "sx_hops_by_token st1 = filter (\<lambda>x. fst x \<noteq> start) (merge_shared_hops paths)"
    using process_token_hops [OF p] by simp
  then have "branches_ok m (sx_hops_by_token st1)" using ok by (simp add: branches_ok_filter)
  from plan_loop_replay [OF rest this refl] obtain ys where
    ys: "sx_swaps st' = xs @ ys" "\<forall>x \<in> set ys. map_of (sx_hops_by_token st1) (hop_in (xs_hop x)) \<noteq> None"
    unfolding xs(1) by blast
  have "\<forall>x \<in> set ys. hop_in (xs_hop x) \<noteq> start" using ys(2) by (auto simp: hops1 map_of_filter_key)
  then have only: "filter (\<lambda>x. hop_in (xs_hop x) = start) (sx_swaps st') = xs"
    using xs(3) by (simp add: ys(1) filter_True filter_False)
  then show ?thesis using xs by (cases xs) (simp_all add: ys(1))
qed

definition carried :: "'s swap \<Rightarrow> simulated_swap" where
  "carried s = \<lparr>sv_amount_in = sw_amount_in s, sv_amount_out = sw_amount_out s, sv_gas = sw_gas_estimate s\<rparr>"

lemma split_route_swap_Inr:
  "split_route_swap m x = Inr s \<Longrightarrow> stands_for x s \<and> carried s = simulated_of x"
  by (auto simp: split_route_swap_def swap_new_def stands_for_def carried_def simulated_of_def Let_def split: option.splits)

lemma taken_carried:
  "taken t swaps (map carried swaps) = sum_list (map sw_amount_in (filter (\<lambda>s. sw_token_in s = t) swaps))"
  "given t swaps (map carried swaps) = sum_list (map sw_amount_out (filter (\<lambda>s. sw_token_out s = t) swaps))"
  by (induction swaps) (auto simp: taken_def given_def carried_def)

lemma build_split_route_Inr:
  assumes "build_split_route env paths m d = ret (Inr r)"
  obtains ledger st where "plan_loop env paths m Map.empty Keep (split_start paths (od_token_in d) (od_amount d) ledger) = ret (Inr st)"
    and "list_all2 stands_for (sx_swaps st) (rt_swaps r)" "map carried (rt_swaps r) = map simulated_of (sx_swaps st)"
    and "rt_swaps r \<noteq> []"
proof -
  obtain ledger st swaps where
    run: "plan_loop env paths m Map.empty Keep (split_start paths (od_token_in d) (od_amount d) ledger) = ret (Inr st)"
    and built: "try_each (\<lambda>x. ret (split_route_swap m x)) (sx_swaps st) = ret (Inr swaps)"
    and r: "route_new swaps (split_route_tokens (sx_swaps st)) = Inr r"
    using assms
    by (auto simp: build_split_route_def execute_split_plan_def bind_eq_Some_conv or_return_Inr_iff split: if_splits)
  have all: "list_all2 (\<lambda>x s. stands_for x s \<and> carried s = simulated_of x) (sx_swaps st) swaps"
    using built unfolding try_each_Inr
    by (rule list_all2_mono) (auto dest: split_route_swap_Inr)
  have swaps: "rt_swaps r = swaps" "swaps \<noteq> []" using r by (auto simp: route_new_def split: if_splits)
  have "map carried swaps = map simulated_of (sx_swaps st)"
    using all by (induction rule: list_all2_induct) auto
  moreover have "list_all2 stands_for (sx_swaps st) swaps" using all by (rule list_all2_mono) simp
  ultimately show thesis using that run swaps by simp
qed

text \<open>C36: The route built from a split plan replays to itself. When the tokens of its hops are the
  market's and every swap that shares its input token with a later swap carries an explicit
  fraction, replaying the route against the market it was built from succeeds, every swap takes and
  pays exactly the amounts and gas the route carries, and what the replay delivers of the output
  token is what the route's swaps pay into it less what they take out of it.\<close>

theorem split_route_replays:
  fixes env :: "'s sim_env"
  assumes built: "build_split_route env paths m d = ret (Inr r)"
    and known: "\<forall>hop \<in> set (path_hops paths). hop_known m hop"
    and explicit: "explicit_splits (rt_swaps r)"
  shows "\<exists>out simulated. input_token r = Some (od_token_in d) \<and> output_token r = Some out
    \<and> simulate_swaps env (rt_swaps r) (od_token_in d) out (od_amount d) (mk_tokens m)
        (\<lambda>s. mk_simulation_states m (sw_component_id s)) = ret (Inr simulated)
    \<and> sd_swaps simulated = map carried (rt_swaps r)
    \<and> replay_route env r m = ret (Inr \<lparr>rp_amount_out = sd_amount_out simulated, rp_gas = total_gas r\<rparr>)
    \<and> sd_amount_out simulated + sum_list (map sw_amount_in (filter (\<lambda>s. sw_token_in s = out) (rt_swaps r)))
        = route_amount_out r out + (if out = od_token_in d then od_amount d else 0)"
proof -
  obtain ledger st where
    run: "plan_loop env paths m Map.empty Keep (split_start paths (od_token_in d) (od_amount d) ledger) = ret (Inr st)"
    and ss: "list_all2 stands_for (sx_swaps st) (rt_swaps r)" and same: "map carried (rt_swaps r) = map simulated_of (sx_swaps st)"
    and ne: "rt_swaps r \<noteq> []"
    by (rule build_split_route_Inr [OF built])
  let ?get = "\<lambda>s. mk_simulation_states m (sw_component_id s)"
  let ?out = "sw_token_out (last (rt_swaps r))"
  have ok: "branches_ok m (merge_shared_hops paths)"
    using known by (auto simp: branches_ok_def dest: merged_hop)
  have ne': "sx_swaps st \<noteq> []" using ss ne by auto
  note first = plan_first_token [OF refl run ok ne']
  have input: "input_token r = Some (od_token_in d)"
    using ss ne first by (cases "sx_swaps st") (auto simp: input_token_def stands_for_def list_all2_Cons1)
  have amounts: "map sw_amount_in (rt_swaps r) = map xs_amount_in (sx_swaps st)" "map sw_gas_estimate (rt_swaps r) = map xs_gas (sx_swaps st)"
    using same by (auto simp: carried_def simulated_of_def map_equality_iff)
  have "sum_list (map sw_amount_in (filter (\<lambda>s. sw_token_in s = od_token_in d) (rt_swaps r)))
      = sum_list (map xs_amount_in (filter (\<lambda>x. hop_in (xs_hop x) = od_token_in d) (sx_swaps st)))"
    using ss same by (induction rule: list_all2_induct) (auto simp: stands_for_def carried_def simulated_of_def)
  then have spent: "sum_list (map sw_amount_in (filter (\<lambda>s. sw_token_in s = od_token_in d) (rt_swaps r))) = od_amount d"
    using first by simp
  let ?st0 = "split_start paths (od_token_in d) (od_amount d) ledger :: 's split_state"
  let ?ry0 = "replay_start (od_token_in d) (od_amount d) :: 's replay_state"
  have init: "sx_hops_by_token ?st0 = merge_shared_hops paths" "sx_swaps ?st0 = []" "ry_branch_totals ?ry0 = Map.empty"
    and rel: "replays_as ?st0 ?ry0"
    by (simp_all add: replays_as_def split_start_def replay_start_def Let_def)
  obtain xs where xs: "sx_swaps st = xs" and all: "\<forall>ss ry. list_all2 stands_for xs ss \<longrightarrow> explicit_splits ss \<longrightarrow>
      replays_as ?st0 ry \<longrightarrow> (\<forall>t. map_of (sx_hops_by_token ?st0) t \<noteq> None \<longrightarrow> ry_branch_totals ry t = None) \<longrightarrow>
      (\<exists>ry'. replay_each env m ss ry = ret (Inr ry') \<and> replays_as st ry')"
    using plan_loop_replay [OF run _ refl] ok unfolding init by fastforce
  then obtain ry where replay: "replay_each env m (rt_swaps r) ?ry0 = ret (Inr ry)" and rel': "replays_as st ry"
    using ss explicit rel init(3) by (metis fun_upd_same)
  have sims: "ry_simulated ry = map carried (rt_swaps r)" "ry_total_gas ry = total_gas r"
    using rel' by (simp_all add: replays_as_def same total_gas_def amounts(2) [symmetric] foldl_plus_sum_list [where f = "\<lambda>x. x", simplified])
  have "held ry ?out + taken ?out (rt_swaps r) (map carried (rt_swaps r))
      = (if ?out = od_token_in d then od_amount d else 0) + given ?out (rt_swaps r) (map carried (rt_swaps r))"
    using simulate_each_balance [OF replay] sims(1) by (auto simp: replay_start_def)
  then have out: "held ry ?out + sum_list (map sw_amount_in (filter (\<lambda>s. sw_token_in s = ?out) (rt_swaps r)))
      = route_amount_out r ?out + (if ?out = od_token_in d then od_amount d else 0)"
    by (simp add: taken_carried route_amount_out_def add.commute)
  let ?sim = "\<lparr>sd_swaps = ry_simulated ry, sd_amount_out = held ry ?out, sd_gas = ry_total_gas ry\<rparr>"
  have simulate: "simulate_swaps env (rt_swaps r) (od_token_in d) ?out (od_amount d) (mk_tokens m) ?get = ret (Inr ?sim)"
    using replay by (simp add: simulate_swaps_def)
  moreover have ends: "output_token r = Some ?out" using ne by (simp add: output_token_def)
  moreover have "replay_route env r m = ret (Inr \<lparr>rp_amount_out = held ry ?out, rp_gas = total_gas r\<rparr>)"
    using simulate by (simp add: replay_route_def input ends spent sims(2) Let_def)
  ultimately show ?thesis
    using input out sims(1) by (intro exI [of _ ?out] exI [of _ ?sim] conjI) simp_all
qed

text \<open>The example: an order of 100 split evenly over two pools, one of which pays half.\<close>

definition example_pools :: "nat sim_env" where
  "example_pools =
     \<lparr>pm_get_amount_out = (\<lambda>s n _ _. ret (Inr \<lparr>ao_amount = n div s, ao_gas = 7, ao_new_state = s\<rparr>)),
      pm_spot_price = (\<lambda>_ _ _. ret (Inr (Finite 1))), pm_show_address = id, pm_panic_message = (\<lambda>_ _ _ _. [])\<rparr>"

definition example_token :: "string \<Rightarrow> token" where
  "example_token a = \<lparr>tk_address = a, tk_symbol = a, tk_decimals = 18\<rparr>"

definition example_hop :: "component_id \<Rightarrow> hop_descriptor" where
  "example_hop c = \<lparr>hd_component_id = c, hd_token_in = example_token ''A'', hd_token_out = example_token ''B''\<rparr>"

definition example_path :: "component_id \<Rightarrow> path_allocation" where
  "example_path c = \<lparr>pa_hops = [\<lparr>sh_descriptor = example_hop c, sh_amount_out = 0, sh_gas = 0\<rparr>],
     pa_flow_fraction = Finite (1 / 2), pa_amount_in = 50, pa_amount_out = 0, pa_marginal_price_product = Finite 1\<rparr>"

definition example_pool :: "component_id \<Rightarrow> protocol_component" where
  "example_pool c = \<lparr>pc_id = c, pc_protocol_system = ''uniswap_v2'', pc_chain = ''ethereum'',
     pc_tokens = [''A'', ''B''], pc_static_attributes = Map.empty\<rparr>"

definition example_split_market :: "nat market_state" where
  "example_split_market = market_state_new
     \<lparr>mk_components := [''p'' \<mapsto> \<lparr>st_component = example_pool ''p'', st_swap_directions = [(''A'', ''B'')]\<rparr>,
                       ''q'' \<mapsto> \<lparr>st_component = example_pool ''q'', st_swap_directions = [(''A'', ''B'')]\<rparr>],
      mk_simulation_states := [''p'' \<mapsto> 1, ''q'' \<mapsto> 2],
      mk_tokens := [''A'' \<mapsto> example_token ''A'', ''B'' \<mapsto> example_token ''B'']\<rparr>"

definition example_split_order :: order where
  "example_split_order = \<lparr>od_id = ''o'', od_token_in = ''A'', od_token_out = ''B'', od_amount = 100, od_side = Sell,
     od_sender = ''me'', od_receiver = None\<rparr>"

definition example_built_swap :: "component_id \<Rightarrow> nat \<Rightarrow> nat \<Rightarrow> f64 \<Rightarrow> nat swap" where
  "example_built_swap c out s split =
     (swap_new c ''uniswap_v2'' ''A'' ''B'' 50 out 7 (example_pool c) s)\<lparr>sw_split := split\<rparr>"

definition example_built_route :: "nat route" where
  "example_built_route =
     \<lparr>rt_swaps = [example_built_swap ''p'' 50 1 (Finite (1 / 2)), example_built_swap ''q'' 25 2 (Finite 0)],
      rt_tokens = [''A'' \<mapsto> example_token ''A'', ''B'' \<mapsto> example_token ''B''], rt_fallback_amount_out = None\<rparr>"

lemma round_f64_small: "n < 2 ^ 53 \<Longrightarrow> round_f64 (of_nat n) = Finite (of_nat n)"
proof -
  assume n: "n < 2 ^ 53"
  have "(of_nat n :: rat) < 2 powi 53"
    using n by (metis of_nat_less_iff of_nat_numeral of_nat_power power_int_numeral)
  also have "\<dots> \<le> 2 powi 1024" by (rule power_int_increasing) simp_all
  finally show ?thesis by (simp add: round_f64_def round_rat_of_nat [OF n])
qed

lemma example_share: "share_of 50 100 = Finite (1 / 2)"
  using round_f64_small [of 50] round_f64_small [of 100]
  by (simp add: share_of_def biguint_to_f64_def round_f64_def round_rat_half)

lemma example_halves: "split_amount 100 (Finite (1 / 2)) = ret (50, 50)"
proof -
  let ?h = "of_nat (3814697265625 * 2 ^ 17) :: rat"
  have half: "1 / 2 * of_nat split_scale = ?h" by (simp add: split_scale_def)
  have "?h < 2 powi 1024" by simp
  moreover have "round_rat ?h = ?h" by (rule round_rat_shifted) simp
  ultimately have "round_f64 (1 / 2 * of_nat split_scale) = Finite ?h"
    unfolding half round_f64_def Let_def by (metis abs_of_nat linorder_not_le)
  then have "f64_mul (Finite (1 / 2)) (round_f64 (of_nat split_scale)) = Finite 500000000000000000"
    unfolding round_f64_scale by simp
  then show ?thesis
    unfolding split_amount_def
    by (simp add: f64_clamp_def split_scale_def biguint_div_def biguint_sub_def)
qed

lemma example_ends:
  "hd_component_id (example_hop c) = c" "tk_address (hd_token_in (example_hop c)) = ''A''"
  "tk_address (hd_token_out (example_hop c)) = ''B''"
  "hd_token_in (example_hop c) = example_token ''A''" "hd_token_out (example_hop c) = example_token ''B''"
  "tk_address (example_token a) = a" "pc_protocol_system (example_pool c) = ''uniswap_v2''"
  by (simp_all add: example_hop_def example_token_def example_pool_def)

lemma example_merged:
  "merge_shared_hops [example_path ''p'', example_path ''q''] =
     [(''A'', [\<lparr>ms_hop = example_hop ''p'', ms_split = Finite 0, ms_amount_in = 0\<rparr>,
              \<lparr>ms_hop = example_hop ''q'', ms_split = Finite 0, ms_amount_in = 0\<rparr>])]"
  by (simp add: merge_shared_hops_def path_hops_def example_path_def insert_hop_def hop_key_def example_hop_def
      branch_collections_def example_token_def)

lemma example_divided: "fractions_to_amounts 100 [Finite (1 / 2), Finite 0] = ret (Inr [50, 50])"
  by (simp add: fractions_to_amounts_def example_halves)

lemma example_shares: "share_output n [50] = ret [n]"
  by (simp add: share_output_def biguint_sub_def)

lemma example_sized:
  "amounts_for_branch [\<lparr>ms_hop = example_hop ''p'', ms_split = Finite 0, ms_amount_in = 0\<rparr>,
       \<lparr>ms_hop = example_hop ''q'', ms_split = Finite 0, ms_amount_in = 0\<rparr>]
     [(''p'', ''A'', ''B'') \<mapsto> [0], (''q'', ''A'', ''B'') \<mapsto> [Suc 0]]
     \<lparr>lg_amount_in = [50, 50], lg_next_hop_ix = [0, 0]\<rparr> 100
   = ret (Inr [(\<lparr>ms_hop = example_hop ''p'', ms_split = Finite (1 / 2), ms_amount_in = 50\<rparr>, [0]),
               (\<lparr>ms_hop = example_hop ''q'', ms_split = Finite 0, ms_amount_in = 50\<rparr>, [Suc 0])])"
  by (simp add: amounts_for_branch_def size_swap_def hop_key_def example_hop_def example_token_def fed_total_def
      fed_amounts_def vec_index_def splits_from_amounts_def sort_desc_by_def example_share example_divided)

lemma example_standing:
  "standing_at \<lparr>lg_amount_in = [50, 50], lg_next_hop_ix = [0, 0]\<rparr> [example_path ''p'', example_path ''q''] ''A''
   = ret [(''p'', ''A'', ''B'') \<mapsto> [0], (''q'', ''A'', ''B'') \<mapsto> [Suc 0]]"
  by (simp add: standing_at_def vec_index_def example_path_def example_hop_def example_token_def hop_key_def)

lemma example_merged_swap:
  assumes "mk_simulation_states example_split_market c = Some s" "post c = None"
  shows "run_merged_swap example_pools \<lparr>ms_hop = example_hop c, ms_split = f, ms_amount_in = n\<rparr> example_split_market
      Map.empty post Keep
   = Inr (\<lparr>xs_hop = example_hop c, xs_split = f, xs_amount_in = n, xs_amount_out = n div s, xs_gas = 7,
            xs_pre_swap_state = Some s\<rparr>, s)"
  using assms
  by (simp add: run_merged_swap_def pool_state_def ok_or_def example_hop_def get_amount_out_guarded_def example_pools_def)

lemma example_states:
  "mk_simulation_states example_split_market ''p'' = Some 1" "mk_simulation_states example_split_market ''q'' = Some 2"
  "get_component example_split_market ''p'' = Some (example_pool ''p'')"
  "get_component example_split_market ''q'' = Some (example_pool ''q'')"
  "mk_tokens example_split_market = [''A'' \<mapsto> example_token ''A'', ''B'' \<mapsto> example_token ''B'']"
  by (simp_all add: example_split_market_def market_state_new_def get_component_def)

lemma example_run:
  "process_token example_pools [example_path ''p'', example_path ''q''] example_split_market Map.empty Keep ''A''
     [\<lparr>ms_hop = example_hop ''p'', ms_split = Finite 0, ms_amount_in = 0\<rparr>,
      \<lparr>ms_hop = example_hop ''q'', ms_split = Finite 0, ms_amount_in = 0\<rparr>]
     \<lparr>sx_hops_by_token = [], sx_in_degree = [''A'' \<mapsto> 0, ''B'' \<mapsto> Suc (Suc 0)], sx_ready = [],
      sx_ledger = \<lparr>lg_amount_in = [50, 50], lg_next_hop_ix = [0, 0]\<rparr>, sx_balances = [''A'' \<mapsto> 100], sx_swaps = [],
      sx_post_swap = Map.empty, sx_total_gas = 0\<rparr>
   = ret (Inr \<lparr>sx_hops_by_token = [], sx_in_degree = [''A'' \<mapsto> 0, ''B'' \<mapsto> 0], sx_ready = [''B''],
      sx_ledger = \<lparr>lg_amount_in = [50, 25], lg_next_hop_ix = [Suc 0, Suc 0]\<rparr>, sx_balances = [''A'' \<mapsto> 0, ''B'' \<mapsto> 75],
      sx_swaps = [\<lparr>xs_hop = example_hop ''p'', xs_split = Finite (1 / 2), xs_amount_in = 50, xs_amount_out = 50, xs_gas = 7,
                    xs_pre_swap_state = Some (Suc 0)\<rparr>,
                  \<lparr>xs_hop = example_hop ''q'', xs_split = Finite 0, xs_amount_in = 50, xs_amount_out = 25, xs_gas = 7,
                    xs_pre_swap_state = Some 2\<rparr>],
      sx_post_swap = [''p'' \<mapsto> Suc 0, ''q'' \<mapsto> 2], sx_total_gas = 14\<rparr>)"
  (is "_ = ret (Inr ?end)")
proof -
  let ?ledger = "\<lparr>lg_amount_in = [50, 50], lg_next_hop_ix = [0, 0]\<rparr>"
  let ?swaps = "[(\<lparr>ms_hop = example_hop ''p'', ms_split = Finite (1 / 2), ms_amount_in = 50\<rparr>, [0]),
    (\<lparr>ms_hop = example_hop ''q'', ms_split = Finite 0, ms_amount_in = 50\<rparr>, [Suc 0])]"
  let ?st = "\<lparr>sx_hops_by_token = [], sx_in_degree = [''A'' \<mapsto> 0, ''B'' \<mapsto> Suc (Suc 0)], sx_ready = [],
      sx_ledger = ?ledger, sx_balances = [''A'' \<mapsto> 100], sx_swaps = [], sx_post_swap = Map.empty, sx_total_gas = 0\<rparr>"
  have "rescale_each ?swaps ?ledger = ret ?ledger"
    by (simp add: rescale_def fed_amounts_def vec_index_def example_shares)
  moreover have "execute_swaps example_pools example_split_market Map.empty Keep ?swaps ?st = ret (Inr ?end)"
    by (simp add: rescale_def fed_amounts_def balance_at_def unwrap_or_default_def
      vec_index_def example_shares spend_def credit_def example_merged_swap example_states example_ends advance_def
      release_def saturating_gas_def fun_upd_twist)
  ultimately show ?thesis
    by (simp add: process_token_def balance_at_def unwrap_or_default_def example_standing example_sized)
qed

lemma plan_end:
  "sx_hops_by_token st = [] \<Longrightarrow> sx_ready st = [t] \<Longrightarrow>
   plan_loop env paths m base_overrides capture st = ret (Inr (st\<lparr>sx_ready := []\<rparr>))"
  by (simp add: plan_loop.simps [of env paths m base_overrides capture st]
      plan_loop.simps [of env paths m base_overrides capture "st\<lparr>sx_ready := []\<rparr>"])

lemma example_plan:
  "plan_loop example_pools [example_path ''p'', example_path ''q''] example_split_market Map.empty Keep
     (split_start [example_path ''p'', example_path ''q''] ''A'' 100 \<lparr>lg_amount_in = [50, 50], lg_next_hop_ix = [0, 0]\<rparr>)
   = ret (Inr \<lparr>sx_hops_by_token = [], sx_in_degree = [''A'' \<mapsto> 0, ''B'' \<mapsto> 0], sx_ready = [],
      sx_ledger = \<lparr>lg_amount_in = [50, 25], lg_next_hop_ix = [Suc 0, Suc 0]\<rparr>, sx_balances = [''A'' \<mapsto> 0, ''B'' \<mapsto> 75],
      sx_swaps = [\<lparr>xs_hop = example_hop ''p'', xs_split = Finite (1 / 2), xs_amount_in = 50, xs_amount_out = 50, xs_gas = 7,
                    xs_pre_swap_state = Some (Suc 0)\<rparr>,
                  \<lparr>xs_hop = example_hop ''q'', xs_split = Finite 0, xs_amount_in = 50, xs_amount_out = 25, xs_gas = 7,
                    xs_pre_swap_state = Some 2\<rparr>],
      sx_post_swap = [''p'' \<mapsto> Suc 0, ''q'' \<mapsto> 2], sx_total_gas = 14\<rparr>)"
  by (subst plan_loop.simps)
    (simp add: plan_end split_start_def example_merged build_in_degree_def count_inflow_def example_ends example_run Let_def)

lemma example_build:
  "build_split_route example_pools [example_path ''p'', example_path ''q''] example_split_market example_split_order
     = ret (Inr example_built_route)"
proof -
  have "validate_paths example_pools [example_path ''p'', example_path ''q''] = Inr ()"
    by (simp add: validate_token_cycles_def example_path_def example_ends)
  moreover have "ledger_new [example_path ''p'', example_path ''q''] = Inr \<lparr>lg_amount_in = [50, 50], lg_next_hop_ix = [0, 0]\<rparr>"
    by (simp add: ledger_new_def example_path_def)
  ultimately show ?thesis
    by (simp add: build_split_route_def execute_split_plan_def example_split_order_def example_plan split_route_swap_def
      example_ends example_states route_new_def split_route_tokens_def or_insert_def example_built_route_def
      example_built_swap_def Let_def)
qed

theorem split_route_replays_witness:
  "replay_route example_pools example_built_route example_split_market = ret (Inr \<lparr>rp_amount_out = 75, rp_gas = 14\<rparr>)"
proof -
  have order: "od_token_in example_split_order = ''A''" "od_amount example_split_order = 100"
    by (simp_all add: example_split_order_def)
  have known: "\<forall>hop \<in> set (path_hops [example_path ''p'', example_path ''q'']). hop_known example_split_market hop"
    by (simp add: path_hops_def example_path_def hop_known_def example_ends example_states)
  have explicit: "explicit_splits (rt_swaps example_built_route)"
    by (simp add: explicit_splits_def example_built_route_def example_built_swap_def swap_new_def)
  show ?thesis
    using split_route_replays [OF example_build known explicit, unfolded order]
  proof (elim exE conjE)
    fix out simulated
    assume "output_token example_built_route = Some out"
      and replay: "replay_route example_pools example_built_route example_split_market
         = ret (Inr \<lparr>rp_amount_out = sd_amount_out simulated, rp_gas = total_gas example_built_route\<rparr>)"
      and paid: "sd_amount_out simulated + sum_list (map sw_amount_in (filter (\<lambda>s. sw_token_in s = out) (rt_swaps example_built_route)))
         = route_amount_out example_built_route out + (if out = ''A'' then 100 else 0)"
    then have "out = ''B''" by (simp add: output_token_def example_built_route_def example_built_swap_def swap_new_def)
    then have "sd_amount_out simulated = 75"
      using paid by (simp add: example_built_route_def example_built_swap_def swap_new_def route_amount_out_def)
    then show ?thesis
      unfolding replay by (simp add: total_gas_def example_built_route_def example_built_swap_def swap_new_def)
  qed
qed

end
