(* ===== verification/RouteCheck.thy ===== *)
theory RouteCheck
  imports Market Exclusive Allocation
begin

text \<open>
  What a worker admits: the components it keeps out of its graph, the constraints a request resolves
  to, and the checks of a route an algorithm or a post-processor returned
  (\<open>should_drop_component\<close>, \<open>resolve_constraints\<close>, \<open>check_route\<close> and what they call in
  \<open>src/fynd-core/src/worker_pool/worker.rs\<close>).

  A failed check is a value of \<open>route_check_error\<close>; the source formats it into a message.
\<close>

section \<open>Checks of a route\<close>

definition should_drop_component :: "liquidity_scope \<Rightarrow> string list \<Rightarrow> protocol_component \<Rightarrow> bool" where
  "should_drop_component scope exclude_protocols c =
     (scope = PublicOnly \<and> is_exclusive c \<or> is_excluded_protocol exclude_protocols c)"

text \<open>The cache holds what the filter resolved to and the generation of the market it was read from.\<close>

type_synonym constraint_cache = "(64 word \<times> resolved_route_constraints) option"

definition resolve_constraints ::
  "'s market_data_view \<Rightarrow> route_constraints \<Rightarrow> constraint_cache \<Rightarrow> resolved_route_constraints \<times> constraint_cache" where
  "resolve_constraints v flt cache =
     (let generation = mk_constraint_generation (mv_base v);
          constraints = resolve_route_filter (mv_base v) flt in
      case cache of
        Some (cached_generation, cached) \<Rightarrow>
          if cached_generation = generation then (cached, cache) else (constraints, Some (generation, constraints))
      | None \<Rightarrow> (constraints, Some (generation, constraints)))"

datatype route_check_error =
    InvalidRoute route_validation_error
  | UsesExcludedPool component_id
  | UsesExcludedProtocol string
  | UsesExcludedToken address
  | BypassesRequiredTokens
  | UsesUnsyncedPool component_id string
  | UsesDroppedComponent component_id
  | ExclusiveWithoutCommitment
  | CommitmentNotOnSell
  | CommitmentWithoutExclusiveLeg
  | CommitmentAboveRoute biguint
  | NetAboveRoute int biguint

subsection \<open>Paths that avoid a token\<close>

text \<open>One pass over the swaps for the token taken from the frontier; new tokens go on top.\<close>

fun reach_from :: "address \<Rightarrow> address \<Rightarrow> 's swap list \<Rightarrow> address set \<times> address list \<Rightarrow> address set \<times> address list" where
  "reach_from avoided t [] acc = acc"
| "reach_from avoided t (s # swaps) (reached, frontier) =
     (if sw_token_in s = t \<and> sw_token_out s \<noteq> avoided \<and> sw_token_out s \<notin> reached
      then reach_from avoided t swaps (insert (sw_token_out s) reached, sw_token_out s # frontier)
      else reach_from avoided t swaps (reached, frontier))"

lemma reach_from_measure:
  assumes "reach_from avoided t ss (reached, frontier) = (reached', frontier')" "set ss \<subseteq> set swaps"
  shows "reached \<subseteq> reached' \<and> card (sw_token_out ` set swaps - reached') + length frontier'
    = card (sw_token_out ` set swaps - reached) + length frontier"
  using assms
proof (induction ss arbitrary: reached frontier)
  case (Cons s ss)
  show ?case
  proof (cases "sw_token_in s = t \<and> sw_token_out s \<noteq> avoided \<and> sw_token_out s \<notin> reached")
    case True
    have "reach_from avoided t ss (insert (sw_token_out s) reached, sw_token_out s # frontier) = (reached', frontier')"
      using Cons.prems(1) True by simp
    then have IH: "insert (sw_token_out s) reached \<subseteq> reached' \<and> card (sw_token_out ` set swaps - reached') + length frontier'
        = card (sw_token_out ` set swaps - insert (sw_token_out s) reached) + length (sw_token_out s # frontier)"
      using Cons.IH [of "insert (sw_token_out s) reached" "sw_token_out s # frontier"] Cons.prems(2) by simp
    have "sw_token_out s \<in> sw_token_out ` set swaps - reached" using True Cons.prems(2) by auto
    then have "card (sw_token_out ` set swaps - reached) = Suc (card (sw_token_out ` set swaps - insert (sw_token_out s) reached))"
      by (metis Diff_insert List.finite_set card_Suc_Diff1 finite_Diff finite_imageI)
    then show ?thesis using IH by auto
  next
    case False
    then have "reach_from avoided t (s # ss) (reached, frontier) = reach_from avoided t ss (reached, frontier)" by auto
    then show ?thesis using Cons.IH [of reached frontier] Cons.prems by simp
  qed
qed simp

function reach_loop :: "address \<Rightarrow> 's swap list \<Rightarrow> address set \<Rightarrow> address list \<Rightarrow> address set" where
  "reach_loop avoided swaps reached [] = reached"
| "reach_loop avoided swaps reached (t # frontier) =
     (case reach_from avoided t swaps (reached, frontier) of
        (reached', frontier') \<Rightarrow> reach_loop avoided swaps reached' frontier')"
  by pat_completeness auto
termination reach_loop
proof (relation "measure (\<lambda>(_, swaps, reached, frontier). card (sw_token_out ` set swaps - reached) + length frontier)")
  fix avoided t :: address and swaps :: "'s swap list" and reached x frontier y
  assume step: "(x, y) = reach_from avoided t swaps (reached, frontier)"
  show "((avoided, swaps, x, y), avoided, swaps, reached, t # frontier)
      \<in> measure (\<lambda>(_, swaps, reached, frontier). card (sw_token_out ` set swaps - reached) + length frontier)"
    using reach_from_measure [OF step [symmetric], of swaps] by simp
qed simp

definition reaches_output_avoiding :: "'s route \<Rightarrow> order \<Rightarrow> address \<Rightarrow> bool" where
  "reaches_output_avoiding r d avoided =
     (od_token_out d \<in> reach_loop avoided (rt_swaps r) {od_token_in d} [od_token_in d])"

definition route_bypasses_required_tokens :: "'s route \<Rightarrow> order \<Rightarrow> address set \<Rightarrow> bool" where
  "route_bypasses_required_tokens r d required_tokens =
     (\<exists>t \<in> required_tokens. t \<noteq> od_token_in d \<and> t \<noteq> od_token_out d \<and> reaches_output_avoiding r d t)"

subsection \<open>The checks\<close>

definition check_swap_filter :: "order \<Rightarrow> route_constraints \<Rightarrow> 's swap \<Rightarrow> route_check_error + unit" where
  "check_swap_filter d flt s =
     (let protocol = pc_protocol_system (sw_protocol_component s);
          excluded = (\<lambda>t. t \<noteq> od_token_in d \<and> t \<noteq> od_token_out d \<and> t \<in> rc_excluded_tokens flt) in
      if sw_component_id s \<in> rc_excluded_pools flt then Inl (UsesExcludedPool (sw_component_id s))
      else if \<exists>entry \<in> rc_excluded_protocols flt. protocol_matches entry protocol then Inl (UsesExcludedProtocol protocol)
      else if excluded (sw_token_in s) then Inl (UsesExcludedToken (sw_token_in s))
      else if excluded (sw_token_out s) then Inl (UsesExcludedToken (sw_token_out s))
      else Inr ())"

fun check_all :: "('a \<Rightarrow> 'e + unit) \<Rightarrow> 'a list \<Rightarrow> 'e + unit" where
  "check_all f [] = Inr ()"
| "check_all f (x # xs) = (case f x of Inl e \<Rightarrow> Inl e | Inr _ \<Rightarrow> check_all f xs)"

definition validate_route_filter :: "'s route \<Rightarrow> order \<Rightarrow> route_constraints \<Rightarrow> route_check_error + unit" where
  "validate_route_filter r d flt =
     (if route_constraints_is_empty flt then Inr ()
      else case check_all (check_swap_filter d flt) (rt_swaps r) of
             Inl e \<Rightarrow> Inl e
           | Inr _ \<Rightarrow>
               if route_bypasses_required_tokens r d (rc_required_tokens flt) then Inl BypassesRequiredTokens else Inr ())"

definition check_route ::
  "'s route \<Rightarrow> order \<Rightarrow> route_constraints \<Rightarrow> resolved_route_constraints \<Rightarrow> (route_check_error + unit) run" where
  "check_route r d flt constraints =
     do {
       valid \<leftarrow> validate_route r;
       or_return (map_sum InvalidRoute id valid) (\<lambda>_.
       or_return (validate_route_filter r d flt) (\<lambda>_.
         ret (check_all (\<lambda>s. if is_unsynced_pool constraints (sw_component_id s)
                             then Inl (UsesUnsyncedPool (sw_component_id s) (pc_protocol_system (sw_protocol_component s)))
                             else Inr ()) (rt_swaps r))))
     }"

subsection \<open>What the checks guarantee\<close>

definition hops_avoiding :: "address \<Rightarrow> 's swap list \<Rightarrow> (address \<times> address) set" where
  "hops_avoiding avoided swaps =
     {(a, b). \<exists>s \<in> set swaps. sw_token_in s = a \<and> sw_token_out s = b \<and> b \<noteq> avoided}"

lemma reach_from_spec:
  "reach_from avoided t swaps (reached, frontier) = (reached', frontier') \<Longrightarrow>
   reached' = reached \<union> hops_avoiding avoided swaps `` {t} \<and> set frontier' = set frontier \<union> (reached' - reached)"
proof (induction swaps arbitrary: reached frontier)
  case (Cons s swaps)
  show ?case
  proof (cases "sw_token_in s = t \<and> sw_token_out s \<noteq> avoided \<and> sw_token_out s \<notin> reached")
    case True
    then have "reach_from avoided t swaps (insert (sw_token_out s) reached, sw_token_out s # frontier) = (reached', frontier')"
      using Cons.prems by simp
    note IH = Cons.IH [OF this]
    have "hops_avoiding avoided (s # swaps) `` {t} = insert (sw_token_out s) (hops_avoiding avoided swaps `` {t})"
      using True by (auto simp: hops_avoiding_def)
    then show ?thesis using IH True by auto
  next
    case False
    then have "reach_from avoided t swaps (reached, frontier) = (reached', frontier')" using Cons.prems by auto
    note IH = Cons.IH [OF this]
    have "reached \<union> hops_avoiding avoided (s # swaps) `` {t} = reached \<union> hops_avoiding avoided swaps `` {t}"
      using False by (auto simp: hops_avoiding_def)
    then show ?thesis using IH by simp
  qed
qed (simp add: hops_avoiding_def)

lemma reach_loop_spec:
  assumes "reached \<subseteq> (hops_avoiding avoided swaps)\<^sup>* `` {t0}" "t0 \<in> reached" "set frontier \<subseteq> reached"
    and "\<forall>a \<in> reached - set frontier. hops_avoiding avoided swaps `` {a} \<subseteq> reached"
  shows "reach_loop avoided swaps reached frontier = (hops_avoiding avoided swaps)\<^sup>* `` {t0}"
  using assms
proof (induction avoided swaps reached frontier rule: reach_loop.induct)
  case (1 avoided swaps reached)
  have "b \<in> reached" if "(t0, b) \<in> (hops_avoiding avoided swaps)\<^sup>*" for b
    using that by induction (use 1 in auto)
  then show ?case using 1 by auto
next
  case (2 avoided swaps reached t frontier)
  obtain r f where step: "reach_from avoided t swaps (reached, frontier) = (r, f)" by fastforce
  note spec = reach_from_spec [OF step]
  have t: "(t0, t) \<in> (hops_avoiding avoided swaps)\<^sup>*" using 2 by auto
  have "r \<subseteq> (hops_avoiding avoided swaps)\<^sup>* `` {t0}"
    using spec 2(2) t by (auto intro: rtrancl_into_rtrancl)
  moreover have "\<forall>a \<in> r - set f. hops_avoiding avoided swaps `` {a} \<subseteq> r" using spec 2(5) by auto
  moreover have "t0 \<in> r" "set f \<subseteq> r" using spec 2(3,4) by auto
  ultimately have "reach_loop avoided swaps r f = (hops_avoiding avoided swaps)\<^sup>* `` {t0}"
    using 2(1) [OF step [symmetric]] by blast
  then show ?case by (simp add: step)
qed

text \<open>A route bypasses a required token exactly when its swaps lead from the input to the output
  without it.\<close>

lemma reaches_output_avoiding_iff:
  "reaches_output_avoiding r d avoided \<longleftrightarrow> (od_token_in d, od_token_out d) \<in> (hops_avoiding avoided (rt_swaps r))\<^sup>*"
proof -
  have "reach_loop avoided (rt_swaps r) {od_token_in d} [od_token_in d] = (hops_avoiding avoided (rt_swaps r))\<^sup>* `` {od_token_in d}"
    by (rule reach_loop_spec) auto
  then show ?thesis by (simp add: reaches_output_avoiding_def)
qed

lemma check_all_Inr: "check_all f xs = Inr () \<longleftrightarrow> (\<forall>x \<in> set xs. f x = Inr ())"
  by (induction xs) (auto split: sum.splits)

definition swap_allowed :: "order \<Rightarrow> route_constraints \<Rightarrow> 's swap \<Rightarrow> bool" where
  "swap_allowed d flt s =
     (sw_component_id s \<notin> rc_excluded_pools flt
      \<and> (\<forall>entry \<in> rc_excluded_protocols flt. \<not> protocol_matches entry (pc_protocol_system (sw_protocol_component s)))
      \<and> (\<forall>t \<in> {sw_token_in s, sw_token_out s} - {od_token_in d, od_token_out d}. t \<notin> rc_excluded_tokens flt))"

lemma check_swap_filter_iff: "check_swap_filter d flt s = Inr () \<longleftrightarrow> swap_allowed d flt s"
  by (auto simp: check_swap_filter_def swap_allowed_def Let_def)

definition route_allowed :: "order \<Rightarrow> route_constraints \<Rightarrow> resolved_route_constraints \<Rightarrow> 's route \<Rightarrow> bool" where
  "route_allowed d flt constraints r =
     (list_all (swap_allowed d flt) (rt_swaps r)
      \<and> list_all (\<lambda>s. \<not> is_unsynced_pool constraints (sw_component_id s)) (rt_swaps r)
      \<and> (\<forall>t \<in> rc_required_tokens flt - {od_token_in d, od_token_out d}.
           (od_token_in d, od_token_out d) \<notin> (hops_avoiding t (rt_swaps r))\<^sup>*))"

lemma validate_route_filter_iff:
  "validate_route_filter r d flt = Inr () \<longleftrightarrow>
     list_all (swap_allowed d flt) (rt_swaps r)
     \<and> (\<forall>t \<in> rc_required_tokens flt - {od_token_in d, od_token_out d}.
          (od_token_in d, od_token_out d) \<notin> (hops_avoiding t (rt_swaps r))\<^sup>*)"
proof (cases "route_constraints_is_empty flt")
  case True
  then show ?thesis by (auto simp: validate_route_filter_def route_constraints_is_empty_def swap_allowed_def list_all_iff)
next
  case False
  then show ?thesis
    using check_all_Inr [of "check_swap_filter d flt" "rt_swaps r"]
    by (auto simp: validate_route_filter_def check_swap_filter_iff route_bypasses_required_tokens_def
        reaches_output_avoiding_iff list_all_iff split: sum.splits)
qed

lemma check_route_iff:
  "check_route r d flt constraints = ret (Inr ()) \<longleftrightarrow>
     validate_route r = ret (Inr ()) \<and> route_allowed d flt constraints r"
  by (auto simp: check_route_def or_return_Inr_iff bind_eq_Some_conv validate_route_filter_iff check_all_Inr
      route_allowed_def list_all_iff split: if_splits)

end
