(* ===== verification/Feed.thy ===== *)
theory Feed
  imports Market
begin

text \<open>
  The feed: messages of the Tycho stream and updates of the book feeds, applied to the market and
  reported as market events (\<open>src/fynd-core/src/feed/tycho_feed.rs\<close>, \<open>feed/book_stream.rs\<close>,
  \<open>feed/events.rs\<close>), and the filter each worker puts on the events (\<open>feed/component_filter.rs\<close>).

  \<open>sc_id\<close> is the printed id of a streamed component. A hash map of a message is the list of its
  entries in iteration order. Sending an event fails exactly when nothing subscribes, which is an
  argument. Metrics and log lines are left out.
\<close>

subsection \<open>Messages and events\<close>

record stream_component =
  sc_id :: component_id
  sc_protocol_system :: string
  sc_chain :: string
  sc_tokens :: "token list"
  sc_static_attributes :: "string \<rightharpoonup> string"

record 's tycho_update =
  tu_block_number :: nat
  tu_new_pairs :: "(string \<times> stream_component) list"
  tu_removed_pairs :: "string list"
  tu_states :: "(string \<times> 's) list"
  tu_sync_states :: "(string \<times> synchronizer_state) list"

record 's book_update =
  bu_protocol_system :: string
  bu_added :: "stream_component list"
  bu_removed :: "component_id list"
  bu_updated :: "stream_component list"
  bu_states :: "(component_id \<times> 's) list"

record market_event =
  me_added_components :: "component_id \<rightharpoonup> component_topology"
  me_removed_components :: "component_id list"
  me_updated_components :: "component_id list"

datatype data_feed_error = EventChannelError

definition market_component :: "stream_component \<Rightarrow> protocol_component" where
  "market_component c =
     \<lparr>pc_id = sc_id c, pc_protocol_system = sc_protocol_system c, pc_chain = sc_chain c,
      pc_tokens = map tk_address (sc_tokens c), pc_static_attributes = sc_static_attributes c\<rparr>"

text \<open>\<open>str::to_lowercase\<close> on the hexadecimal ids of the stream.\<close>

definition to_lowercase :: "string \<Rightarrow> string" where
  "to_lowercase s =
     map (\<lambda>c. if 65 \<le> (of_char c :: nat) \<and> (of_char c :: nat) \<le> 90 then char_of ((of_char c :: nat) + 32) else c) s"

definition send_event :: "bool \<Rightarrow> market_event \<Rightarrow> data_feed_error + market_event option" where
  "send_event subscribed e = (if subscribed then Inr (Some e) else Inl EventChannelError)"

text \<open>What both handlers report as added: the topologies of the new and the reshaped components.\<close>

definition added_topology :: "'s market_state \<Rightarrow> upserted_components \<Rightarrow> component_id \<rightharpoonup> component_topology" where
  "added_topology m u = (\<lambda>i. if i \<in> set (uc_new u @ uc_reshaped u) then topology_of m i else None)"

subsection \<open>The Tycho stream\<close>

definition apply_tycho_update ::
  "topology_env \<Rightarrow> nat \<Rightarrow> 's tycho_update \<Rightarrow> 's market_state \<Rightarrow> 's market_state \<times> upserted_components" where
  "apply_tycho_update env max_sync_lag msg m =
     (let (m1, upserted) = upsert_components env (map (market_component \<circ> snd) (tu_new_pairs msg)) m;
          m2 = remove_components (map to_lowercase (tu_removed_pairs msg)) m1;
          m3 = upsert_tokens (concat (map (sc_tokens \<circ> snd) (tu_new_pairs msg))) m2;
          m4 = update_states (map (\<lambda>(i, s). (to_lowercase i, s)) (tu_states msg)) m3
      in (update_sync_status (tu_sync_states msg) max_sync_lag m4, upserted))"

definition tycho_event :: "'s tycho_update \<Rightarrow> (component_id \<rightharpoonup> component_topology) \<Rightarrow> market_event" where
  "tycho_event msg added =
     \<lparr>me_added_components = added,
      me_removed_components = remdups (map to_lowercase (tu_removed_pairs msg)),
      me_updated_components =
        filter (\<lambda>i. added i = None)
          (remdups (map (to_lowercase \<circ> fst) (tu_states msg) @ map (sc_id \<circ> snd) (tu_new_pairs msg)))\<rparr>"

definition handle_tycho_message ::
  "topology_env \<Rightarrow> nat \<Rightarrow> bool \<Rightarrow> 's tycho_update \<Rightarrow> 's market_data \<Rightarrow>
   's market_data \<times> (data_feed_error + market_event option)" where
  "handle_tycho_message env max_sync_lag subscribed msg d =
     (let d' = apply_block_update (tu_block_number msg) (fst \<circ> apply_tycho_update env max_sync_lag msg) d;
          upserted = snd (apply_tycho_update env max_sync_lag msg
                       ((md_data d)\<lparr>mk_label := decimal (tu_block_number msg)\<rparr>));
          e = tycho_event msg (added_topology (md_data d') upserted) in
      (d', if me_added_components e \<noteq> Map.empty \<or> me_removed_components e \<noteq> [] \<or> me_updated_components e \<noteq> []
           then send_event subscribed e else Inr None))"

subsection \<open>Book feeds\<close>

definition held_elsewhere :: "'s market_state \<Rightarrow> string \<Rightarrow> component_id \<Rightarrow> bool" where
  "held_elsewhere m protocol_system i =
     (case get_component m i of None \<Rightarrow> False | Some c \<Rightarrow> pc_protocol_system c \<noteq> protocol_system)"

definition drop_foreign_components :: "'s market_state \<Rightarrow> 's book_update \<Rightarrow> 's book_update" where
  "drop_foreign_components m u =
     (let foreign = held_elsewhere m (bu_protocol_system u);
          dropped = filter foreign (map sc_id (bu_added u @ bu_updated u)) in
      u\<lparr>bu_added := filter (\<lambda>c. \<not> foreign (sc_id c)) (bu_added u),
        bu_updated := filter (\<lambda>c. \<not> foreign (sc_id c)) (bu_updated u),
        bu_states := filter (\<lambda>(i, _). i \<notin> set dropped) (bu_states u),
        bu_removed := filter (\<lambda>i. \<not> foreign i) (bu_removed u)\<rparr>)"

definition apply_book_update ::
  "topology_env \<Rightarrow> 's book_update \<Rightarrow> 's market_state \<Rightarrow> 's market_state \<times> upserted_components" where
  "apply_book_update env u m =
     (let m1 = upsert_tokens (concat (map sc_tokens (bu_added u))) m;
          (m2, upserted) = upsert_components env (map market_component (bu_added u @ bu_updated u)) m1;
          m3 = remove_components (bu_removed u) m2
      in (update_states (bu_states u) m3, upserted))"

definition handle_book_update ::
  "topology_env \<Rightarrow> bool \<Rightarrow> 's book_update \<Rightarrow> 's market_data \<Rightarrow>
   's market_data \<times> (data_feed_error + market_event option)" where
  "handle_book_update env subscribed update d =
     (let u = drop_foreign_components (md_data d) update;
          (m, upserted) = apply_book_update env u (md_data d);
          added = added_topology m upserted in
      (d\<lparr>md_data := m\<rparr>,
       send_event subscribed
         \<lparr>me_added_components = added, me_removed_components = bu_removed u,
          me_updated_components = filter (\<lambda>i. added i = None) (map sc_id (bu_updated u))\<rparr>))"

text \<open>What the stream of one book feed remembers: the ids each venue last served.\<close>

type_synonym served_ids = "string \<rightharpoonup> component_id set"

type_synonym 's liquidity_snapshot = "(stream_component \<times> 's) list"

definition book_apply ::
  "(component_id set \<Rightarrow> component_id list) \<Rightarrow> string \<Rightarrow> 's liquidity_snapshot \<Rightarrow> served_ids \<Rightarrow> 's book_update \<times> served_ids" where
  "book_apply order protocol_system snapshot served =
     (let old = (case served protocol_system of None \<Rightarrow> {} | Some ids \<Rightarrow> ids);
          components = map fst snapshot;
          current = set (map sc_id components) in
      (\<lparr>bu_protocol_system = protocol_system,
        bu_added = filter (\<lambda>c. sc_id c \<notin> old) components,
        bu_removed = order (old - current),
        bu_updated = filter (\<lambda>c. sc_id c \<in> old) components,
        bu_states = map (\<lambda>(c, s). (sc_id c, s)) snapshot\<rparr>,
       served(protocol_system \<mapsto> current)))"

definition keep_valid_components :: "(address \<Rightarrow> bool) \<Rightarrow> string \<Rightarrow> 's liquidity_snapshot \<Rightarrow> 's liquidity_snapshot" where
  "keep_valid_components traded source snapshot =
     filter (\<lambda>(c, _). sc_protocol_system c = source \<and> list_all (\<lambda>t. traded (tk_address t)) (sc_tokens c)) snapshot"

definition book_withdraw ::
  "(component_id set \<Rightarrow> component_id list) \<Rightarrow> string \<Rightarrow> served_ids \<Rightarrow> 's book_update \<times> served_ids" where
  "book_withdraw order protocol_system served =
     (\<lparr>bu_protocol_system = protocol_system, bu_added = [],
       bu_removed = order (case served protocol_system of None \<Rightarrow> {} | Some ids \<Rightarrow> ids),
       bu_updated = [], bu_states = []\<rparr>, served(protocol_system := None))"

definition book_update_is_empty :: "'s book_update \<Rightarrow> bool" where
  "book_update_is_empty u = (bu_added u = [] \<and> bu_removed u = [] \<and> bu_states u = [])"

subsection \<open>The event filter of a worker\<close>

definition filter_topology ::
  "'s market_state \<Rightarrow> (component_id \<rightharpoonup> component_topology) \<Rightarrow> (protocol_component \<Rightarrow> bool) \<Rightarrow>
   component_id \<rightharpoonup> component_topology" where
  "filter_topology m topology dropped =
     (\<lambda>i. case get_component m i of None \<Rightarrow> topology i | Some c \<Rightarrow> if dropped c then None else topology i)"

definition filter_component_ids ::
  "'s market_state \<Rightarrow> component_id list \<Rightarrow> (protocol_component \<Rightarrow> bool) \<Rightarrow> component_id list" where
  "filter_component_ids m ids dropped =
     filter (\<lambda>i. case get_component m i of None \<Rightarrow> True | Some c \<Rightarrow> \<not> dropped c) ids"

definition filter_event :: "'s market_state \<Rightarrow> market_event \<Rightarrow> (protocol_component \<Rightarrow> bool) \<Rightarrow> market_event" where
  "filter_event m e dropped =
     \<lparr>me_added_components = filter_topology m (me_added_components e) dropped,
      me_removed_components = filter_component_ids m (me_removed_components e) dropped,
      me_updated_components = filter_component_ids m (me_updated_components e) dropped\<rparr>"

subsection \<open>An event carries the change of the swap directions\<close>

lemma swap_directions_of_upsert:
  "swap_directions_of (fst (upsert_component env c (m, u))) =
     (swap_directions_of m)(pc_id c \<mapsto> swap_directions env c)"
  by (auto simp: swap_directions_of_def mk_components_upsert)

lemma upsert_component_reports:
  assumes "upsert_component env c (m, u) = (m', u')"
  shows "set (uc_new u @ uc_reshaped u) \<subseteq> set (uc_new u' @ uc_reshaped u')"
    "swap_directions_of m' i \<noteq> swap_directions_of m i \<Longrightarrow> i \<in> set (uc_new u' @ uc_reshaped u')"
proof -
  have u': "u' = (case mk_components m (pc_id c) of
        None \<Rightarrow> u\<lparr>uc_new := uc_new u @ [pc_id c]\<rparr>
      | Some stored \<Rightarrow> if st_swap_directions stored \<noteq> swap_directions env c
          then u\<lparr>uc_reshaped := uc_reshaped u @ [pc_id c]\<rparr> else u)"
    using arg_cong [OF assms, of snd] by (simp add: upsert_component_def Let_def)
  show "set (uc_new u @ uc_reshaped u) \<subseteq> set (uc_new u' @ uc_reshaped u')"
    unfolding u' by (auto split: option.splits)
  assume d: "swap_directions_of m' i \<noteq> swap_directions_of m i"
  have "swap_directions_of m' = (swap_directions_of m)(pc_id c \<mapsto> swap_directions env c)"
    using swap_directions_of_upsert [of env c m u] assms by simp
  with d have i: "i = pc_id c" "swap_directions_of m i \<noteq> Some (swap_directions env c)"
    by (auto split: if_splits)
  then show "i \<in> set (uc_new u' @ uc_reshaped u')"
    unfolding u' by (auto simp: swap_directions_of_def split: option.splits)
qed

lemma fold_upsert_reports:
  assumes "fold (upsert_component env) cs (m, u) = (m', u')"
  shows "set (uc_new u @ uc_reshaped u) \<subseteq> set (uc_new u' @ uc_reshaped u')
    \<and> (\<forall>i. swap_directions_of m' i \<noteq> swap_directions_of m i \<longrightarrow> i \<in> set (uc_new u' @ uc_reshaped u'))"
  using assms
proof (induction cs arbitrary: m u)
  case (Cons c cs)
  obtain m1 u1 where s: "upsert_component env c (m, u) = (m1, u1)" by fastforce
  note step = upsert_component_reports [OF s]
  have ih: "set (uc_new u1 @ uc_reshaped u1) \<subseteq> set (uc_new u' @ uc_reshaped u')
    \<and> (\<forall>i. swap_directions_of m' i \<noteq> swap_directions_of m1 i \<longrightarrow> i \<in> set (uc_new u' @ uc_reshaped u'))"
    using Cons.IH [of m1 u1] Cons.prems s by simp
  show ?case
  proof (intro conjI allI impI)
    show "set (uc_new u @ uc_reshaped u) \<subseteq> set (uc_new u' @ uc_reshaped u')" using step(1) ih by blast
    fix i assume "swap_directions_of m' i \<noteq> swap_directions_of m i"
    then consider "swap_directions_of m' i \<noteq> swap_directions_of m1 i" | "swap_directions_of m1 i \<noteq> swap_directions_of m i"
      by metis
    then show "i \<in> set (uc_new u' @ uc_reshaped u')" using step(2) ih by cases blast+
  qed
qed simp

lemma upsert_components_reports:
  assumes "upsert_components env cs m = (m', u)" "swap_directions_of m' i \<noteq> swap_directions_of m i"
  shows "i \<in> set (uc_new u @ uc_reshaped u)"
  using fold_upsert_reports [OF assms(1) [unfolded upsert_components_def]] assms(2) by blast

lemma upsert_components_dom:
  assumes "upsert_components env cs m = (m', u)"
  shows "dom (mk_components m') = dom (mk_components m) \<union> pc_id ` set cs"
proof -
  have "dom (mk_components (fst (fold (upsert_component env) cs (m, u0)))) = dom (mk_components m) \<union> pc_id ` set cs" for u0
  proof (induction cs arbitrary: m u0)
    case (Cons c cs)
    obtain m1 u1 where s: "upsert_component env c (m, u0) = (m1, u1)" by fastforce
    then have "mk_components m1 = (mk_components m)(pc_id c \<mapsto> \<lparr>st_component = c, st_swap_directions = swap_directions env c\<rparr>)"
      using mk_components_upsert [of env c m u0] by simp
    then have "dom (mk_components m1) = insert (pc_id c) (dom (mk_components m))" by auto
    then show ?case using Cons.IH [of m1 u1] s by simp
  qed simp
  from this [of "\<lparr>uc_new = [], uc_reshaped = []\<rparr>"] show ?thesis using assms by (simp add: upsert_components_def)
qed

lemma mk_components_remove_components:
  "mk_components (remove_components ids m) = mk_components m |` (- set ids)"
proof -
  have "mk_components (fold remove_component ids m) = mk_components m |` (- set ids)"
    by (induction ids arbitrary: m) (auto simp: remove_component_fields restrict_map_def fun_eq_iff)
  then show ?thesis by (simp add: remove_components_def)
qed

lemma swap_directions_of_cong:
  "mk_components m' = mk_components m \<Longrightarrow> swap_directions_of m' = swap_directions_of m"
  by (simp add: swap_directions_of_def fun_eq_iff)

text \<open>The change an event stands for.\<close>

definition apply_directions :: "market_event \<Rightarrow> (component_id \<rightharpoonup> swap_direction list) \<Rightarrow> component_id \<rightharpoonup> swap_direction list" where
  "apply_directions e t =
     (\<lambda>i. if i \<in> set (me_removed_components e) then None
          else case me_added_components e i of Some c \<Rightarrow> Some (ct_swap_directions c) | None \<Rightarrow> t i)"

lemma added_topology_directions:
  assumes "added_topology m u i = Some t"
  shows "swap_directions_of m i = Some (ct_swap_directions t)"
  using assms by (auto simp: added_topology_def topology_of_def swap_directions_of_def stored_topology_def split: if_splits)

lemma apply_directions_update:
  assumes up: "upsert_components env cs m = (m1, u)"
    and m': "mk_components m' = mk_components m1 |` (- set removed)"
    and e: "me_added_components e = added_topology m' u" "set (me_removed_components e) = set removed"
  shows "swap_directions_of m' = apply_directions e (swap_directions_of m)"
proof
  fix i
  show "swap_directions_of m' i = apply_directions e (swap_directions_of m) i"
  proof (cases "i \<in> set removed")
    case True
    then show ?thesis by (simp add: apply_directions_def e swap_directions_of_def m')
  next
    case False
    then have same: "swap_directions_of m' i = swap_directions_of m1 i"
      by (simp add: swap_directions_of_def m' restrict_map_def)
    show ?thesis
    proof (cases "added_topology m' u i")
      case None
      then have "i \<notin> set (uc_new u @ uc_reshaped u) \<or> mk_components m' i = None"
        by (auto simp: added_topology_def topology_of_def split: if_splits)
      then have "swap_directions_of m' i = swap_directions_of m i"
      proof
        assume "i \<notin> set (uc_new u @ uc_reshaped u)"
        then show ?thesis using upsert_components_reports [OF up, of i] same by metis
      next
        assume none: "mk_components m' i = None"
        then have "i \<notin> dom (mk_components m1)" using False by (simp add: m' restrict_map_def domIff)
        then have "mk_components m i = None" using upsert_components_dom [OF up] by (simp add: domIff)
        then show ?thesis using none by (simp add: swap_directions_of_def)
      qed
      then show ?thesis using None False by (simp add: apply_directions_def e)
    next
      case (Some t)
      then show ?thesis using False added_topology_directions [OF Some] by (simp add: apply_directions_def e)
    qed
  qed
qed

lemma apply_block_update_data:
  "md_data (apply_block_update n f d) = f ((md_data d)\<lparr>mk_label := decimal n\<rparr>)"
  by (simp add: apply_block_update_def)

lemma tycho_message_directions:
  assumes "handle_tycho_message env lag subscribed msg d = (d', Inr reported)"
  shows "swap_directions_of (md_data d') = (case reported of
      None \<Rightarrow> swap_directions_of (md_data d)
    | Some e \<Rightarrow> apply_directions e (swap_directions_of (md_data d)))"
proof -
  let ?m = "(md_data d)\<lparr>mk_label := decimal (tu_block_number msg)\<rparr>"
  obtain m1 u where up: "upsert_components env (map (market_component \<circ> snd) (tu_new_pairs msg)) ?m = (m1, u)"
    by fastforce
  have d': "d' = apply_block_update (tu_block_number msg) (fst \<circ> apply_tycho_update env lag msg) d"
    using assms by (simp add: handle_tycho_message_def Let_def)
  have m': "mk_components (md_data d') = mk_components m1 |` (- set (map to_lowercase (tu_removed_pairs msg)))"
    by (simp add: d' apply_block_update_data apply_tycho_update_def up Let_def
        update_states_fields upsert_tokens_fields mk_components_remove_components)
  let ?e = "tycho_event msg (added_topology (md_data d') u)"
  have "swap_directions_of (md_data d') = apply_directions ?e (swap_directions_of ?m)"
    by (rule apply_directions_update [OF up m']) (simp_all add: tycho_event_def)
  also have "swap_directions_of ?m = swap_directions_of (md_data d)"
    by (simp add: swap_directions_of_def fun_eq_iff)
  finally have new: "swap_directions_of (md_data d') = apply_directions ?e (swap_directions_of (md_data d))" .
  have u: "snd (apply_tycho_update env lag msg ?m) = u"
    by (simp add: apply_tycho_update_def up Let_def)
  have r: "Inr reported = (if me_added_components ?e \<noteq> Map.empty \<or> me_removed_components ?e \<noteq> []
      \<or> me_updated_components ?e \<noteq> [] then send_event subscribed ?e else Inr None)"
    using assms unfolding handle_tycho_message_def Let_def u d' by simp
  show ?thesis
  proof (cases reported)
    case None
    then have "me_added_components ?e = Map.empty" "me_removed_components ?e = []"
      using r by (auto simp: send_event_def split: if_splits)
    then show ?thesis using new None by (simp add: apply_directions_def)
  next
    case (Some e)
    then show ?thesis using new r by (auto simp: send_event_def split: if_splits)
  qed
qed

lemma book_update_directions:
  assumes "handle_book_update env subscribed update d = (d', Inr reported)"
  shows "\<exists>e. reported = Some e \<and>
    swap_directions_of (md_data d') = apply_directions e (swap_directions_of (md_data d))"
proof -
  let ?u = "drop_foreign_components (md_data d) update"
  let ?m = "upsert_tokens (concat (map sc_tokens (bu_added ?u))) (md_data d)"
  obtain m1 up where up: "upsert_components env (map market_component (bu_added ?u @ bu_updated ?u)) ?m = (m1, up)"
    by fastforce
  obtain m where m: "apply_book_update env ?u (md_data d) = (m, up)"
    and comps: "mk_components m = mk_components m1 |` (- set (bu_removed ?u))"
    unfolding apply_book_update_def Let_def up
    by (simp add: update_states_fields mk_components_remove_components)
  obtain e where e: "reported = Some e" "me_added_components e = added_topology m up"
      "me_removed_components e = bu_removed ?u" and d': "md_data d' = m"
    using assms by (auto simp: handle_book_update_def Let_def m send_event_def split: if_splits)
  have "swap_directions_of m = apply_directions e (swap_directions_of ?m)"
    by (rule apply_directions_update [OF up comps]) (simp_all add: e)
  also have "swap_directions_of ?m = swap_directions_of (md_data d)"
    by (rule swap_directions_of_cong) (rule upsert_tokens_fields)
  finally show ?thesis using e d' by simp
qed

subsection \<open>A book feed owns only its components\<close>

lemma get_component_upserts:
  "get_component (fst (fold (upsert_component env) cs (m, u))) = get_component m ++ map_of (rev (map (\<lambda>c. (pc_id c, c)) cs))"
proof (induction cs arbitrary: m u)
  case (Cons c cs)
  obtain m1 u1 where s: "upsert_component env c (m, u) = (m1, u1)" by fastforce
  then have "get_component m1 = (get_component m)(pc_id c \<mapsto> c)" using get_component_upsert [of env c m u] by simp
  then show ?case using Cons.IH [of m1 u1] s by (simp add: map_add_assoc [symmetric] map_add_upd_left fun_eq_iff map_add_def split: option.splits)
qed simp

lemma upsert_component_states: "mk_simulation_states (fst (upsert_component env c (m, u))) = mk_simulation_states m"
  by (simp add: upsert_component_def Let_def)

lemma upsert_states: "mk_simulation_states (fst (fold (upsert_component env) cs (m, u))) = mk_simulation_states m"
proof (induction cs arbitrary: m u)
  case (Cons c cs)
  obtain m1 u1 where s: "upsert_component env c (m, u) = (m1, u1)" by fastforce
  then have "mk_simulation_states m1 = mk_simulation_states m"
    using upsert_component_states [of env c m u] by simp
  then show ?case using Cons.IH [of m1 u1] s by simp
qed simp

lemma update_states_map:
  "mk_simulation_states (update_states ss m) = mk_simulation_states m ++ map_of (rev ss)"
  unfolding update_states_def
  by (induction ss arbitrary: m) (auto simp: fun_eq_iff map_add_def split: option.splits)

lemma remove_components_states:
  "mk_simulation_states (remove_components ids m) = mk_simulation_states m |` (- set ids)"
proof -
  have "mk_simulation_states (fold remove_component ids m) = mk_simulation_states m |` (- set ids)"
    by (induction ids arbitrary: m) (auto simp: remove_component_fields restrict_map_def fun_eq_iff)
  then show ?thesis by (simp add: remove_components_def)
qed

lemma upsert_tokens_other:
  "get_component (upsert_tokens ts m) = get_component m"
  "mk_simulation_states (upsert_tokens ts m) = mk_simulation_states m"
proof -
  show "get_component (upsert_tokens ts m) = get_component m"
    by (simp add: get_component_def upsert_tokens_fields fun_eq_iff)
  show "mk_simulation_states (upsert_tokens ts m) = mk_simulation_states m"
    unfolding upsert_tokens_def by (induction ts arbitrary: m) simp_all
qed

lemma apply_book_update_market:
  fixes m :: "'s market_state"
  defines "stored u \<equiv> map (\<lambda>c. (sc_id c, market_component c)) (bu_added u @ bu_updated u)"
  shows "get_component (fst (apply_book_update env u m)) = (get_component m ++ map_of (rev (stored u))) |` (- set (bu_removed u))"
    "mk_simulation_states (fst (apply_book_update env u m)) =
       (mk_simulation_states m |` (- set (bu_removed u))) ++ map_of (rev (bu_states u))"
proof -
  let ?t = "upsert_tokens (concat (map sc_tokens (bu_added u))) m"
  obtain m1 up where up: "upsert_components env (map market_component (bu_added u @ bu_updated u)) ?t = (m1, up)"
    by fastforce
  note f = up [unfolded upsert_components_def]
  have ids: "map (\<lambda>c. (pc_id c, c)) (map market_component (bu_added u @ bu_updated u)) = stored u"
    by (simp add: stored_def market_component_def)
  have c1: "get_component m1 = get_component m ++ map_of (rev (stored u))"
    using arg_cong [OF f, of "get_component \<circ> fst"] unfolding comp_def get_component_upserts ids upsert_tokens_other
    by simp
  have s1: "mk_simulation_states m1 = mk_simulation_states m"
    using arg_cong [OF f, of "mk_simulation_states \<circ> fst"] unfolding comp_def upsert_states upsert_tokens_other by simp
  have "get_component (update_states (bu_states u) (remove_components (bu_removed u) m1)) =
      get_component m1 |` (- set (bu_removed u))"
    by (simp add: get_component_def update_states_fields mk_components_remove_components restrict_map_def fun_eq_iff)
  then show "get_component (fst (apply_book_update env u m)) =
      (get_component m ++ map_of (rev (stored u))) |` (- set (bu_removed u))"
    unfolding apply_book_update_def Let_def up by (simp add: c1)
  show "mk_simulation_states (fst (apply_book_update env u m)) =
       (mk_simulation_states m |` (- set (bu_removed u))) ++ map_of (rev (bu_states u))"
    unfolding apply_book_update_def Let_def up by (simp add: update_states_map remove_components_states s1)
qed

lemma map_of_rev_distinct: "distinct (map fst xs) \<Longrightarrow> (k, v) \<in> set xs \<Longrightarrow> map_of (rev xs) k = Some v"
  by (intro map_of_is_SomeI) (simp_all add: rev_map [symmetric])

lemma map_of_rev_None: "k \<notin> fst ` set xs \<Longrightarrow> map_of (rev xs) k = None"
  by (simp add: map_of_eq_None_iff)

lemma distinct_partition:
  "distinct (map f xs) \<Longrightarrow> distinct (map f (filter p (filter q xs) @ filter p (filter (\<lambda>x. \<not> q x) xs)))"
proof (induction xs)
  case (Cons x xs)
  then have "f x \<notin> f ` set xs" by simp
  then have "f y \<noteq> f x" if "y \<in> set xs" for y using that by (metis imageI)
  then show ?case using Cons by auto
qed simp

text \<open>What is left of a published set after the components held elsewhere are dropped.\<close>

lemma published_parts:
  fixes m :: "'s market_state"
  assumes "distinct (map (sc_id \<circ> fst) snapshot)"
    and u_def: "u = drop_foreign_components m (fst (book_apply order system snapshot served))"
    and own_def: "own = (\<lambda>i. \<not> held_elsewhere m system i)"
  shows "set (bu_added u @ bu_updated u) = {c \<in> fst ` set snapshot. own (sc_id c)}"
    "distinct (map sc_id (bu_added u @ bu_updated u))"
    "set (bu_states u) = {(sc_id c, s) | c s. (c, s) \<in> set snapshot \<and> own (sc_id c)}"
    "distinct (map fst (bu_states u))"
    "bu_removed u = filter own (order ((case served system of None \<Rightarrow> {} | Some ids \<Rightarrow> ids) - sc_id ` fst ` set snapshot))"
proof -
  let ?cs = "map fst snapshot" and ?old = "case served system of None \<Rightarrow> {} | Some ids \<Rightarrow> ids"
  have au: "bu_added u = filter (\<lambda>c. own (sc_id c)) (filter (\<lambda>c. sc_id c \<notin> ?old) ?cs)"
    "bu_updated u = filter (\<lambda>c. own (sc_id c)) (filter (\<lambda>c. sc_id c \<in> ?old) ?cs)"
    by (simp_all add: u_def own_def drop_foreign_components_def book_apply_def Let_def)
  show "set (bu_added u @ bu_updated u) = {c \<in> fst ` set snapshot. own (sc_id c)}" unfolding au by auto
  show "distinct (map sc_id (bu_added u @ bu_updated u))"
    using distinct_partition [of sc_id ?cs "\<lambda>c. own (sc_id c)" "\<lambda>c. sc_id c \<notin> ?old"] assms(1) unfolding au by simp
  have st: "bu_states u = filter (\<lambda>(i, _). \<not> (i \<in> sc_id ` fst ` set snapshot \<and> \<not> own i)) (map (\<lambda>(c, s). (sc_id c, s)) snapshot)"
    by (auto simp: u_def own_def drop_foreign_components_def book_apply_def Let_def intro!: filter_cong)
  show "set (bu_states u) = {(sc_id c, s) | c s. (c, s) \<in> set snapshot \<and> own (sc_id c)}"
    unfolding st by force
  have "distinct (map fst (map (\<lambda>(c, s). (sc_id c, s)) snapshot))"
    using assms(1) by (simp add: comp_def case_prod_beta)
  then show "distinct (map fst (bu_states u))" unfolding st by (rule distinct_map_filter)
  show "bu_removed u = filter own (order (?old - sc_id ` fst ` set snapshot))"
    by (simp add: u_def own_def drop_foreign_components_def book_apply_def Let_def image_image)
qed

text \<open>C33: when a venue publishes its books, every component it does not share with another protocol
  system ends up stored with the published state, every component it stopped serving is removed, and
  no component or state held under another protocol system changes.\<close>

theorem book_feed_owns_components:
  assumes "distinct (map (sc_id \<circ> fst) snapshot)" and "\<forall>S. finite S \<longrightarrow> set (order S) = S"
    and "served system = Some old" and "finite old"
    and "m' = md_data (fst (handle_book_update env subscribed (fst (book_apply order system snapshot served)) d))"
  shows "(\<forall>i c. get_component (md_data d) i = Some c \<and> pc_protocol_system c \<noteq> system \<longrightarrow>
            get_component m' i = Some c \<and> mk_simulation_states m' i = mk_simulation_states (md_data d) i)
    \<and> (\<forall>(c, s) \<in> set snapshot. \<not> held_elsewhere (md_data d) system (sc_id c) \<longrightarrow>
            get_component m' (sc_id c) = Some (market_component c) \<and> mk_simulation_states m' (sc_id c) = Some s)
    \<and> (\<forall>i \<in> old - sc_id ` fst ` set snapshot. \<not> held_elsewhere (md_data d) system i \<longrightarrow>
            get_component m' i = None \<and> mk_simulation_states m' i = None)"
proof -
  define u where u: "u = drop_foreign_components (md_data d) (fst (book_apply order system snapshot served))"
  define own where own: "own = (\<lambda>i. \<not> held_elsewhere (md_data d) system i)"
  note parts = published_parts [OF assms(1) u own]
  have "bu_protocol_system (fst (book_apply order system snapshot served)) = system"
    by (simp add: book_apply_def Let_def)
  have m': "m' = fst (apply_book_update env u (md_data d))"
    using assms(5) by (simp add: handle_book_update_def Let_def u case_prod_beta)
  have removed: "set (bu_removed u) = {i \<in> old - sc_id ` fst ` set snapshot. own i}"
    using assms(2,3,4) by (auto simp: parts(5))
  have keys: "distinct (map fst (map (\<lambda>c. (sc_id c, market_component c)) (bu_added u @ bu_updated u)))"
    using parts(2) by (simp add: comp_def)
  note mkt = apply_book_update_market [of env u "md_data d", folded m']
  have foreign: "get_component m' i = get_component (md_data d) i \<and> mk_simulation_states m' i = mk_simulation_states (md_data d) i"
    if "\<not> own i" for i
  proof -
    have "i \<notin> set (bu_removed u)" using that removed by simp
    moreover have "i \<notin> sc_id ` set (bu_added u @ bu_updated u)" using that parts(1) by auto
    moreover have "i \<notin> fst ` set (bu_states u)" using that parts(3) by auto
    ultimately have "map_of (rev (map (\<lambda>c. (sc_id c, market_component c)) (bu_added u @ bu_updated u))) i = None"
      "map_of (rev (bu_states u)) i = None" "i \<notin> set (bu_removed u)"
      by (intro map_of_rev_None, force, intro map_of_rev_None, simp_all)
    then show ?thesis unfolding mkt by (simp only: map_add_def restrict_map_def Compl_iff) simp
  qed
  have publ: "get_component m' (sc_id c) = Some (market_component c) \<and> mk_simulation_states m' (sc_id c) = Some s"
    if "(c, s) \<in> set snapshot" "own (sc_id c)" for c s
  proof -
    have "c \<in> set (bu_added u @ bu_updated u)" using that parts(1) by force
    then have "map_of (rev (map (\<lambda>c. (sc_id c, market_component c)) (bu_added u @ bu_updated u))) (sc_id c)
        = Some (market_component c)"
      by (intro map_of_rev_distinct [OF keys]) auto
    moreover have "map_of (rev (bu_states u)) (sc_id c) = Some s"
      using that parts(3) by (intro map_of_rev_distinct [OF parts(4)]) auto
    moreover have "sc_id c \<notin> set (bu_removed u)" using that removed by force
    ultimately show ?thesis unfolding mkt by (simp add: map_add_def restrict_map_def)
  qed
  have gone: "get_component m' i = None \<and> mk_simulation_states m' i = None"
    if "i \<in> old - sc_id ` fst ` set snapshot" "own i" for i
  proof -
    have "i \<in> set (bu_removed u)" using that removed by simp
    moreover have "i \<notin> fst ` set (bu_states u)" using that parts(3) by force
    ultimately show ?thesis unfolding mkt by (simp add: map_add_def restrict_map_def map_of_rev_None)
  qed
  have "\<not> own i" if "get_component (md_data d) i = Some c" "pc_protocol_system c \<noteq> system" for i c
    using that by (simp add: own held_elsewhere_def)
  then show ?thesis using foreign publ gone by (auto simp: own)
qed

definition example_book :: stream_component where
  "example_book = \<lparr>sc_id = ''book'', sc_protocol_system = ''rfq:v'', sc_chain = ''ethereum'', sc_tokens = [],
     sc_static_attributes = Map.empty\<rparr>"

definition example_foreign_book :: stream_component where
  "example_foreign_book = example_book\<lparr>sc_id := ''pool''\<rparr>"

theorem book_feed_owns_components_witness:
  "let m' = md_data (fst (handle_book_update example_topology_env True
              (fst (book_apply sorted_list_of_set ''rfq:v'' [(example_book, ()), (example_foreign_book, ())] [''rfq:v'' \<mapsto> {''gone''}]))
              \<lparr>md_data = example_market, md_overlays = Map.empty\<rparr>)) in
   get_component m' ''pool'' = Some example_component \<and> get_component m' ''book'' = Some (market_component example_book)
   \<and> get_component m' ''gone'' = None"
proof -
  let ?d = "\<lparr>md_data = example_market, md_overlays = Map.empty\<rparr>"
  have held: "\<not> held_elsewhere example_market ''rfq:v'' ''book''" "\<not> held_elsewhere example_market ''rfq:v'' ''gone''"
    by (simp_all add: held_elsewhere_def example_market_components)
  have pool: "get_component (md_data ?d) ''pool'' = Some example_component" "pc_protocol_system example_component \<noteq> ''rfq:v''"
    by (simp_all add: example_market_components) (simp add: example_component_def)
  have "distinct (map (sc_id \<circ> fst) [(example_book, ()), (example_foreign_book, ())])"
    by (simp add: example_book_def example_foreign_book_def)
  from book_feed_owns_components [OF this _ _ _ refl, where order = sorted_list_of_set and served = "[''rfq:v'' \<mapsto> {''gone''}]"
      and system = "''rfq:v''" and old = "{''gone''}" and env = example_topology_env and subscribed = True and d = ?d] pool held
  show ?thesis by (simp add: Let_def example_book_def example_foreign_book_def)
qed

end
