(* ===== verification/Fallback.thy ===== *)
theory Fallback
  imports FallbackData Replay Feed
begin

text \<open>
  The pools a pAMM leg falls back to, and what a route pays through them:
  \<open>src/fynd-core/src/fallback/mod.rs\<close>.

  \<open>order\<close> is the order in which a hash map yields its keys, which the code leaves open. The market
  is read through a \<open>market_data_view\<close>, so a labelled solve selects and prices on its overlay.
\<close>

section \<open>Fallback pools\<close>

subsection \<open>Which pools qualify\<close>

definition is_pamm :: "protocol_component \<Rightarrow> bool" where
  "is_pamm c = (take 9 (pc_protocol_system c) = ''fallback:'')"

definition has_fallback_leg :: "'s route \<Rightarrow> bool" where
  "has_fallback_leg r = list_ex (\<lambda>s. take 9 (sw_protocol s) = ''fallback:'') (rt_swaps r)"

definition is_zero :: "string \<Rightarrow> bool" where
  "is_zero bytes = list_all (\<lambda>b. b = CHR 0x00) bytes"

definition is_native_token :: "address \<Rightarrow> bool" where
  "is_native_token t = (length t = 20 \<and> (is_zero t \<or> list_all (\<lambda>b. b = CHR 0xEE) t))"

definition sorted_pair :: "address \<Rightarrow> address \<Rightarrow> address \<times> address" where
  "sorted_pair a b = (if a \<le> b then (a, b) else (b, a))"

fun token_pairs :: "address list \<Rightarrow> (address \<times> address) list" where
  "token_pairs [] = []"
| "token_pairs (t # ts) = map (Pair t) ts @ token_pairs ts"

definition is_fallback_candidate :: "'s fallback_env \<Rightarrow> protocol_component \<Rightarrow> bool" where
  "is_fallback_candidate env c =
     (case fe_from_protocol_system env (pc_protocol_system c) of
        None \<Rightarrow> False
      | Some protocol \<Rightarrow>
          if \<not> fe_supported_on env protocol (pc_chain c) \<or> length (pc_tokens c) < 2 then False
          else if protocol \<noteq> UniswapV4 then True
          else case pc_static_attributes c ''hooks'' of None \<Rightarrow> True | Some hooks \<Rightarrow> is_zero hooks)"

subsection \<open>The index by token pair\<close>

record fallback_pool_index =
  fx_pools :: "(address \<times> address) \<rightharpoonup> component_id list"
  fx_keys :: "component_id \<rightharpoonup> (address \<times> address) list"

definition index_default :: fallback_pool_index where
  "index_default = \<lparr>fx_pools = Map.empty, fx_keys = Map.empty\<rparr>"

definition candidates_for :: "fallback_pool_index \<Rightarrow> address \<Rightarrow> address \<Rightarrow> component_id list" where
  "candidates_for ix a b = (case fx_pools ix (sorted_pair a b) of None \<Rightarrow> [] | Some cs \<Rightarrow> cs)"

definition unfile :: "component_id \<Rightarrow> address \<times> address \<Rightarrow> ((address \<times> address) \<rightharpoonup> component_id list) \<Rightarrow>
    (address \<times> address) \<rightharpoonup> component_id list" where
  "unfile c p pools =
     (case pools p of
        None \<Rightarrow> pools
      | Some cs \<Rightarrow>
          let kept = filter (\<lambda>x. x \<noteq> c) cs in
          if kept = [] then pools(p := None) else pools(p \<mapsto> kept))"

definition index_remove :: "component_id \<Rightarrow> fallback_pool_index \<Rightarrow> fallback_pool_index" where
  "index_remove c ix =
     (case fx_keys ix c of
        None \<Rightarrow> ix
      | Some pairs \<Rightarrow> \<lparr>fx_pools = fold (unfile c) pairs (fx_pools ix), fx_keys = (fx_keys ix)(c := None)\<rparr>)"

text \<open>The pairs a qualifying component is filed under.\<close>

definition filed_pairs :: "protocol_component \<Rightarrow> (address \<times> address) list" where
  "filed_pairs c =
     map (\<lambda>(a, b). sorted_pair a b)
       (filter (\<lambda>(a, b). \<not> (is_native_token a \<or> is_native_token b)) (token_pairs (pc_tokens c)))"

definition file_under :: "component_id \<Rightarrow> address \<times> address \<Rightarrow> ((address \<times> address) \<rightharpoonup> component_id list) \<Rightarrow>
    (address \<times> address) \<rightharpoonup> component_id list" where
  "file_under c p pools = pools(p \<mapsto> (case pools p of None \<Rightarrow> [] | Some cs \<Rightarrow> cs) @ [c])"

definition index_insert ::
  "'s fallback_env \<Rightarrow> 's market_data_view \<Rightarrow> component_id \<Rightarrow> fallback_pool_index \<Rightarrow> fallback_pool_index" where
  "index_insert env v i ix =
     (case get_component (mv_base v) i of
        None \<Rightarrow> ix
      | Some c \<Rightarrow>
          if \<not> is_fallback_candidate env c then ix
          else let ix' = index_remove i ix in
               \<lparr>fx_pools = fold (file_under i) (filed_pairs c) (fx_pools ix'),
                fx_keys = (fx_keys ix')(i \<mapsto> filed_pairs c)\<rparr>)"

definition index_build ::
  "(component_id set \<Rightarrow> component_id list) \<Rightarrow> 's fallback_env \<Rightarrow> 's market_data_view \<Rightarrow> fallback_pool_index" where
  "index_build order env v =
     fold (index_insert env v) (order (dom (component_topology_of_market (mv_base v)))) index_default"

definition index_apply_event ::
  "(component_id set \<Rightarrow> component_id list) \<Rightarrow> 's fallback_env \<Rightarrow> 's market_data_view \<Rightarrow> market_event \<Rightarrow>
   fallback_pool_index \<Rightarrow> fallback_pool_index" where
  "index_apply_event order env v e ix =
     fold (index_insert env v) (order (dom (me_added_components e)))
       (fold index_remove (me_removed_components e) ix)"

definition must_withhold_pamm :: "'s market_data_view \<Rightarrow> protocol_component \<Rightarrow> fallback_pool_index \<Rightarrow> bool" where
  "must_withhold_pamm v c ix =
     (is_pamm c
      \<and> \<not> list_ex (\<lambda>(token_in, token_out). candidates_for ix token_in token_out \<noteq> [])
             (case swap_directions_of (mv_base v) (pc_id c) of None \<Rightarrow> [] | Some ds \<Rightarrow> ds))"

subsection \<open>Selecting a pool and pricing the route\<close>

datatype fallback_error =
    NoFallbackPool component_id address address
  | AllPoolsExcluded component_id
  | FallbackSimulationFailed component_id
  | FallbackReplayFailed string
  | FallbackMissingPoolData component_id string

fun rejection :: "fallback_error \<Rightarrow> route_rejection" where
  "rejection (NoFallbackPool _ _ _) = FallbackPoolMissing"
| "rejection (AllPoolsExcluded _) = FallbackExcluded"
| "rejection (FallbackSimulationFailed _) = FallbackNotSimulatable"
| "rejection (FallbackReplayFailed _) = FallbackNotSimulatable"
| "rejection (FallbackMissingPoolData _ _) = FallbackNotSimulatable"

definition is_excluded_candidate ::
  "'s market_data_view \<Rightarrow> route_constraints \<Rightarrow> string list \<Rightarrow> component_id \<Rightarrow> bool" where
  "is_excluded_candidate v flt pool_exclusions i =
     (i \<in> rc_excluded_pools flt \<or> market_is_unsynced_pool (mv_base v) i
      \<or> (case get_component (mv_base v) i of
           None \<Rightarrow> False
         | Some c \<Rightarrow> (\<exists>entry \<in> rc_excluded_protocols flt \<union> set pool_exclusions.
             protocol_matches entry (pc_protocol_system c))))"

definition try_candidate ::
  "'s sim_env \<Rightarrow> 's fallback_env \<Rightarrow> 's market_data_view \<Rightarrow> 's swap \<Rightarrow> token \<Rightarrow> token \<Rightarrow> component_id \<Rightarrow>
   's fallback_leg option \<Rightarrow> 's fallback_leg option" where
  "try_candidate sim env v swap token_in token_out i best =
     (case (get_component (mv_base v) i, view_get_simulation_state v i) of
        (Some c, Some st) \<Rightarrow>
          (case fallback_protocol env c st (sw_token_in swap) (sw_token_out swap) of
             Inl _ \<Rightarrow> best
           | Inr _ \<Rightarrow>
               (case get_amount_out_guarded sim st (sw_amount_in swap) token_in token_out of
                  Inl _ \<Rightarrow> best
                | Inr simulated \<Rightarrow>
                    if (case best of None \<Rightarrow> True | Some leg \<Rightarrow> fl_amount_out leg < ao_amount simulated)
                    then Some \<lparr>fl_protocol_component = c, fl_protocol_state = st, fl_amount_out = ao_amount simulated\<rparr>
                    else best))
      | _ \<Rightarrow> best)"

definition select_fallback ::
  "'s sim_env \<Rightarrow> 's fallback_env \<Rightarrow> 's market_data_view \<Rightarrow> fallback_pool_index \<Rightarrow> route_constraints \<Rightarrow> string list \<Rightarrow>
   's swap \<Rightarrow> fallback_error + 's fallback_leg" where
  "select_fallback sim env v ix flt pool_exclusions swap =
     (let leg = sw_component_id swap;
          candidates = candidates_for ix (sw_token_in swap) (sw_token_out swap) in
      if candidates = [] then Inl (NoFallbackPool leg (sw_token_in swap) (sw_token_out swap))
      else let admitted = filter (\<lambda>i. \<not> is_excluded_candidate v flt pool_exclusions i) candidates in
      if admitted = [] then Inl (AllPoolsExcluded leg)
      else case (mk_tokens (mv_base v) (sw_token_in swap), mk_tokens (mv_base v) (sw_token_out swap)) of
        (Some token_in, Some token_out) \<Rightarrow>
          ok_or (fold (try_candidate sim env v swap token_in token_out) admitted None) (FallbackSimulationFailed leg)
      | _ \<Rightarrow> Inl (FallbackSimulationFailed leg))"

definition set_fallback :: "'s fallback_leg \<Rightarrow> 's swap \<Rightarrow> 's swap" where
  "set_fallback leg s = s\<lparr>sw_fallback := Some leg\<rparr>"

fun stamp_fallbacks :: "('s swap \<Rightarrow> fallback_error + 's fallback_leg) \<Rightarrow> 's swap list \<Rightarrow> fallback_error + 's swap list" where
  "stamp_fallbacks select [] = Inr []"
| "stamp_fallbacks select (s # ss) =
     (case (if take 9 (sw_protocol s) = ''fallback:'' then map_sum id (\<lambda>leg. set_fallback leg s) (select s) else Inr s) of
        Inl e \<Rightarrow> Inl e
      | Inr s' \<Rightarrow> map_sum id (Cons s') (stamp_fallbacks select ss))"

definition substitute_fallback :: "'s swap \<Rightarrow> 's swap" where
  "substitute_fallback s =
     (case sw_fallback s of
        None \<Rightarrow> s
      | Some leg \<Rightarrow>
          (swap_new (pc_id (fl_protocol_component leg)) (pc_protocol_system (fl_protocol_component leg)) (sw_token_in s)
             (sw_token_out s) (sw_amount_in s) (fl_amount_out leg) (sw_gas_estimate s) (fl_protocol_component leg)
             (fl_protocol_state leg))\<lparr>sw_split := sw_split s\<rparr>)"

fun replay_error_message :: "'s sim_env \<Rightarrow> replay_error \<Rightarrow> string" where
  "replay_error_message sim ReplayEmptyRoute = ''route has no swaps''"
| "replay_error_message sim (ReplayMissingState c) = ''no simulation state for component '' @ c"
| "replay_error_message sim (ReplayMissingToken t) = ''token '' @ pm_show_address sim t @ '' missing from the market state''"
| "replay_error_message sim (ReplaySimulation c e) = ''simulation failed on component '' @ c @ '': '' @ e"

text \<open>The stamped route and what it delivers through its fallbacks. \<open>Route::new\<close> has one error, the
  empty route.\<close>

definition price_through_fallbacks ::
  "'s sim_env \<Rightarrow> 's fallback_env \<Rightarrow> 's market_data_view \<Rightarrow> fallback_pool_index \<Rightarrow> route_constraints \<Rightarrow> string list \<Rightarrow>
   's route \<Rightarrow> (fallback_error + 's route \<times> biguint) run" where
  "price_through_fallbacks sim env v ix flt pool_exclusions r =
     or_return (stamp_fallbacks (select_fallback sim env v ix flt pool_exclusions) (rt_swaps r)) (\<lambda>stamped.
       let substituted = map substitute_fallback stamped;
           subset = extract_subset_with_overlay (sw_component_id ` set substituted) v in
       or_return (map_sum (\<lambda>_. FallbackReplayFailed ''route must contain at least one swap'') id
            (route_new substituted Map.empty)) (\<lambda>route. do {
         replayed \<leftarrow> replay_route sim route subset;
         or_return (map_sum (FallbackReplayFailed \<circ> replay_error_message sim) id replayed) (\<lambda>replay.
           ret (Inr (r\<lparr>rt_swaps := stamped\<rparr>, rp_amount_out replay)))
       }))"

subsection \<open>The index holds the qualifying pools\<close>

definition filed_at :: "((address \<times> address) \<rightharpoonup> component_id list) \<Rightarrow> address \<times> address \<Rightarrow> component_id set" where
  "filed_at pools p = (case pools p of None \<Rightarrow> {} | Some cs \<Rightarrow> set cs)"

lemma filed_at_unfile: "filed_at (unfile c p pools) q = filed_at pools q - (if q = p then {c} else {})"
  by (auto simp: unfile_def filed_at_def Let_def filter_empty_conv split: option.splits)

lemma filed_at_unfiles: "filed_at (fold (unfile c) ps pools) q = filed_at pools q - (if q \<in> set ps then {c} else {})"
  by (induction ps arbitrary: pools) (auto simp: filed_at_unfile)

lemma filed_at_file: "filed_at (file_under c p pools) q = filed_at pools q \<union> (if q = p then {c} else {})"
  by (auto simp: file_under_def filed_at_def split: option.splits)

lemma filed_at_files: "filed_at (fold (file_under c) ps pools) q = filed_at pools q \<union> (if q \<in> set ps then {c} else {})"
  by (induction ps arbitrary: pools) (auto simp: filed_at_file)

text \<open>The two maps of an index describe the same filing.\<close>

definition index_wf :: "fallback_pool_index \<Rightarrow> bool" where
  "index_wf ix = (\<forall>p. filed_at (fx_pools ix) p = {i. \<exists>ps. fx_keys ix i = Some ps \<and> p \<in> set ps})"

lemma index_wf_default: "index_wf index_default"
  by (simp add: index_wf_def index_default_def filed_at_def)

lemma index_remove_wf: "index_wf ix \<Longrightarrow> index_wf (index_remove c ix)"
  by (auto simp: index_wf_def index_remove_def filed_at_unfiles split: option.splits)

lemma index_remove_keys: "fx_keys (index_remove c ix) = (fx_keys ix)(c := None)"
  by (auto simp: index_remove_def split: option.splits)

definition qualified_pairs :: "'s fallback_env \<Rightarrow> 's market_state \<Rightarrow> component_id \<Rightarrow> (address \<times> address) list option" where
  "qualified_pairs env m i =
     (case get_component m i of None \<Rightarrow> None | Some c \<Rightarrow> if is_fallback_candidate env c then Some (filed_pairs c) else None)"

lemma index_insert_wf: "index_wf ix \<Longrightarrow> index_wf (index_insert env v i ix)"
  using index_remove_wf [of ix i]
  by (auto simp: index_insert_def index_wf_def filed_at_files index_remove_keys Let_def split: option.splits)

lemma index_insert_keys:
  "fx_keys (index_insert env v i ix) j =
     (if j = i \<and> qualified_pairs env (mv_base v) i \<noteq> None then qualified_pairs env (mv_base v) i else fx_keys ix j)"
  by (auto simp: index_insert_def qualified_pairs_def index_remove_keys Let_def split: option.splits)

lemma index_inserts:
  "index_wf ix \<Longrightarrow> index_wf (fold (index_insert env v) is ix)"
  "fx_keys (fold (index_insert env v) is ix) j =
     (if j \<in> set is \<and> qualified_pairs env (mv_base v) j \<noteq> None then qualified_pairs env (mv_base v) j else fx_keys ix j)"
  by (induction "is" arbitrary: ix) (auto simp: index_insert_wf index_insert_keys)

lemma index_removes:
  "index_wf ix \<Longrightarrow> index_wf (fold index_remove is ix)"
  "fx_keys (fold index_remove is ix) j = (if j \<in> set is then None else fx_keys ix j)"
  by (induction "is" arbitrary: ix) (auto simp: index_remove_wf index_remove_keys)

definition index_of :: "'s fallback_env \<Rightarrow> 's market_state \<Rightarrow> fallback_pool_index \<Rightarrow> bool" where
  "index_of env m ix = (index_wf ix \<and> fx_keys ix = qualified_pairs env m)"

definition key_order :: "(component_id set \<Rightarrow> component_id list) \<Rightarrow> bool" where
  "key_order order = (\<forall>S. finite S \<longrightarrow> set (order S) = S)"

lemma index_build_of:
  assumes "key_order order" "finite (dom (mk_components (mv_base v)))"
  shows "index_of env (mv_base v) (index_build order env v)"
proof -
  have "set (order (dom (component_topology_of_market (mv_base v)))) = dom (mk_components (mv_base v))"
    using assms by (simp add: key_order_def component_topology_of_market_def dom_map_option)
  then have "fx_keys (index_build order env v) = qualified_pairs env (mv_base v)"
    by (auto simp: index_build_def fun_eq_iff index_inserts index_default_def qualified_pairs_def get_component_def
        split: option.splits)
  then show ?thesis by (simp add: index_of_def index_build_def index_inserts index_wf_default)
qed

text \<open>What an event says about the step from one market to the next, and that re-sent pools keep
  their kind.\<close>

definition event_reports :: "'s market_state \<Rightarrow> market_event \<Rightarrow> 's market_state \<Rightarrow> bool" where
  "event_reports m e m' =
     (finite (dom (me_added_components e))
      \<and> (\<forall>i. me_added_components e i \<noteq> None \<longrightarrow> me_added_components e i = topology_of m' i)
      \<and> (\<forall>i \<in> set (me_removed_components e). get_component m' i = None)
      \<and> swap_directions_of m' = apply_directions e (swap_directions_of m))"

definition same_kind :: "protocol_component \<Rightarrow> protocol_component \<Rightarrow> bool" where
  "same_kind c c' =
     (pc_id c = pc_id c' \<and> pc_protocol_system c = pc_protocol_system c' \<and> pc_chain c = pc_chain c'
      \<and> pc_tokens c = pc_tokens c'
      \<and> pc_static_attributes c ''hooks'' = pc_static_attributes c' ''hooks''
      \<and> (pc_static_attributes c ''is_exclusive'' = None) = (pc_static_attributes c' ''is_exclusive'' = None))"

definition keeps_kinds :: "'s market_state \<Rightarrow> 's market_state \<Rightarrow> bool" where
  "keeps_kinds m m' =
     (\<forall>i c c'. get_component m i = Some c \<longrightarrow> get_component m' i = Some c' \<longrightarrow> same_kind c c')"

lemma same_kind_candidate:
  assumes "same_kind c c'"
  shows "is_fallback_candidate env c = is_fallback_candidate env c'" "filed_pairs c = filed_pairs c'" "is_pamm c = is_pamm c'"
  using assms by (simp_all add: same_kind_def is_fallback_candidate_def filed_pairs_def is_pamm_def cong: option.case_cong)

lemma get_component_None_iff: "get_component m i = None \<longleftrightarrow> swap_directions_of m i = None"
  by (simp add: get_component_def swap_directions_of_def)

lemma unreported_component:
  assumes "event_reports m e m'" "me_added_components e i = None" "i \<notin> set (me_removed_components e)"
  shows "swap_directions_of m' i = swap_directions_of m i"
  using assms by (simp add: event_reports_def apply_directions_def)

lemma reported_component: "event_reports m e m' \<Longrightarrow> me_added_components e i = Some t \<Longrightarrow> topology_of m' i = Some t"
  unfolding event_reports_def by (metis option.distinct(1))

lemma get_component_topology: "get_component m i = None \<longleftrightarrow> topology_of m i = None"
  by (simp add: get_component_def topology_of_def)

lemma qualified_pairs_kept:
  assumes "keeps_kinds m m'" "get_component m i \<noteq> None" "get_component m' i \<noteq> None"
  shows "qualified_pairs env m' i = qualified_pairs env m i"
  using assms same_kind_candidate(1,2) by (fastforce simp: keeps_kinds_def qualified_pairs_def)

lemma index_apply_event_of:
  assumes "key_order order" "index_of env m ix" "event_reports m e (mv_base v)" "keeps_kinds m (mv_base v)"
  shows "index_of env (mv_base v) (index_apply_event order env v e ix)"
proof -
  let ?m' = "mv_base v"
  have "set (order (dom (me_added_components e))) = dom (me_added_components e)"
    using assms(1,3) by (simp add: key_order_def event_reports_def)
  then have keys: "fx_keys (index_apply_event order env v e ix) i =
      (if me_added_components e i \<noteq> None \<and> qualified_pairs env ?m' i \<noteq> None then qualified_pairs env ?m' i
       else if i \<in> set (me_removed_components e) then None else qualified_pairs env m i)" for i
    using assms(2) by (auto simp: index_apply_event_def index_inserts index_removes index_of_def)
  have "fx_keys (index_apply_event order env v e ix) i = qualified_pairs env ?m' i" for i
  proof (cases "i \<in> set (me_removed_components e)")
    case True
    then have "qualified_pairs env ?m' i = None" using assms(3) by (simp add: event_reports_def qualified_pairs_def)
    then show ?thesis using True keys [of i] by simp
  next
    case False
    show ?thesis
    proof (cases "get_component m i = None \<or> get_component ?m' i = None")
      case True
      have "get_component m i = None \<and> get_component ?m' i = None" if "me_added_components e i = None"
        using unreported_component [OF assms(3) that False] True by (simp add: get_component_None_iff)
      moreover have "get_component ?m' i \<noteq> None" if "me_added_components e i \<noteq> None"
        using that reported_component [OF assms(3)] by (auto simp: get_component_topology)
      ultimately show ?thesis using True False keys [of i]
        by (cases "me_added_components e i = None") (auto simp: qualified_pairs_def split: option.splits)
    next
      case kept: False
      then have "qualified_pairs env ?m' i = qualified_pairs env m i"
        using qualified_pairs_kept [OF assms(4)] by blast
      then show ?thesis using False keys [of i] by auto
    qed
  qed
  moreover have "index_wf (index_apply_event order env v e ix)"
    using assms(2) by (simp add: index_apply_event_def index_of_def index_inserts index_removes)
  ultimately show ?thesis by (simp add: index_of_def fun_eq_iff)
qed

lemma set_token_pairs: "(a, b) \<in> set (token_pairs ts) \<Longrightarrow> a \<in> set ts \<and> b \<in> set ts"
  by (induction ts) auto

lemma token_pairs_complete:
  "a \<in> set ts \<Longrightarrow> b \<in> set ts \<Longrightarrow> a \<noteq> b \<Longrightarrow> (a, b) \<in> set (token_pairs ts) \<or> (b, a) \<in> set (token_pairs ts)"
  by (induction ts) auto

lemma sorted_pair_eq_iff: "sorted_pair a b = sorted_pair x y \<longleftrightarrow> (x = a \<and> y = b) \<or> (x = b \<and> y = a)"
  by (auto simp: sorted_pair_def)

lemma filed_pairs_iff:
  assumes "a \<noteq> b"
  shows "sorted_pair a b \<in> set (filed_pairs c) \<longleftrightarrow>
    a \<in> set (pc_tokens c) \<and> b \<in> set (pc_tokens c) \<and> \<not> is_native_token a \<and> \<not> is_native_token b"
  using token_pairs_complete [of a "pc_tokens c" b] assms
  by (auto simp: filed_pairs_def image_iff sorted_pair_eq_iff dest: set_token_pairs)

definition backs :: "'s fallback_env \<Rightarrow> 's market_state \<Rightarrow> address \<Rightarrow> address \<Rightarrow> component_id \<Rightarrow> bool" where
  "backs env m a b i =
     (\<exists>c. get_component m i = Some c \<and> is_fallback_candidate env c \<and> sorted_pair a b \<in> set (filed_pairs c))"

lemma candidates_for_index:
  assumes "index_of env m ix"
  shows "set (candidates_for ix a b) = Collect (backs env m a b)"
proof -
  have backs: "backs env m a b i \<longleftrightarrow> (\<exists>ps. qualified_pairs env m i = Some ps \<and> sorted_pair a b \<in> set ps)" for i
    by (cases "get_component m i") (simp_all add: backs_def qualified_pairs_def)
  have "set (candidates_for ix a b) = filed_at (fx_pools ix) (sorted_pair a b)"
    by (simp add: candidates_for_def filed_at_def split: option.split)
  also have "\<dots> = {i. \<exists>ps. qualified_pairs env m i = Some ps \<and> sorted_pair a b \<in> set ps}"
    using assms by (simp add: index_of_def index_wf_def del: split_paired_All)
  also have "\<dots> = Collect (backs env m a b)" unfolding backs by (rule refl)
  finally show ?thesis .
qed

text \<open>A pAMM is withheld exactly when no pool of the market backs any of its swap directions.\<close>

definition unbacked :: "'s fallback_env \<Rightarrow> 's market_state \<Rightarrow> protocol_component \<Rightarrow> bool" where
  "unbacked env m c =
     (is_pamm c \<and> (\<forall>ds. swap_directions_of m (pc_id c) = Some ds \<longrightarrow> (\<forall>(a, b) \<in> set ds. \<forall>i. \<not> backs env m a b i)))"

lemma must_withhold_iff:
  assumes "index_of env (mv_base v) ix"
  shows "must_withhold_pamm v c ix \<longleftrightarrow> unbacked env (mv_base v) c"
proof -
  have "candidates_for ix a b = [] \<longleftrightarrow> (\<forall>i. \<not> backs env (mv_base v) a b i)" for a b
    using candidates_for_index [OF assms, of a b] by (metis Collect_empty_eq set_empty)
  then show ?thesis
    by (cases "swap_directions_of (mv_base v) (pc_id c)")
      (auto simp: must_withhold_pamm_def unbacked_def list_ex_iff)
qed

subsection \<open>The best pool is selected\<close>

text \<open>The leg a candidate offers: it is in the market with a state, it can be encoded, and it
  simulates.\<close>

definition candidate_leg ::
  "'s sim_env \<Rightarrow> 's fallback_env \<Rightarrow> 's market_data_view \<Rightarrow> 's swap \<Rightarrow> token \<Rightarrow> token \<Rightarrow> component_id \<Rightarrow>
   's fallback_leg option" where
  "candidate_leg sim env v swap token_in token_out i =
     (case (get_component (mv_base v) i, view_get_simulation_state v i) of
        (Some c, Some st) \<Rightarrow>
          (case (fallback_protocol env c st (sw_token_in swap) (sw_token_out swap),
                 get_amount_out_guarded sim st (sw_amount_in swap) token_in token_out) of
             (Inr _, Inr simulated) \<Rightarrow>
               Some \<lparr>fl_protocol_component = c, fl_protocol_state = st, fl_amount_out = ao_amount simulated\<rparr>
           | _ \<Rightarrow> None)
      | _ \<Rightarrow> None)"

lemma try_candidate_leg:
  "try_candidate sim env v swap token_in token_out i best =
     (case candidate_leg sim env v swap token_in token_out i of
        None \<Rightarrow> best
      | Some leg \<Rightarrow> if (case best of None \<Rightarrow> True | Some b \<Rightarrow> fl_amount_out b < fl_amount_out leg) then Some leg else best)"
  by (auto simp: try_candidate_def candidate_leg_def split: option.splits sum.splits)

lemma try_candidates_None:
  "fold (try_candidate sim env v swap token_in token_out) is best = None \<longleftrightarrow>
     best = None \<and> (\<forall>i \<in> set is. candidate_leg sim env v swap token_in token_out i = None)"
  by (induction "is" arbitrary: best) (auto simp: try_candidate_leg split: option.splits)

lemma try_candidates_best:
  "fold (try_candidate sim env v swap token_in token_out) is best = Some leg \<Longrightarrow>
   (best = Some leg \<or> (\<exists>i \<in> set is. candidate_leg sim env v swap token_in token_out i = Some leg))
   \<and> (\<forall>b. best = Some b \<longrightarrow> fl_amount_out b \<le> fl_amount_out leg)
   \<and> (\<forall>i \<in> set is. \<forall>b. candidate_leg sim env v swap token_in token_out i = Some b \<longrightarrow> fl_amount_out b \<le> fl_amount_out leg)"
proof (induction "is" arbitrary: best)
  case (Cons i "is")
  let ?best' = "try_candidate sim env v swap token_in token_out i best"
  have "fold (try_candidate sim env v swap token_in token_out) is ?best' = Some leg" using Cons.prems by simp
  note IH = Cons.IH [OF this]
  show ?case
  proof (cases "candidate_leg sim env v swap token_in token_out i")
    case None
    then have "?best' = best" by (simp add: try_candidate_leg)
    then show ?thesis using IH None by auto
  next
    case (Some l)
    then have "?best' = Some l \<and> (\<forall>b. best = Some b \<longrightarrow> fl_amount_out b < fl_amount_out l)
        \<or> ?best' = best \<and> (\<exists>b. best = Some b \<and> fl_amount_out l \<le> fl_amount_out b)"
      by (auto simp: try_candidate_leg split: option.splits)
    then show ?thesis using IH Some by (elim disjE) (auto intro: order_trans less_imp_le)
  qed
qed simp

text \<open>A candidate may serve a leg when it backs the pair and neither the request nor the worker pool
  nor an out-of-sync protocol rules it out.\<close>

definition serves_leg ::
  "'s fallback_env \<Rightarrow> 's market_data_view \<Rightarrow> route_constraints \<Rightarrow> string list \<Rightarrow> 's swap \<Rightarrow> component_id \<Rightarrow> bool" where
  "serves_leg env v flt pool_exclusions swap i =
     (backs env (mv_base v) (sw_token_in swap) (sw_token_out swap) i \<and> \<not> is_excluded_candidate v flt pool_exclusions i)"


text \<open>The example: a pAMM leg from A to B, two pools holding the pair, the second paying more.\<close>

definition example_backing :: "component_id \<Rightarrow> protocol_component" where
  "example_backing i = \<lparr>pc_id = i, pc_protocol_system = ''uniswap_v3'', pc_chain = ''ethereum'',
     pc_tokens = [''A'', ''B''], pc_static_attributes = Map.empty\<rparr>"

definition example_backing_env :: "nat fallback_env" where
  "example_backing_env =
     \<lparr>fe_from_protocol_system = (\<lambda>s. if s = ''uniswap_v3'' then Some UniswapV3 else None), fe_supported_on = (\<lambda>_ _. True),
      fe_parse_address = Some, fe_parse_coins = (\<lambda>_. None), fe_fee = (\<lambda>_. Finite 0), fe_json = (\<lambda>_. Inr [])\<rparr>"

definition example_backing_sim :: "nat sim_env" where
  "example_backing_sim =
     \<lparr>pm_get_amount_out = (\<lambda>s n _ _. ret (Inr \<lparr>ao_amount = n * s, ao_gas = 1, ao_new_state = s\<rparr>)),
      pm_spot_price = (\<lambda>_ _ _. ret (Inr (Finite 1))), pm_show_address = id, pm_panic_message = (\<lambda>_ _ _ _. [])\<rparr>"

definition example_backed_view :: "nat market_data_view" where
  "example_backed_view = \<lparr>mv_base = market_state_new
     \<lparr>mk_components := [''p'' \<mapsto> \<lparr>st_component = example_backing ''p'', st_swap_directions = [(''A'', ''B'')]\<rparr>,
                       ''q'' \<mapsto> \<lparr>st_component = example_backing ''q'', st_swap_directions = [(''A'', ''B'')]\<rparr>],
      mk_simulation_states := [''p'' \<mapsto> 2, ''q'' \<mapsto> 3],
      mk_tokens := [''A'' \<mapsto> \<lparr>tk_address = ''A'', tk_symbol = ''A'', tk_decimals = 18\<rparr>,
                   ''B'' \<mapsto> \<lparr>tk_address = ''B'', tk_symbol = ''B'', tk_decimals = 18\<rparr>]\<rparr>, mv_overlay = None\<rparr>"

definition example_pamm_leg :: "nat swap" where
  "example_pamm_leg = swap_new ''m'' ''fallback:m'' ''A'' ''B'' 10 40 1 (example_backing ''m'') 4"

definition no_constraints :: route_constraints where
  "no_constraints = \<lparr>rc_excluded_pools = {}, rc_excluded_protocols = {}, rc_excluded_tokens = {}, rc_required_tokens = {}\<rparr>"

lemma example_index:
  "index_build sorted_list_of_set example_backing_env example_backed_view
     = \<lparr>fx_pools = [(''A'', ''B'') \<mapsto> [''p'', ''q'']], fx_keys = [''p'' \<mapsto> [(''A'', ''B'')], ''q'' \<mapsto> [(''A'', ''B'')]]\<rparr>"
proof -
  have "dom (component_topology_of_market (mv_base example_backed_view)) = {''p'', ''q''}"
    by (auto simp: component_topology_of_market_def example_backed_view_def split: if_splits)
  moreover have "sorted_list_of_set {''p'', ''q''} = [''p'', ''q'']" by code_simp
  ultimately show ?thesis
    by (simp add: index_build_def index_insert_def get_component_def example_backed_view_def is_fallback_candidate_def
        example_backing_env_def example_backing_def filed_pairs_def is_native_token_def sorted_pair_def index_remove_def
        index_default_def file_under_def fun_upd_twist)
qed


end
