(* ===== verification/Graph.thy ===== *)
theory Graph
  imports Feed
begin

text \<open>
  The routing graph of a worker (\<open>src/fynd-core/src/graph/petgraph.rs\<close>): tokens are nodes, and every
  swap direction of a tracked component is an edge.

  The stable directed graph of the petgraph library is the parameter \<open>graph_ops\<close>; \<open>stable_graph\<close>
  states what its documentation says of the operations used here: indices stay valid after removals,
  a new node or edge gets a free index, and adding an edge panics when an endpoint does not exist.
  The edges of one component are an association list in iteration order.
\<close>

subsection \<open>The graph library\<close>

record 'd edge_data =
  ed_component_id :: component_id
  ed_data :: "'d option"

record ('g, 'd) graph_ops =
  gp_empty :: 'g
  gp_node :: "'g \<Rightarrow> nat \<Rightarrow> address option"
  gp_edge :: "'g \<Rightarrow> nat \<Rightarrow> (nat \<times> nat \<times> 'd edge_data) option"
  gp_edge_indices :: "'g \<Rightarrow> nat list"
  gp_add_node :: "address \<Rightarrow> 'g \<Rightarrow> nat \<times> 'g"
  gp_add_edge :: "nat \<Rightarrow> nat \<Rightarrow> 'd edge_data \<Rightarrow> 'g \<Rightarrow> (nat \<times> 'g) run"
  gp_remove_edge :: "nat \<Rightarrow> 'g \<Rightarrow> 'g"
  gp_set_weight :: "nat \<Rightarrow> 'd edge_data \<Rightarrow> 'g \<Rightarrow> 'g"

definition stable_graph :: "('g, 'd) graph_ops \<Rightarrow> bool" where
  "stable_graph ops =
     ((gp_node ops (gp_empty ops) = Map.empty \<and> gp_edge ops (gp_empty ops) = Map.empty)
      \<and> (\<forall>g a n g'. gp_add_node ops a g = (n, g') \<longrightarrow>
           gp_node ops g n = None \<and> gp_node ops g' = (gp_node ops g)(n \<mapsto> a) \<and> gp_edge ops g' = gp_edge ops g)
      \<and> (\<forall>g i j w. gp_node ops g i \<noteq> None \<and> gp_node ops g j \<noteq> None \<longrightarrow>
           (\<exists>e g'. gp_add_edge ops i j w g = ret (e, g') \<and> gp_edge ops g e = None
              \<and> gp_edge ops g' = (gp_edge ops g)(e \<mapsto> (i, j, w)) \<and> gp_node ops g' = gp_node ops g))
      \<and> (\<forall>g e. gp_edge ops (gp_remove_edge ops e g) = (gp_edge ops g)(e := None)
           \<and> gp_node ops (gp_remove_edge ops e g) = gp_node ops g)
      \<and> (\<forall>g e w. gp_node ops (gp_set_weight ops e w g) = gp_node ops g
           \<and> gp_edge ops (gp_set_weight ops e w g) =
               (case gp_edge ops g e of None \<Rightarrow> gp_edge ops g | Some (i, j, _) \<Rightarrow> (gp_edge ops g)(e \<mapsto> (i, j, w)))))"

subsection \<open>The graph manager\<close>

type_synonym direction_edges = "(swap_direction \<times> nat) list"

record 'g graph_manager =
  gm_graph :: 'g
  gm_edge_map :: "component_id \<rightharpoonup> direction_edges"
  gm_node_map :: "address \<rightharpoonup> nat"

datatype graph_error =
  TokenNotFound address | ComponentsNotFound "component_id list" | InvalidComponents "component_id list"

definition graph_manager_new :: "('g, 'd) graph_ops \<Rightarrow> 'g graph_manager" where
  "graph_manager_new ops =
     \<lparr>gm_graph = gp_empty ops, gm_edge_map = Map.empty, gm_node_map = Map.empty\<rparr>"

definition edge_data_new :: "component_id \<Rightarrow> 'd edge_data" where
  "edge_data_new c = \<lparr>ed_component_id = c, ed_data = None\<rparr>"

definition find_node :: "'g graph_manager \<Rightarrow> address \<Rightarrow> graph_error + nat" where
  "find_node gm a = (case gm_node_map gm a of Some n \<Rightarrow> Inr n | None \<Rightarrow> Inl (TokenNotFound a))"

definition get_or_create_node :: "('g, 'd) graph_ops \<Rightarrow> address \<Rightarrow> 'g graph_manager \<Rightarrow> nat \<times> 'g graph_manager" where
  "get_or_create_node ops a gm =
     (case find_node gm a of
        Inr n \<Rightarrow> (n, gm)
      | Inl _ \<Rightarrow>
          let (n, g) = gp_add_node ops a (gm_graph gm) in
          (n, gm\<lparr>gm_graph := g, gm_node_map := (gm_node_map gm)(a \<mapsto> n)\<rparr>))"

text \<open>The loop of \<open>sync_component_edges\<close> over the wanted directions.\<close>

fun add_direction_edges ::
  "('g, 'd) graph_ops \<Rightarrow> component_id \<Rightarrow> swap_direction list \<Rightarrow> direction_edges \<Rightarrow> 'g graph_manager \<Rightarrow>
   (direction_edges \<times> 'g graph_manager) run" where
  "add_direction_edges ops c [] edges gm = ret (edges, gm)"
| "add_direction_edges ops c (d # ds) edges gm =
     (if d \<in> fst ` set edges then add_direction_edges ops c ds edges gm
      else let (i, gm1) = get_or_create_node ops (fst d) gm;
               (j, gm2) = get_or_create_node ops (snd d) gm1 in
           case gp_add_edge ops i j (edge_data_new c) (gm_graph gm2) of
             None \<Rightarrow> panic
           | Some (e, g) \<Rightarrow> add_direction_edges ops c ds (edges @ [(d, e)]) (gm2\<lparr>gm_graph := g\<rparr>))"

definition sync_component_edges ::
  "('g, 'd) graph_ops \<Rightarrow> component_id \<Rightarrow> swap_direction list \<Rightarrow> 'g graph_manager \<Rightarrow> 'g graph_manager run" where
  "sync_component_edges ops c directions gm =
     (let edges = (case gm_edge_map gm c of None \<Rightarrow> [] | Some es \<Rightarrow> es);
          kept = filter (\<lambda>(d, _). d \<in> set directions) edges;
          dropped = filter (\<lambda>(d, _). d \<notin> set directions) edges;
          gm1 = gm\<lparr>gm_edge_map := (gm_edge_map gm)(c := None),
                   gm_graph := fold (gp_remove_edge ops) (map snd dropped) (gm_graph gm)\<rparr> in
      do {
        (edges', gm2) \<leftarrow> add_direction_edges ops c directions kept gm1;
        ret (gm2\<lparr>gm_edge_map := (gm_edge_map gm2)(c \<mapsto> edges')\<rparr>)
      })"

definition remove_component_edges ::
  "('g, 'd) graph_ops \<Rightarrow> component_id \<Rightarrow> 'g graph_manager \<Rightarrow> bool \<times> 'g graph_manager" where
  "remove_component_edges ops c gm =
     (case gm_edge_map gm c of
        None \<Rightarrow> (False, gm)
      | Some edges \<Rightarrow>
          (True, gm\<lparr>gm_edge_map := (gm_edge_map gm)(c := None),
                    gm_graph := fold (gp_remove_edge ops) (map snd edges) (gm_graph gm)\<rparr>))"

fun add_component_list ::
  "('g, 'd) graph_ops \<Rightarrow> (component_id \<times> component_topology) list \<Rightarrow> component_id list \<Rightarrow> 'g graph_manager \<Rightarrow>
   (component_id list \<times> 'g graph_manager) run" where
  "add_component_list ops [] invalid gm = ret (invalid, gm)"
| "add_component_list ops ((c, topology) # cs) invalid gm =
     (if length (ct_tokens topology) < 2 then add_component_list ops cs (invalid @ [c]) gm
      else do {
        let gm1 = fold (\<lambda>t gm. snd (get_or_create_node ops t gm)) (sort (ct_tokens topology)) gm;
        gm2 \<leftarrow> sync_component_edges ops c (ct_swap_directions topology) gm1;
        add_component_list ops cs invalid gm2
      })"

text \<open>The entries of a hash map, sorted by key.\<close>

definition sorted_entries :: "(component_id \<rightharpoonup> 'a) \<Rightarrow> (component_id \<times> 'a) list" where
  "sorted_entries t = List.map_filter (\<lambda>i. map_option (Pair i) (t i)) (sorted_list_of_set (dom t))"

definition add_components ::
  "('g, 'd) graph_ops \<Rightarrow> (component_id \<rightharpoonup> component_topology) \<Rightarrow> 'g graph_manager \<Rightarrow>
   ((graph_error + unit) \<times> 'g graph_manager) run" where
  "add_components ops components gm =
     do {
       (invalid, gm') \<leftarrow> add_component_list ops (sorted_entries components) [] gm;
       ret (if invalid \<noteq> [] then Inl (InvalidComponents invalid) else Inr (), gm')
     }"

fun remove_component_list ::
  "('g, 'd) graph_ops \<Rightarrow> component_id list \<Rightarrow> component_id list \<Rightarrow> 'g graph_manager \<Rightarrow>
   component_id list \<times> 'g graph_manager" where
  "remove_component_list ops [] missing gm = (missing, gm)"
| "remove_component_list ops (c # cs) missing gm =
     (let (tracked, gm1) = remove_component_edges ops c gm in
      remove_component_list ops cs (if tracked then missing else missing @ [c]) gm1)"

definition graph_remove_components ::
  "('g, 'd) graph_ops \<Rightarrow> component_id list \<Rightarrow> 'g graph_manager \<Rightarrow> (graph_error + unit) \<times> 'g graph_manager" where
  "graph_remove_components ops ids gm =
     (let (missing, gm') = remove_component_list ops ids [] gm in
      (if missing \<noteq> [] then Inl (ComponentsNotFound missing) else Inr (), gm'))"

definition add_token_node :: "('g, 'd) graph_ops \<Rightarrow> address \<Rightarrow> 'g graph_manager \<Rightarrow> 'g graph_manager" where
  "add_token_node ops t gm =
     (let (n, g) = gp_add_node ops t (gm_graph gm) in
      gm\<lparr>gm_graph := g, gm_node_map := (gm_node_map gm)(t \<mapsto> n)\<rparr>)"

definition initialize_graph ::
  "('g, 'd) graph_ops \<Rightarrow> (component_id \<rightharpoonup> component_topology) \<Rightarrow> 'g graph_manager run" where
  "initialize_graph ops topology =
     (let unique_tokens = sorted_list_of_set (\<Union>t \<in> ran topology. set (ct_tokens t));
          gm = fold (add_token_node ops) unique_tokens (graph_manager_new ops) in
      do {
        (_, gm') \<leftarrow> add_components ops topology gm;
        ret gm'
      })"

definition graph_handle_event ::
  "('g, 'd) graph_ops \<Rightarrow> market_event \<Rightarrow> 'g graph_manager \<Rightarrow> ((graph_error list + unit) \<times> 'g graph_manager) run" where
  "graph_handle_event ops e gm =
     do {
       (added, gm1) \<leftarrow> add_components ops (me_added_components e) gm;
       let (removed, gm2) = graph_remove_components ops (me_removed_components e) gm1;
       let errors = (case added of Inl err \<Rightarrow> [err] | Inr _ \<Rightarrow> []) @ (case removed of Inl err \<Rightarrow> [err] | Inr _ \<Rightarrow> []);
       ret (if errors = [] then Inr () else Inl errors, gm2)
     }"

subsection \<open>Edge weights\<close>

text \<open>\<open>weight\<close> is the weight type's \<open>from_sim_and_derived\<close> on the derived data at hand.\<close>

definition edge_weight_update ::
  "('g, 'd) graph_ops \<Rightarrow> ('s \<Rightarrow> component_id \<Rightarrow> token \<Rightarrow> token \<Rightarrow> 'd option) \<Rightarrow> 's market_data_view \<Rightarrow> 'g \<Rightarrow> nat \<Rightarrow>
   (nat \<times> 'd option) option run" where
  "edge_weight_update ops weight view g e =
     (case gp_edge ops g e of
        None \<Rightarrow> ret None
      | Some (i, j, w) \<Rightarrow>
          (case view_get_simulation_state view (ed_component_id w) of
             None \<Rightarrow> ret None
           | Some s \<Rightarrow>
               (case (gp_node ops g i, gp_node ops g j) of
                  (Some source, Some target) \<Rightarrow>
                    (case (mk_tokens (mv_base view) source, mk_tokens (mv_base view) target) of
                       (Some token_in, Some token_out) \<Rightarrow>
                         ret (Some (e, weight s (ed_component_id w) token_in token_out))
                     | _ \<Rightarrow> ret None)
                | _ \<Rightarrow> panic)))"

definition set_edge_data :: "('g, 'd) graph_ops \<Rightarrow> nat \<times> 'd option \<Rightarrow> 'g \<Rightarrow> 'g" where
  "set_edge_data ops update g =
     (case gp_edge ops g (fst update) of
        None \<Rightarrow> g
      | Some (_, _, data) \<Rightarrow> gp_set_weight ops (fst update) (data\<lparr>ed_data := snd update\<rparr>) g)"

definition update_edge_weights_with_derived ::
  "('g, 'd) graph_ops \<Rightarrow> ('s \<Rightarrow> component_id \<Rightarrow> token \<Rightarrow> token \<Rightarrow> 'd option) \<Rightarrow> 's market_data_view \<Rightarrow>
   'g graph_manager \<Rightarrow> (nat \<times> 'g graph_manager) run" where
  "update_edge_weights_with_derived ops weight view gm =
     do {
       found \<leftarrow> run_each (edge_weight_update ops weight view (gm_graph gm)) (gp_edge_indices ops (gm_graph gm));
       let updates = List.map_filter id found;
       ret (length (filter (\<lambda>(_, w). w \<noteq> None) updates),
            gm\<lparr>gm_graph := fold (set_edge_data ops) updates (gm_graph gm)\<rparr>)
     }"

subsection \<open>Well-formed managers\<close>

text \<open>
  \<open>filed\<close> is what the edge map says of an edge, \<open>drawn\<close> what the graph says of it. A manager is
  well formed when the two agree, a direction is filed once, and the node map is the inverse of the
  graph's node labels.
\<close>

definition filed :: "(component_id \<rightharpoonup> direction_edges) \<Rightarrow> component_id \<Rightarrow> swap_direction \<Rightarrow> nat \<Rightarrow> bool" where
  "filed edges c d e = (case edges c of None \<Rightarrow> False | Some es \<Rightarrow> (d, e) \<in> set es)"

definition drawn :: "('g, 'd) graph_ops \<Rightarrow> 'g \<Rightarrow> component_id \<Rightarrow> swap_direction \<Rightarrow> nat \<Rightarrow> bool" where
  "drawn ops g c d e =
     (case gp_edge ops g e of
        None \<Rightarrow> False
      | Some (i, j, w) \<Rightarrow>
          ed_component_id w = c \<and> gp_node ops g i = Some (fst d) \<and> gp_node ops g j = Some (snd d))"

definition graph_wf ::
  "('g, 'd) graph_ops \<Rightarrow> (address \<rightharpoonup> nat) \<Rightarrow> (component_id \<rightharpoonup> direction_edges) \<Rightarrow> 'g \<Rightarrow> bool" where
  "graph_wf ops nodes edges g =
     ((\<forall>a n. nodes a = Some n \<longleftrightarrow> gp_node ops g n = Some a)
      \<and> (\<forall>e i j w. gp_edge ops g e = Some (i, j, w) \<longrightarrow> gp_node ops g i \<noteq> None \<and> gp_node ops g j \<noteq> None)
      \<and> (\<forall>c es. edges c = Some es \<longrightarrow> distinct (map fst es))
      \<and> (\<forall>c d e. filed edges c d e \<longleftrightarrow> drawn ops g c d e))"

abbreviation manager_wf :: "('g, 'd) graph_ops \<Rightarrow> 'g graph_manager \<Rightarrow> bool" where
  "manager_wf ops gm \<equiv> graph_wf ops (gm_node_map gm) (gm_edge_map gm) (gm_graph gm)"

lemma stable_graphD:
  assumes "stable_graph ops"
  shows "gp_node ops (gp_empty ops) = Map.empty" "gp_edge ops (gp_empty ops) = Map.empty"
    and "gp_add_node ops a g = (n, g') \<Longrightarrow> gp_node ops g n = None"
    and "gp_add_node ops a g = (n, g') \<Longrightarrow> gp_node ops g' = (gp_node ops g)(n \<mapsto> a)"
    and "gp_add_node ops a g = (n, g') \<Longrightarrow> gp_edge ops g' = gp_edge ops g"
    and "gp_node ops g i \<noteq> None \<Longrightarrow> gp_node ops g j \<noteq> None \<Longrightarrow>
      \<exists>e g'. gp_add_edge ops i j w g = ret (e, g') \<and> gp_edge ops g e = None
        \<and> gp_edge ops g' = (gp_edge ops g)(e \<mapsto> (i, j, w)) \<and> gp_node ops g' = gp_node ops g"
    and "gp_edge ops (gp_remove_edge ops e g) = (gp_edge ops g)(e := None)"
    and "gp_node ops (gp_remove_edge ops e g) = gp_node ops g"
    and "gp_node ops (gp_set_weight ops e w g) = gp_node ops g"
    and "gp_edge ops (gp_set_weight ops e w g) =
      (case gp_edge ops g e of None \<Rightarrow> gp_edge ops g | Some (i, j, _) \<Rightarrow> (gp_edge ops g)(e \<mapsto> (i, j, w)))"
  using assms unfolding stable_graph_def by (blast, blast, blast, blast, blast, blast, blast, blast, blast, blast)

lemma drawn_unique: "drawn ops g c d e \<Longrightarrow> drawn ops g c' d' e \<Longrightarrow> c' = c \<and> d' = d"
  by (auto simp: drawn_def prod_eq_iff split: option.splits)

lemma graph_wfD:
  assumes "graph_wf ops nodes edges g"
  shows "nodes a = Some n \<longleftrightarrow> gp_node ops g n = Some a"
    and "gp_edge ops g e = Some (i, j, w) \<Longrightarrow> gp_node ops g i \<noteq> None"
    and "gp_edge ops g e = Some (i, j, w) \<Longrightarrow> gp_node ops g j \<noteq> None"
    and "edges c = Some es \<Longrightarrow> distinct (map fst es)"
    and "filed edges c d e \<longleftrightarrow> drawn ops g c d e"
  using assms unfolding graph_wf_def by (blast, blast, blast, blast, blast)

lemma graph_wf_empty: "stable_graph ops \<Longrightarrow> graph_wf ops Map.empty Map.empty (gp_empty ops)"
  by (simp add: graph_wf_def stable_graphD filed_def drawn_def)

subsection \<open>Nodes\<close>

lemma drawn_same_edge:
  assumes wf: "graph_wf ops nodes edges g" and "gp_edge ops g' = gp_edge ops g"
    and nodes': "\<And>n. gp_node ops g n \<noteq> None \<Longrightarrow> gp_node ops g' n = gp_node ops g n"
  shows "drawn ops g' c d e \<longleftrightarrow> drawn ops g c d e"
proof (cases "gp_edge ops g e")
  case None
  then show ?thesis by (simp add: drawn_def assms(2))
next
  case (Some x)
  then obtain i j w where x: "gp_edge ops g e = Some (i, j, w)" by (cases x) simp
  show ?thesis
    using nodes' [OF graph_wfD(2) [OF wf x]] nodes' [OF graph_wfD(3) [OF wf x]]
    by (simp add: drawn_def assms(2) x)
qed

lemma graph_wf_add_node:
  assumes law: "stable_graph ops" and wf: "graph_wf ops nodes edges g"
    and new: "nodes a = None" and add: "gp_add_node ops a g = (n, g')"
  shows "graph_wf ops (nodes(a \<mapsto> n)) edges g'"
proof -
  note add' = stable_graphD(3,4,5) [OF law add]
  have drawn: "drawn ops g' c d e \<longleftrightarrow> drawn ops g c d e" for c d e
    by (rule drawn_same_edge [OF wf]) (auto simp: add')
  have fresh: "nodes b \<noteq> Some n" for b using graph_wfD(1) [OF wf, of b n] add'(1) by simp
  have unlabelled: "gp_node ops g k \<noteq> Some a" for k using graph_wfD(1) [OF wf, of a k] new by simp
  have "(nodes(a \<mapsto> n)) b = Some k \<longleftrightarrow> gp_node ops g' k = Some b" for b k
    using graph_wfD(1) [OF wf, of b k] fresh [of b] unlabelled [of k] by (auto simp: add')
  moreover have "gp_node ops g' i \<noteq> None \<and> gp_node ops g' j \<noteq> None" if "gp_edge ops g' e = Some (i, j, w)" for e i j w
    using that graph_wfD(2,3) [OF wf, of e i j w] by (simp add: add')
  moreover have "distinct (map fst es)" if "edges c = Some es" for c es using graph_wfD(4) [OF wf that] .
  moreover have "filed edges c d e \<longleftrightarrow> drawn ops g' c d e" for c d e using graph_wfD(5) [OF wf] drawn by simp
  ultimately show ?thesis unfolding graph_wf_def by blast
qed

lemma get_or_create_node_wf:
  assumes law: "stable_graph ops" and wf: "graph_wf ops (gm_node_map gm) edges (gm_graph gm)"
    and run: "get_or_create_node ops a gm = (n, gm')"
  shows "graph_wf ops (gm_node_map gm') edges (gm_graph gm')"
    and "gp_node ops (gm_graph gm') n = Some a"
    and "gm_edge_map gm' = gm_edge_map gm"
    and "gp_edge ops (gm_graph gm') = gp_edge ops (gm_graph gm)"
    and "gp_node ops (gm_graph gm) k \<noteq> None \<Longrightarrow> gp_node ops (gm_graph gm') k = gp_node ops (gm_graph gm) k"
proof -
  have "graph_wf ops (gm_node_map gm') edges (gm_graph gm') \<and> gp_node ops (gm_graph gm') n = Some a
      \<and> gm_edge_map gm' = gm_edge_map gm \<and> gp_edge ops (gm_graph gm') = gp_edge ops (gm_graph gm)
      \<and> (gp_node ops (gm_graph gm) k \<noteq> None \<longrightarrow> gp_node ops (gm_graph gm') k = gp_node ops (gm_graph gm) k)"
  proof (cases "gm_node_map gm a")
    case (Some m)
    then have "gm' = gm" "n = m" using run by (simp_all add: get_or_create_node_def find_node_def)
    then show ?thesis using wf Some graph_wfD(1) [OF wf] by simp
  next
    case None
    obtain m g where add: "gp_add_node ops a (gm_graph gm) = (m, g)" by fastforce
    then have gm': "n = m" "gm' = gm\<lparr>gm_graph := g, gm_node_map := (gm_node_map gm)(a \<mapsto> m)\<rparr>"
      using run None by (auto simp: get_or_create_node_def find_node_def)
    show ?thesis
      using graph_wf_add_node [OF law wf None add] stable_graphD(3,4,5) [OF law add] by (auto simp: gm')
  qed
  then show "graph_wf ops (gm_node_map gm') edges (gm_graph gm')"
    and "gp_node ops (gm_graph gm') n = Some a"
    and "gm_edge_map gm' = gm_edge_map gm"
    and "gp_edge ops (gm_graph gm') = gp_edge ops (gm_graph gm)"
    and "gp_node ops (gm_graph gm) k \<noteq> None \<Longrightarrow> gp_node ops (gm_graph gm') k = gp_node ops (gm_graph gm) k"
    by blast+
qed

subsection \<open>Edges\<close>

lemma filed_upd: "filed (edges(c \<mapsto> es)) c' d e = (if c' = c then (d, e) \<in> set es else filed edges c' d e)"
  by (simp add: filed_def)

lemma graph_wf_add_edge:
  assumes law: "stable_graph ops" and wf: "graph_wf ops nodes (edges(c \<mapsto> es)) g"
    and ends: "gp_node ops g i = Some (fst d)" "gp_node ops g j = Some (snd d)"
    and new: "d \<notin> fst ` set es"
  obtains e g' where "gp_add_edge ops i j (edge_data_new c) g = ret (e, g')"
    and "graph_wf ops nodes (edges(c \<mapsto> es @ [(d, e)])) g'"
    and "\<forall>e' x. gp_edge ops g e' = Some x \<longrightarrow> gp_edge ops g' e' = Some x"
    and "gp_node ops g' = gp_node ops g"
proof -
  obtain e g' where add: "gp_add_edge ops i j (edge_data_new c) g = ret (e, g')"
    and free: "gp_edge ops g e = None"
    and edge: "gp_edge ops g' = (gp_edge ops g)(e \<mapsto> (i, j, edge_data_new c))"
    and node: "gp_node ops g' = gp_node ops g"
    using stable_graphD(6) [OF law, of g i j "edge_data_new c"] ends by auto
  have drawn: "drawn ops g' c' d' e' \<longleftrightarrow> (if e' = e then c' = c \<and> d' = d else drawn ops g c' d' e')" for c' d' e'
    using ends by (auto simp: drawn_def edge node edge_data_new_def prod_eq_iff split: option.splits)
  have "filed (edges(c \<mapsto> es @ [(d, e)])) c' d' e' \<longleftrightarrow> drawn ops g' c' d' e'" for c' d' e'
  proof (cases "e' = e")
    case True
    then have "\<not> filed (edges(c \<mapsto> es)) c' d' e'" using graph_wfD(5) [OF wf] free by (simp add: drawn_def)
    then show ?thesis using True by (auto simp: drawn filed_upd split: if_splits)
  next
    case False
    then show ?thesis using graph_wfD(5) [OF wf, of c' d' e'] by (auto simp: drawn filed_upd split: if_splits)
  qed
  moreover have "distinct (map fst es')" if "(edges(c \<mapsto> es @ [(d, e)])) c' = Some es'" for c' es'
    using that graph_wfD(4) [OF wf, of c' es'] graph_wfD(4) [OF wf, of c es] new by (auto split: if_splits)
  moreover have "gp_node ops g' i' \<noteq> None \<and> gp_node ops g' j' \<noteq> None" if "gp_edge ops g' e' = Some (i', j', w)" for e' i' j' w
    using that ends graph_wfD(2,3) [OF wf, of e' i' j' w] by (auto simp: edge node split: if_splits)
  moreover have "nodes a = Some n \<longleftrightarrow> gp_node ops g' n = Some a" for a n using graph_wfD(1) [OF wf] by (simp add: node)
  ultimately have "graph_wf ops nodes (edges(c \<mapsto> es @ [(d, e)])) g'" unfolding graph_wf_def by blast
  moreover have "gp_edge ops g' e' = Some x" if "gp_edge ops g e' = Some x" for e' x
    using that free by (auto simp: edge)
  ultimately show thesis using that add node by blast
qed

lemma remove_edges:
  assumes "stable_graph ops"
  shows "gp_edge ops (fold (gp_remove_edge ops) es g) = gp_edge ops g |` (- set es)"
    and "gp_node ops (fold (gp_remove_edge ops) es g) = gp_node ops g"
  by (induction es arbitrary: g)
    (auto simp: stable_graphD(7,8) [OF assms] restrict_map_def fun_eq_iff)

lemma graph_wf_retain:
  assumes law: "stable_graph ops" and wf: "graph_wf ops nodes edges g" and tracked: "edges c = Some es"
  shows "graph_wf ops nodes (edges(c \<mapsto> filter P es)) (fold (gp_remove_edge ops) (map snd (filter (\<lambda>x. \<not> P x) es)) g)"
    (is "graph_wf ops nodes ?edges ?g")
proof -
  let ?gone = "set (map snd (filter (\<lambda>x. \<not> P x) es))"
  note edge = remove_edges(1) [OF law] and node = remove_edges(2) [OF law]
  have drawn: "drawn ops ?g c' d e \<longleftrightarrow> drawn ops g c' d e \<and> e \<notin> ?gone" for c' d e
    by (cases "gp_edge ops g e") (auto simp: drawn_def edge node restrict_map_def)
  have "filed ?edges c' d e \<longleftrightarrow> drawn ops ?g c' d e" for c' d e
  proof -
    have gone: "drawn ops g c' d e \<Longrightarrow> e \<in> ?gone \<longleftrightarrow> c' = c \<and> \<not> P (d, e)"
    proof -
      assume here: "drawn ops g c' d e"
      have "c' = c \<and> d' = d" if "(d', e) \<in> set es" for d'
        using drawn_unique [OF _ here, of c d'] that graph_wfD(5) [OF wf, of c d' e] by (simp add: filed_def tracked)
      moreover have "(d, e) \<in> set es" if "c' = c" using here that graph_wfD(5) [OF wf, of c d e] by (simp add: filed_def tracked)
      moreover have "e \<in> ?gone \<longleftrightarrow> (\<exists>d'. (d', e) \<in> set es \<and> \<not> P (d', e))" by force
      ultimately show ?thesis by blast
    qed
    show ?thesis using gone graph_wfD(5) [OF wf, of c' d e]
      by (auto simp: drawn filed_upd filed_def tracked split: if_splits)
  qed
  moreover have "distinct (map fst es')" if "?edges c' = Some es'" for c' es'
    using that graph_wfD(4) [OF wf, of c' es'] graph_wfD(4) [OF wf tracked]
    by (auto simp: distinct_map_filter split: if_splits)
  moreover have "gp_node ops ?g i' \<noteq> None \<and> gp_node ops ?g j' \<noteq> None" if "gp_edge ops ?g e' = Some (i', j', w)" for e' i' j' w
    using that graph_wfD(2,3) [OF wf, of e' i' j' w] by (simp add: edge node restrict_map_def split: if_splits)
  moreover have "nodes a = Some n \<longleftrightarrow> gp_node ops ?g n = Some a" for a n using graph_wfD(1) [OF wf] by (simp add: node)
  ultimately show ?thesis unfolding graph_wf_def by blast
qed

lemma graph_wf_no_edges:
  assumes wf: "graph_wf ops nodes edges g" and "\<And>c' d e. filed edges' c' d e \<longleftrightarrow> filed edges c' d e"
    and same: "\<And>c' es. edges' c' = Some es \<Longrightarrow> es = [] \<or> edges c' = Some es"
  shows "graph_wf ops nodes edges' g"
proof -
  have "distinct (map fst es)" if "edges' c' = Some es" for c' es
    using same [OF that] graph_wfD(4) [OF wf, of c' es] by auto
  then show ?thesis using wf unfolding graph_wf_def assms(2) by blast
qed

subsection \<open>The tracked directions\<close>

text \<open>The abstract view of a manager: the set of directions it holds for each tracked component.\<close>

definition tracked_directions :: "'g graph_manager \<Rightarrow> component_id \<rightharpoonup> swap_direction set" where
  "tracked_directions gm = (\<lambda>c. map_option (\<lambda>es. fst ` set es) (gm_edge_map gm c))"

lemma add_direction_edges_wf:
  assumes law: "stable_graph ops" and "graph_wf ops (gm_node_map gm) (edges(c \<mapsto> es)) (gm_graph gm)"
  shows "\<exists>es' gm'. add_direction_edges ops c ds es gm = ret (es', gm')
    \<and> graph_wf ops (gm_node_map gm') (edges(c \<mapsto> es')) (gm_graph gm')
    \<and> fst ` set es' = fst ` set es \<union> set ds \<and> gm_edge_map gm' = gm_edge_map gm \<and> set es \<subseteq> set es'
    \<and> (\<forall>e x. gp_edge ops (gm_graph gm) e = Some x \<longrightarrow> gp_edge ops (gm_graph gm') e = Some x)"
  using assms(2)
proof (induction ds arbitrary: es gm)
  case Nil
  then show ?case by simp
next
  case (Cons d ds)
  show ?case
  proof (cases "d \<in> fst ` set es")
    case True
    then have "fst ` set es \<union> set (d # ds) = fst ` set es \<union> set ds" by auto
    then show ?thesis using Cons.IH [OF Cons.prems] True by auto
  next
    case False
    obtain i gm1 where 1: "get_or_create_node ops (fst d) gm = (i, gm1)" by fastforce
    note n1 = get_or_create_node_wf [OF law Cons.prems 1]
    obtain j gm2 where 2: "get_or_create_node ops (snd d) gm1 = (j, gm2)" by fastforce
    note n2 = get_or_create_node_wf [OF law n1(1) 2]
    have i: "gp_node ops (gm_graph gm2) i = Some (fst d)" using n2(5) [of i] n1(2) by simp
    obtain e g where add: "gp_add_edge ops i j (edge_data_new c) (gm_graph gm2) = ret (e, g)"
      and wf: "graph_wf ops (gm_node_map gm2) (edges(c \<mapsto> es @ [(d, e)])) g"
      and kept: "\<forall>e' x. gp_edge ops (gm_graph gm2) e' = Some x \<longrightarrow> gp_edge ops g e' = Some x"
      and "gp_node ops g = gp_node ops (gm_graph gm2)"
      by (rule graph_wf_add_edge [OF law n2(1) i n2(2) False])
    have step: "add_direction_edges ops c (d # ds) es gm
        = add_direction_edges ops c ds (es @ [(d, e)]) (gm2\<lparr>gm_graph := g\<rparr>)"
      using False by (simp add: 1 2 add)
    have "graph_wf ops (gm_node_map (gm2\<lparr>gm_graph := g\<rparr>)) (edges(c \<mapsto> es @ [(d, e)])) (gm_graph (gm2\<lparr>gm_graph := g\<rparr>))"
      using wf by simp
    from Cons.IH [OF this] obtain es' gm' where
      rest: "add_direction_edges ops c ds (es @ [(d, e)]) (gm2\<lparr>gm_graph := g\<rparr>) = ret (es', gm')
        \<and> graph_wf ops (gm_node_map gm') (edges(c \<mapsto> es')) (gm_graph gm')
        \<and> fst ` set es' = fst ` set (es @ [(d, e)]) \<union> set ds
        \<and> gm_edge_map gm' = gm_edge_map (gm2\<lparr>gm_graph := g\<rparr>) \<and> set (es @ [(d, e)]) \<subseteq> set es'
        \<and> (\<forall>e' x. gp_edge ops (gm_graph (gm2\<lparr>gm_graph := g\<rparr>)) e' = Some x \<longrightarrow> gp_edge ops (gm_graph gm') e' = Some x)"
      by (elim exE)
    then have "fst ` set es' = fst ` set es \<union> set (d # ds)" "set es \<subseteq> set es'" "gm_edge_map gm' = gm_edge_map gm"
      using n1(3) n2(3) by simp_all
    moreover have "gp_edge ops (gm_graph gm') e' = Some x" if "gp_edge ops (gm_graph gm) e' = Some x" for e' x
      using rest kept that n1(4) n2(4) by (cases x) simp
    ultimately show ?thesis unfolding step using rest by blast
  qed
qed

lemma sync_component_edges_wf:
  assumes law: "stable_graph ops" and wf: "manager_wf ops gm"
  shows "\<exists>gm'. sync_component_edges ops c ds gm = ret gm' \<and> manager_wf ops gm'
    \<and> tracked_directions gm' = (tracked_directions gm)(c \<mapsto> set ds)
    \<and> (\<forall>e x d. filed (gm_edge_map gm) c d e \<and> d \<in> set ds \<and> gp_edge ops (gm_graph gm) e = Some x \<longrightarrow>
          filed (gm_edge_map gm') c d e \<and> gp_edge ops (gm_graph gm') e = Some x)"
proof -
  define es where es: "es = (case gm_edge_map gm c of None \<Rightarrow> [] | Some es \<Rightarrow> es)"
  let ?edges = "(gm_edge_map gm)(c \<mapsto> es)"
  let ?P = "\<lambda>(d, _). d \<in> set ds"
  define kept where kept: "kept = filter ?P es"
  define g where g: "g = fold (gp_remove_edge ops) (map snd (filter (\<lambda>x. \<not> ?P x) es)) (gm_graph gm)"
  define gm1 where gm1: "gm1 = gm\<lparr>gm_edge_map := (gm_edge_map gm)(c := None), gm_graph := g\<rparr>"
  have wf0: "graph_wf ops (gm_node_map gm) ?edges (gm_graph gm)"
    by (rule graph_wf_no_edges [OF wf]) (auto simp: filed_def es split: option.splits if_splits)
  have wf1: "graph_wf ops (gm_node_map gm1) (((gm_edge_map gm)(c := None))(c \<mapsto> kept)) (gm_graph gm1)"
    using graph_wf_retain [OF law wf0, of c es ?P] by (simp add: gm1 kept g)
  obtain es' gm2 where run: "add_direction_edges ops c ds kept gm1 = ret (es', gm2)"
    and wf2: "graph_wf ops (gm_node_map gm2) (((gm_edge_map gm)(c := None))(c \<mapsto> es')) (gm_graph gm2)"
    and fst_es': "fst ` set es' = fst ` set kept \<union> set ds" and em: "gm_edge_map gm2 = gm_edge_map gm1"
    and more: "set kept \<subseteq> set es'"
    and old: "\<And>e x. gp_edge ops (gm_graph gm1) e = Some x \<Longrightarrow> gp_edge ops (gm_graph gm2) e = Some x"
    using add_direction_edges_wf [OF law wf1, of ds] by blast
  define gm' where gm': "gm' = gm2\<lparr>gm_edge_map := (gm_edge_map gm2)(c \<mapsto> es')\<rparr>"
  have sync: "sync_component_edges ops c ds gm = ret gm'"
    unfolding sync_component_edges_def Let_def es [symmetric]
    using run by (simp add: kept gm1 g gm' case_prod_unfold)
  have "fst ` set es' = set ds" using fst_es' by (auto simp: kept)
  then have dirs: "tracked_directions gm' = (tracked_directions gm)(c \<mapsto> set ds)"
    by (auto simp: tracked_directions_def gm' em gm1 fun_eq_iff)
  have "filed (gm_edge_map gm') c d e \<and> gp_edge ops (gm_graph gm') e = Some x"
    if f: "filed (gm_edge_map gm) c d e" "d \<in> set ds" and x: "gp_edge ops (gm_graph gm) e = Some x" for e x d
  proof -
    have "(d, e) \<in> set kept" using f by (auto simp: filed_def es kept split: option.splits)
    then have "drawn ops (gm_graph gm1) c d e" using graph_wfD(5) [OF wf1, of c d e] by (simp add: filed_upd)
    then have "gp_edge ops (gm_graph gm1) e = Some x"
      using x by (auto simp: drawn_def gm1 g remove_edges [OF law] restrict_map_def split: option.splits if_splits)
    then show ?thesis using old more \<open>(d, e) \<in> set kept\<close> by (auto simp: gm' filed_upd)
  qed
  moreover have "manager_wf ops gm'" using wf2 by (simp add: gm' em gm1)
  ultimately show ?thesis using sync dirs by blast
qed

lemma sync_component_edges_tracked:
  assumes "stable_graph ops" "manager_wf ops gm"
  obtains gm' where "sync_component_edges ops c ds gm = ret gm'" "manager_wf ops gm'"
    and "tracked_directions gm' = (tracked_directions gm)(c \<mapsto> set ds)"
  using sync_component_edges_wf [OF assms, of c ds] by blast

lemma remove_component_edges_wf:
  assumes law: "stable_graph ops" and wf: "manager_wf ops gm" and run: "remove_component_edges ops c gm = (tracked, gm')"
  shows "manager_wf ops gm'" "tracked_directions gm' = (tracked_directions gm)(c := None)"
    and "tracked \<longleftrightarrow> tracked_directions gm c \<noteq> None"
proof -
  have "manager_wf ops gm' \<and> tracked_directions gm' = (tracked_directions gm)(c := None)
      \<and> (tracked \<longleftrightarrow> tracked_directions gm c \<noteq> None)"
  proof (cases "gm_edge_map gm c")
    case None
    then show ?thesis using wf run by (auto simp: remove_component_edges_def tracked_directions_def fun_eq_iff)
  next
    case (Some es)
    let ?g = "fold (gp_remove_edge ops) (map snd es) (gm_graph gm)"
    have gm': "gm' = gm\<lparr>gm_edge_map := (gm_edge_map gm)(c := None), gm_graph := ?g\<rparr>" and t: tracked
      using run Some by (auto simp: remove_component_edges_def)
    have "graph_wf ops (gm_node_map gm) ((gm_edge_map gm)(c \<mapsto> [])) ?g"
      using graph_wf_retain [OF law wf Some, of "\<lambda>_. False"] by simp
    then have "graph_wf ops (gm_node_map gm) ((gm_edge_map gm)(c := None)) ?g"
      by (rule graph_wf_no_edges) (auto simp: filed_def split: if_splits)
    then show ?thesis using Some t by (auto simp: gm' tracked_directions_def fun_eq_iff)
  qed
  then show "manager_wf ops gm'" "tracked_directions gm' = (tracked_directions gm)(c := None)"
    and "tracked \<longleftrightarrow> tracked_directions gm c \<noteq> None" by auto
qed

lemma create_nodes_wf:
  assumes "stable_graph ops" and "manager_wf ops gm"
  shows "manager_wf ops (fold (\<lambda>t gm. snd (get_or_create_node ops t gm)) ts gm)"
    and "tracked_directions (fold (\<lambda>t gm. snd (get_or_create_node ops t gm)) ts gm) = tracked_directions gm"
proof -
  have step: "graph_wf ops (gm_node_map (snd (get_or_create_node ops t gm))) (gm_edge_map gm) (gm_graph (snd (get_or_create_node ops t gm)))"
    "gm_edge_map (snd (get_or_create_node ops t gm)) = gm_edge_map gm" if "manager_wf ops gm" for t gm
  proof -
    obtain n gm' where run: "get_or_create_node ops t gm = (n, gm')" by fastforce
    show "gm_edge_map (snd (get_or_create_node ops t gm)) = gm_edge_map gm"
      using get_or_create_node_wf(3) [OF assms(1) that run] by (simp add: run)
    show "graph_wf ops (gm_node_map (snd (get_or_create_node ops t gm))) (gm_edge_map gm) (gm_graph (snd (get_or_create_node ops t gm)))"
      using get_or_create_node_wf(1) [OF assms(1) that run] by (simp add: run)
  qed
  show "manager_wf ops (fold (\<lambda>t gm. snd (get_or_create_node ops t gm)) ts gm)"
    and "tracked_directions (fold (\<lambda>t gm. snd (get_or_create_node ops t gm)) ts gm) = tracked_directions gm"
    using assms(2) by (induction ts arbitrary: gm) (simp_all add: step tracked_directions_def)
qed

text \<open>The directions a list of added components stands for; one with fewer than two tokens adds none.\<close>

definition formed_directions :: "component_topology \<Rightarrow> swap_direction set option" where
  "formed_directions t = (if length (ct_tokens t) < 2 then None else Some (set (ct_swap_directions t)))"

definition file_topology ::
  "component_id \<times> component_topology \<Rightarrow> (component_id \<rightharpoonup> swap_direction set) \<Rightarrow> component_id \<rightharpoonup> swap_direction set" where
  "file_topology x t = (case formed_directions (snd x) of None \<Rightarrow> t | Some ds \<Rightarrow> t(fst x \<mapsto> ds))"

lemma add_component_list_wf:
  assumes law: "stable_graph ops" and "manager_wf ops gm"
  shows "\<exists>gm'. add_component_list ops cs invalid gm
      = ret (invalid @ map fst (filter (\<lambda>x. formed_directions (snd x) = None) cs), gm')
    \<and> manager_wf ops gm' \<and> tracked_directions gm' = fold file_topology cs (tracked_directions gm)"
  using assms(2)
proof (induction cs arbitrary: invalid gm)
  case Nil
  then show ?case by simp
next
  case (Cons x cs)
  obtain c t where x: "x = (c, t)" by fastforce
  show ?case
  proof (cases "length (ct_tokens t) < 2")
    case True
    then show ?thesis using Cons.IH [OF Cons.prems, of "invalid @ [c]"]
      by (simp add: x formed_directions_def file_topology_def)
  next
    case False
    let ?gm = "fold (\<lambda>t gm. snd (get_or_create_node ops t gm)) (sort (ct_tokens t)) gm"
    note nodes = create_nodes_wf [OF law Cons.prems]
    obtain gm2 where sync: "sync_component_edges ops c (ct_swap_directions t) ?gm = ret gm2"
      and wf: "manager_wf ops gm2" and dirs: "tracked_directions gm2 = (tracked_directions ?gm)(c \<mapsto> set (ct_swap_directions t))"
      by (rule sync_component_edges_tracked [OF law nodes(1)])
    have formed: "formed_directions t \<noteq> None"
        "file_topology (c, t) (tracked_directions gm) = tracked_directions gm2"
      using False by (simp_all add: formed_directions_def file_topology_def dirs nodes(2))
    show ?thesis
      using Cons.IH [OF wf, of invalid] False by (simp add: x formed sync)
  qed
qed

lemma remove_component_list_wf:
  assumes law: "stable_graph ops" and "manager_wf ops gm" and "remove_component_list ops cs missing gm = (missing', gm')"
  shows "manager_wf ops gm' \<and> tracked_directions gm' = tracked_directions gm |` (- set cs)"
  using assms(2,3)
proof (induction cs arbitrary: missing gm)
  case Nil
  then show ?case by (auto simp: restrict_map_def)
next
  case (Cons c cs)
  obtain tracked gm1 where run: "remove_component_edges ops c gm = (tracked, gm1)" by fastforce
  note step = remove_component_edges_wf [OF law Cons.prems(1) run]
  have "manager_wf ops gm' \<and> tracked_directions gm' = tracked_directions gm1 |` (- set cs)"
    using Cons.IH [OF step(1)] Cons.prems(2) by (simp add: run)
  then show ?case by (auto simp: step(2) restrict_map_def fun_eq_iff)
qed

lemma file_topology_apply:
  "file_topology x t c =
     (if fst x = c then (case formed_directions (snd x) of None \<Rightarrow> t c | Some ds \<Rightarrow> Some ds) else t c)"
  by (simp add: file_topology_def split: option.splits)

lemma file_topologies_other:
  "c \<notin> fst ` set xs \<Longrightarrow> fold file_topology xs t c = t c"
proof (induction xs arbitrary: t)
  case (Cons x xs)
  then show ?case using file_topology_apply [of x t c] by auto
qed simp

lemma file_topologies:
  assumes "distinct (map fst xs)"
  shows "fold file_topology xs t c =
    (case map_of xs c of
       None \<Rightarrow> t c
     | Some tp \<Rightarrow> (case formed_directions tp of None \<Rightarrow> t c | Some ds \<Rightarrow> Some ds))"
  using assms
proof (induction xs arbitrary: t)
  case (Cons x xs)
  show ?case
  proof (cases "fst x = c")
    case True
    then have "c \<notin> fst ` set xs" using Cons.prems by auto
    then show ?thesis using True file_topology_apply [of x t c] by (cases x) (simp add: file_topologies_other)
  next
    case False
    then show ?thesis using Cons file_topology_apply [of x t c] by (cases x) (simp split: option.splits)
  qed
qed simp

lemma sorted_entries:
  assumes "finite (dom t)"
  shows "map_of (sorted_entries t) = t" "distinct (map fst (sorted_entries t))"
proof -
  have entries: "sorted_entries t = map (\<lambda>i. (i, the (t i))) (sorted_list_of_set (dom t))"
    unfolding sorted_entries_def map_filter_def
    using assms by (auto simp: comp_def intro!: map_cong filter_True)
  show "distinct (map fst (sorted_entries t))" by (simp add: entries comp_def)
  show "map_of (sorted_entries t) = t"
  proof
    fix i
    show "map_of (sorted_entries t) i = t i"
      using assms by (auto simp: entries map_of_map_restrict restrict_map_def domIff)
  qed
qed

lemma add_components_tracked:
  assumes law: "stable_graph ops" and wf: "manager_wf ops gm" and fin: "finite (dom added)"
  obtains r gm' where "add_components ops added gm = ret (r, gm')" "manager_wf ops gm'"
    and "tracked_directions gm' =
      (\<lambda>c. case Option.bind (added c) formed_directions of None \<Rightarrow> tracked_directions gm c | Some ds \<Rightarrow> Some ds)"
proof -
  obtain gm' where run: "add_component_list ops (sorted_entries added) [] gm
      = ret ([] @ map fst (filter (\<lambda>x. formed_directions (snd x) = None) (sorted_entries added)), gm')
    \<and> manager_wf ops gm' \<and> tracked_directions gm' = fold file_topology (sorted_entries added) (tracked_directions gm)"
    using add_component_list_wf [OF law wf, where cs = "sorted_entries added" and invalid = "[]"] by (elim exE)
  have "tracked_directions gm' c =
      (case Option.bind (added c) formed_directions of None \<Rightarrow> tracked_directions gm c | Some ds \<Rightarrow> Some ds)" for c
    using run by (simp add: file_topologies sorted_entries [OF fin] split: option.splits bind_splits)
  then show thesis
    using that run unfolding add_components_def by fastforce
qed

lemma graph_remove_components_tracked:
  assumes "stable_graph ops" and "manager_wf ops gm"
  obtains r gm' where "graph_remove_components ops ids gm = (r, gm')" "manager_wf ops gm'"
    and "tracked_directions gm' = tracked_directions gm |` (- set ids)"
proof -
  obtain missing gm' where run: "remove_component_list ops ids [] gm = (missing, gm')" by fastforce
  show thesis
    using that remove_component_list_wf [OF assms run] run unfolding graph_remove_components_def by auto
qed

lemma graph_handle_event_tracked:
  assumes law: "stable_graph ops" and wf: "manager_wf ops gm" and fin: "finite (dom (me_added_components e))"
  obtains r gm' where "graph_handle_event ops e gm = ret (r, gm')" "manager_wf ops gm'"
    and "tracked_directions gm' = (\<lambda>c. if c \<in> set (me_removed_components e) then None
      else case Option.bind (me_added_components e c) formed_directions of
             None \<Rightarrow> tracked_directions gm c | Some ds \<Rightarrow> Some ds)"
proof -
  obtain r1 gm1 where add: "add_components ops (me_added_components e) gm = ret (r1, gm1)" "manager_wf ops gm1"
    and dirs1: "tracked_directions gm1 = (\<lambda>c. case Option.bind (me_added_components e c) formed_directions of
             None \<Rightarrow> tracked_directions gm c | Some ds \<Rightarrow> Some ds)"
    by (rule add_components_tracked [OF law wf fin])
  obtain r2 gm2 where rem: "graph_remove_components ops (me_removed_components e) gm1 = (r2, gm2)" "manager_wf ops gm2"
    and dirs2: "tracked_directions gm2 = tracked_directions gm1 |` (- set (me_removed_components e))"
    by (rule graph_remove_components_tracked [OF law add(2)])
  have "\<exists>r. graph_handle_event ops e gm = ret (r, gm2)"
    by (simp add: graph_handle_event_def add(1) rem(1) Let_def)
  moreover have "tracked_directions gm2 = (\<lambda>c. if c \<in> set (me_removed_components e) then None
      else case Option.bind (me_added_components e c) formed_directions of
             None \<Rightarrow> tracked_directions gm c | Some ds \<Rightarrow> Some ds)"
    by (simp add: dirs2 dirs1 restrict_map_def fun_eq_iff)
  ultimately show thesis using that rem(2) by blast
qed

lemma initial_nodes_wf:
  assumes law: "stable_graph ops" and "distinct ts" and "manager_wf ops gm" and "set ts \<inter> dom (gm_node_map gm) = {}"
  shows "manager_wf ops (fold (add_token_node ops) ts gm) \<and> gm_edge_map (fold (add_token_node ops) ts gm) = gm_edge_map gm"
  using assms(2,3,4)
proof (induction ts arbitrary: gm)
  case Nil
  then show ?case by simp
next
  case (Cons t ts)
  obtain n g where add: "gp_add_node ops t (gm_graph gm) = (n, g)" by fastforce
  have gm': "add_token_node ops t gm = gm\<lparr>gm_graph := g, gm_node_map := (gm_node_map gm)(t \<mapsto> n)\<rparr>"
    by (simp add: add_token_node_def add)
  have "gm_node_map gm t = None" using Cons.prems(3) by auto
  from graph_wf_add_node [OF law Cons.prems(2) this add] have wf: "manager_wf ops (add_token_node ops t gm)" by (simp add: gm')
  have apart: "set ts \<inter> dom (gm_node_map (add_token_node ops t gm)) = {}" using Cons.prems(1,3) by (auto simp: gm')
  have same: "gm_edge_map (add_token_node ops t gm) = gm_edge_map gm" by (simp add: gm')
  have "distinct ts" using Cons.prems(1) by simp
  then show ?case unfolding fold_simps by (rule Cons.IH [OF _ wf apart, unfolded same])
qed

lemma initialize_graph_tracked:
  assumes law: "stable_graph ops" and fin: "finite (dom topology)"
  obtains gm where "initialize_graph ops topology = ret gm" "manager_wf ops gm"
    and "tracked_directions gm = (\<lambda>c. Option.bind (topology c) formed_directions)"
proof -
  let ?gm = "fold (add_token_node ops) (sorted_list_of_set (\<Union>t \<in> ran topology. set (ct_tokens t))) (graph_manager_new ops)"
  have "manager_wf ops (graph_manager_new ops)" using graph_wf_empty [OF law] by (simp add: graph_manager_new_def)
  then have wf: "manager_wf ops ?gm \<and> gm_edge_map ?gm = gm_edge_map (graph_manager_new ops)"
    by (intro initial_nodes_wf [OF law]) (simp_all add: graph_manager_new_def)
  obtain r gm' where run: "add_components ops topology ?gm = ret (r, gm')" "manager_wf ops gm'"
    and dirs: "tracked_directions gm' =
      (\<lambda>c. case Option.bind (topology c) formed_directions of None \<Rightarrow> tracked_directions ?gm c | Some ds \<Rightarrow> Some ds)"
    by (rule add_components_tracked [OF law conjunct1 [OF wf] fin])
  have "tracked_directions ?gm = Map.empty"
    using wf by (simp add: tracked_directions_def graph_manager_new_def)
  then have "tracked_directions gm' = (\<lambda>c. Option.bind (topology c) formed_directions)"
    by (simp add: dirs fun_eq_iff split: option.splits)
  moreover have "initialize_graph ops topology = ret gm'"
    by (simp add: initialize_graph_def run(1))
  ultimately show thesis using that run(2) by blast
qed

subsection \<open>Rebuilding the weights keeps the edges\<close>

lemma set_edge_data_wf:
  assumes "stable_graph ops" "graph_wf ops nodes edges g"
  shows "graph_wf ops nodes edges (set_edge_data ops u g)"
proof (cases "gp_edge ops g (fst u)")
  case None
  then show ?thesis using assms(2) by (simp add: set_edge_data_def)
next
  case (Some x)
  then obtain i j w where x: "gp_edge ops g (fst u) = Some (i, j, w)" by (metis prod_cases3)
  let ?g = "set_edge_data ops u g"
  have g: "gp_node ops ?g = gp_node ops g" "gp_edge ops ?g = (gp_edge ops g)(fst u \<mapsto> (i, j, w\<lparr>ed_data := snd u\<rparr>))"
    using assms(1) x by (simp_all add: set_edge_data_def stable_graph_def)
  have "drawn ops ?g c d e = drawn ops g c d e" for c d e using x unfolding drawn_def g by auto
  moreover have "gp_node ops g i \<noteq> None" "gp_node ops g j \<noteq> None" using assms(2) x unfolding graph_wf_def by blast+
  ultimately show ?thesis using assms(2) unfolding graph_wf_def g by (auto split: if_splits)
qed

lemma update_edge_weights_wf:
  assumes "stable_graph ops" "manager_wf ops gm"
  obtains n gm' where "update_edge_weights_with_derived ops weight view gm = ret (n, gm')" "manager_wf ops gm'"
    "tracked_directions gm' = tracked_directions gm"
proof -
  have "edge_weight_update ops weight view (gm_graph gm) e \<noteq> panic" for e
  proof (cases "gp_edge ops (gm_graph gm) e")
    case (Some x)
    then obtain i j w where x: "gp_edge ops (gm_graph gm) e = Some (i, j, w)" by (metis prod_cases3)
    then obtain a b where "gp_node ops (gm_graph gm) i = Some a" "gp_node ops (gm_graph gm) j = Some b"
      using assms(2) unfolding graph_wf_def by blast
    then show ?thesis using x by (simp add: edge_weight_update_def split: option.split)
  qed (simp add: edge_weight_update_def)
  then obtain found where found: "run_each (edge_weight_update ops weight view (gm_graph gm)) (gp_edge_indices ops (gm_graph gm)) = ret found"
    by (metis not_None_eq run_each_no_panic)
  have "graph_wf ops (gm_node_map gm) (gm_edge_map gm) (fold (set_edge_data ops) us g)"
    if "graph_wf ops (gm_node_map gm) (gm_edge_map gm) g" for us g
    using that by (induction us arbitrary: g) (simp_all add: set_edge_data_wf [OF assms(1)])
  then show thesis using that found assms(2) by (simp add: update_edge_weights_with_derived_def tracked_directions_def Let_def)
qed

end
