(* ===== verification/Pamm.thy ===== *)
theory Pamm
  imports Fallback Graph
begin

text \<open>
  Which pAMM components a worker's graph may hold: \<open>src/fynd-core/src/fallback/manager.rs\<close>. A pAMM
  without a pool to fall back to is withheld; the answer is decided again on every market event. The
  lemmas show that the record agrees with the market after every event, and what the rewritten event
  does to a graph.
\<close>

section \<open>Admission of pAMMs\<close>

datatype pamm_state = Admitted | Withheld

record pamm_manager =
  pk_fallback_pools :: fallback_pool_index
  pk_states :: "component_id \<rightharpoonup> pamm_state"
  pk_worker_pool_name :: string

definition pamm_manager_new :: "string \<Rightarrow> pamm_manager" where
  "pamm_manager_new worker_pool_name =
     \<lparr>pk_fallback_pools = index_default, pk_states = Map.empty, pk_worker_pool_name = worker_pool_name\<rparr>"

text \<open>The decision on one component; None leaves it off the record.\<close>

definition decide_pamm ::
  "'s market_data_view \<Rightarrow> (protocol_component \<Rightarrow> bool) \<Rightarrow> fallback_pool_index \<Rightarrow> component_id \<Rightarrow> pamm_state option" where
  "decide_pamm v caller_drops ix i =
     (case get_component (mv_base v) i of
        None \<Rightarrow> None
      | Some c \<Rightarrow>
          if \<not> is_pamm c \<or> caller_drops c then None
          else Some (if must_withhold_pamm v c ix then Withheld else Admitted))"

definition withhold_from_graph ::
  "(component_id set \<Rightarrow> component_id list) \<Rightarrow> 's fallback_env \<Rightarrow> 's market_data_view \<Rightarrow>
   (component_id \<rightharpoonup> component_topology) \<Rightarrow> (protocol_component \<Rightarrow> bool) \<Rightarrow> pamm_manager \<Rightarrow>
   component_id set \<times> pamm_manager" where
  "withhold_from_graph order env v topology caller_drops mgr =
     (let ix = index_build order env v;
          states = decide_pamm v caller_drops ix |` dom topology in
      ({i. states i = Some Withheld}, mgr\<lparr>pk_fallback_pools := ix, pk_states := states\<rparr>))"

text \<open>One added component: whether the event keeps it, and its state afterwards.\<close>

definition retain_added ::
  "'s market_data_view \<Rightarrow> (protocol_component \<Rightarrow> bool) \<Rightarrow> fallback_pool_index \<Rightarrow> component_id \<Rightarrow> pamm_state option \<Rightarrow>
   bool \<times> pamm_state option" where
  "retain_added v caller_drops ix i prior =
     (case decide_pamm v caller_drops ix i of
        None \<Rightarrow> (True, prior)
      | Some Withheld \<Rightarrow> (False, if prior \<noteq> Some Admitted then Some Withheld else prior)
      | Some Admitted \<Rightarrow> (True, Some Admitted))"

definition readmitted ::
  "'s market_data_view \<Rightarrow> fallback_pool_index \<Rightarrow> (component_id \<rightharpoonup> pamm_state) \<Rightarrow> component_id \<rightharpoonup> component_topology" where
  "readmitted v ix states i =
     (if states i = Some Withheld
      then case get_component (mv_base v) i of
             None \<Rightarrow> None
           | Some c \<Rightarrow> if must_withhold_pamm v c ix then None else topology_of (mv_base v) i
      else None)"

definition evicted :: "'s market_data_view \<Rightarrow> fallback_pool_index \<Rightarrow> (component_id \<rightharpoonup> pamm_state) \<Rightarrow> component_id set" where
  "evicted v ix states =
     {i \<in> dom states. states i = Some Admitted
        \<and> (case get_component (mv_base v) i of None \<Rightarrow> False | Some c \<Rightarrow> must_withhold_pamm v c ix)}"

definition apply_pamm_admission ::
  "(component_id set \<Rightarrow> component_id list) \<Rightarrow> 's fallback_env \<Rightarrow> 's market_data_view \<Rightarrow> (protocol_component \<Rightarrow> bool) \<Rightarrow>
   market_event \<Rightarrow> pamm_manager \<Rightarrow> market_event \<times> pamm_manager" where
  "apply_pamm_admission order env v caller_drops e mgr =
     (let ix = index_apply_event order env v e (pk_fallback_pools mgr);
          mgr' = mgr\<lparr>pk_fallback_pools := ix\<rparr> in
      if me_added_components e = Map.empty \<and> me_removed_components e = [] then (e, mgr')
      else
        let kept = pk_states mgr |` (- set (me_removed_components e));
            retained = (\<lambda>i. if me_added_components e i = None then (True, kept i) else retain_added v caller_drops ix i (kept i));
            states1 = (\<lambda>i. snd (retained i));
            added1 = (\<lambda>i. if fst (retained i) then me_added_components e i else None);
            restored = readmitted v ix states1;
            states2 = states1 ++ (\<lambda>i. map_option (\<lambda>_. Admitted) (restored i));
            gone = evicted v ix states2;
            states3 = (\<lambda>i. if i \<in> gone then Some Withheld else states2 i) in
        (e\<lparr>me_added_components := added1 ++ restored, me_removed_components := me_removed_components e @ order gone\<rparr>,
         mgr'\<lparr>pk_states := states3\<rparr>))"

subsection \<open>The record agrees with the market\<close>

definition standing_of ::
  "'s fallback_env \<Rightarrow> (protocol_component \<Rightarrow> bool) \<Rightarrow> 's market_state \<Rightarrow> component_id \<Rightarrow> pamm_state option" where
  "standing_of env drops m i =
     (case get_component m i of
        None \<Rightarrow> None
      | Some c \<Rightarrow> if \<not> is_pamm c \<or> drops c then None else Some (if unbacked env m c then Withheld else Admitted))"

definition admission_of ::
  "'s fallback_env \<Rightarrow> (protocol_component \<Rightarrow> bool) \<Rightarrow> 's market_state \<Rightarrow> pamm_manager \<Rightarrow> bool" where
  "admission_of env drops m mgr =
     (index_of env m (pk_fallback_pools mgr) \<and> pk_states mgr = standing_of env drops m)"

definition respects_kind :: "(protocol_component \<Rightarrow> bool) \<Rightarrow> bool" where
  "respects_kind drops = (\<forall>c c'. same_kind c c' \<longrightarrow> drops c = drops c')"

lemma decide_standing:
  assumes "index_of env (mv_base v) ix"
  shows "decide_pamm v drops ix i = standing_of env drops (mv_base v) i"
  by (cases "get_component (mv_base v) i") (simp_all add: decide_pamm_def standing_of_def must_withhold_iff [OF assms])

lemma withhold_from_graph_of:
  assumes "key_order order" "finite (dom (mk_components (mv_base v)))"
    and "withhold_from_graph order env v (component_topology_of_market (mv_base v)) drops mgr = (withheld, mgr')"
  shows "admission_of env drops (mv_base v) mgr'" "withheld = {i. standing_of env drops (mv_base v) i = Some Withheld}"
proof -
  have ix: "index_of env (mv_base v) (index_build order env v)" by (rule index_build_of [OF assms(1,2)])
  have states: "decide_pamm v drops (index_build order env v) |` dom (component_topology_of_market (mv_base v))
      = standing_of env drops (mv_base v)"
    by (auto simp: fun_eq_iff restrict_map_def decide_standing [OF ix] component_topology_of_market_def standing_of_def
        get_component_def split: option.splits)
  show "admission_of env drops (mv_base v) mgr'" "withheld = {i. standing_of env drops (mv_base v) i = Some Withheld}"
    using assms(3) ix unfolding withhold_from_graph_def Let_def states by (auto simp: admission_of_def)
qed

definition ids_match :: "'s market_state \<Rightarrow> bool" where
  "ids_match m = (\<forall>i c. get_component m i = Some c \<longrightarrow> pc_id c = i)"

definition quiet_step :: "'s market_state \<Rightarrow> market_event \<Rightarrow> 's market_state \<Rightarrow> bool" where
  "quiet_step m e m' = (event_reports m e m' \<and> keeps_kinds m m' \<and> ids_match m' \<and> finite (dom (mk_components m')))"

lemma backs_kept:
  assumes "keeps_kinds m m'" "get_component m i = None \<longleftrightarrow> get_component m' i = None"
  shows "backs env m a b i = backs env m' a b i"
proof (cases "get_component m i")
  case None
  then show ?thesis using assms(2) by (simp add: backs_def)
next
  case (Some c)
  then obtain c' where "get_component m' i = Some c'" "same_kind c c'" using assms by (fastforce simp: keeps_kinds_def)
  then show ?thesis using Some same_kind_candidate(1) [of c c' env] same_kind_candidate(2) [of c c'] by (simp add: backs_def)
qed

lemma standing_of_None_kept:
  assumes "keeps_kinds m m'" "respects_kind drops" "get_component m i = None \<longleftrightarrow> get_component m' i = None"
  shows "standing_of env drops m i = None \<longleftrightarrow> standing_of env drops m' i = None"
proof (cases "get_component m i")
  case None
  then show ?thesis using assms(3) by (simp add: standing_of_def)
next
  case (Some c)
  then obtain c' where c': "get_component m' i = Some c'" "same_kind c c'" using assms(1,3) by (fastforce simp: keeps_kinds_def)
  then have "drops c = drops c'" using assms(2) by (simp add: respects_kind_def)
  then show ?thesis using Some c' same_kind_candidate(3) [OF c'(2)] by (simp add: standing_of_def)
qed

lemma unbacked_kept:
  assumes "keeps_kinds m m'" "swap_directions_of m' = swap_directions_of m" "same_kind c c'"
  shows "unbacked env m c = unbacked env m' c'"
proof -
  have "backs env m a b i = backs env m' a b i" for a b i
    by (rule backs_kept [OF assms(1)]) (simp add: get_component_None_iff assms(2))
  then show ?thesis
    using assms(2,3) same_kind_candidate(3) [OF assms(3)] by (simp add: unbacked_def same_kind_def)
qed

lemma standing_of_kept:
  assumes "keeps_kinds m m'" "respects_kind drops" "swap_directions_of m' = swap_directions_of m"
  shows "standing_of env drops m' i = standing_of env drops m i"
proof (cases "get_component m i")
  case None
  then have "get_component m' i = None" using assms(3) by (simp add: get_component_None_iff)
  then show ?thesis using None by (simp add: standing_of_def)
next
  case (Some c)
  moreover have "get_component m' i \<noteq> None" using Some assms(3) by (metis get_component_None_iff option.distinct(1))
  ultimately obtain c' where c': "get_component m' i = Some c'" "same_kind c c'" using assms(1) by (auto simp: keeps_kinds_def)
  then have "drops c = drops c'" using assms(2) by (simp add: respects_kind_def)
  then show ?thesis
    using Some c' same_kind_candidate(3) [OF c'(2)] unbacked_kept [OF assms(1,3) c'(2)] by (simp add: standing_of_def)
qed

text \<open>What the rewritten event carries.\<close>

definition admitted_event ::
  "'s fallback_env \<Rightarrow> (protocol_component \<Rightarrow> bool) \<Rightarrow> 's market_state \<Rightarrow> 's market_state \<Rightarrow> market_event \<Rightarrow> market_event \<Rightarrow> bool" where
  "admitted_event env drops m m' e e' =
     ((\<forall>i. me_added_components e' i =
         (if standing_of env drops m' i = Some Withheld then None
          else if me_added_components e i \<noteq> None then me_added_components e i
          else if standing_of env drops m i = Some Withheld \<and> standing_of env drops m' i = Some Admitted then topology_of m' i
          else None))
      \<and> set (me_removed_components e') = set (me_removed_components e) \<union>
          {i. standing_of env drops m i = Some Admitted \<and> standing_of env drops m' i = Some Withheld})"

lemma standing_of_presence:
  assumes "quiet_step m e m'" "respects_kind drops"
  shows "i \<in> set (me_removed_components e) \<Longrightarrow> standing_of env drops m' i = None \<and> me_added_components e i = None"
    and "i \<notin> set (me_removed_components e) \<Longrightarrow> me_added_components e i = None \<Longrightarrow>
      standing_of env drops m i = None \<longleftrightarrow> standing_of env drops m' i = None"
    and "me_added_components e i \<noteq> None \<Longrightarrow> standing_of env drops m' i = None \<Longrightarrow> standing_of env drops m i = None"
proof -
  have ev: "event_reports m e m'" and kinds: "keeps_kinds m m'" using assms(1) by (simp_all add: quiet_step_def)
  show "standing_of env drops m' i = None \<and> me_added_components e i = None" if "i \<in> set (me_removed_components e)"
  proof -
    have gone: "get_component m' i = None" using ev that by (simp add: event_reports_def)
    moreover have "me_added_components e i = None"
      using gone reported_component [OF ev, of i] by (cases "me_added_components e i") (simp_all add: get_component_topology)
    ultimately show ?thesis by (simp add: standing_of_def)
  qed
  show "standing_of env drops m i = None \<longleftrightarrow> standing_of env drops m' i = None"
    if "i \<notin> set (me_removed_components e)" "me_added_components e i = None"
    using unreported_component [OF ev that(2,1)]
    by (intro standing_of_None_kept [OF kinds assms(2)]) (simp add: get_component_None_iff)
  show "standing_of env drops m i = None" if "me_added_components e i \<noteq> None" "standing_of env drops m' i = None"
  proof (cases "get_component m i")
    case None
    then show ?thesis by (simp add: standing_of_def)
  next
    case (Some c)
    moreover have "get_component m' i \<noteq> None" using that(1) reported_component [OF ev] by (auto simp: get_component_topology)
    ultimately show ?thesis using standing_of_None_kept [OF kinds assms(2), of i env] that(2) by auto
  qed
qed

lemma not_admitted: "st \<noteq> Admitted \<longleftrightarrow> st = Withheld" "st \<noteq> Withheld \<longleftrightarrow> st = Admitted"
  by (cases st; simp)+

lemma standing_withheld:
  assumes "index_of env (mv_base v) ix" "standing_of env drops (mv_base v) i = Some st" "get_component (mv_base v) i = Some c"
  shows "must_withhold_pamm v c ix \<longleftrightarrow> st = Withheld"
  using assms(2,3) by (auto simp: standing_of_def must_withhold_iff [OF assms(1)] split: if_splits)

lemma standing_component: "standing_of env drops m i = Some st \<Longrightarrow> \<exists>c. get_component m i = Some c"
  by (auto simp: standing_of_def split: option.splits)

lemma pamm_admission_step:
  assumes ord: "key_order order" and adm: "admission_of env drops m mgr" and step: "quiet_step m e (mv_base v)"
    and kind: "respects_kind drops" and run: "apply_pamm_admission order env v drops e mgr = (e', mgr')"
  shows "admission_of env drops (mv_base v) mgr' \<and> admitted_event env drops m (mv_base v) e e'"
proof -
  let ?m' = "mv_base v"
  let ?S = "standing_of env drops m" and ?S' = "standing_of env drops ?m'"
  let ?ix = "index_apply_event order env v e (pk_fallback_pools mgr)"
  have ev: "event_reports m e ?m'" and kinds: "keeps_kinds m ?m'" using step by (simp_all add: quiet_step_def)
  have ix: "index_of env ?m' ?ix"
    by (rule index_apply_event_of [OF ord _ ev kinds]) (use adm in \<open>simp add: admission_of_def\<close>)
  have S: "pk_states mgr = ?S" using adm by (simp add: admission_of_def)
  show ?thesis
  proof (cases "me_added_components e = Map.empty \<and> me_removed_components e = []")
    case True
    then have dirs: "swap_directions_of ?m' = swap_directions_of m"
      using ev by (auto simp: event_reports_def apply_directions_def)
    have same: "?S' = ?S" using standing_of_kept [OF kinds kind dirs] by (simp add: fun_eq_iff)
    have "e' = e" "mgr' = mgr\<lparr>pk_fallback_pools := ?ix\<rparr>" using run True by (auto simp: apply_pamm_admission_def Let_def)
    then show ?thesis using ix S same True by (auto simp: admission_of_def admitted_event_def)
  next
    case False
    define kept where "kept = pk_states mgr |` (- set (me_removed_components e))"
    define retained where "retained = (\<lambda>i. if me_added_components e i = None then (True, kept i)
        else retain_added v drops ?ix i (kept i))"
    define states1 where "states1 = (\<lambda>i. snd (retained i))"
    define restored where "restored = readmitted v ?ix states1"
    define states2 where "states2 = states1 ++ (\<lambda>i. map_option (\<lambda>_. Admitted) (restored i))"
    define gone where "gone = evicted v ?ix states2"
    have res: "e' = e\<lparr>me_added_components := (\<lambda>i. if fst (retained i) then me_added_components e i else None) ++ restored,
        me_removed_components := me_removed_components e @ order gone\<rparr>"
      "mgr' = mgr\<lparr>pk_fallback_pools := ?ix, pk_states := (\<lambda>i. if i \<in> gone then Some Withheld else states2 i)\<rparr>"
      using run [symmetric] False
      unfolding apply_pamm_admission_def Let_def gone_def states2_def restored_def states1_def retained_def kept_def
      by (simp_all only: if_False prod.inject)
    have point: "(if i \<in> gone then Some Withheld else states2 i) = ?S' i \<and> (i \<in> gone \<longleftrightarrow> ?S i = Some Admitted \<and> ?S' i = Some Withheld)
      \<and> ((\<lambda>i. if fst (retained i) then me_added_components e i else None) ++ restored) i =
         (if ?S' i = Some Withheld then None else if me_added_components e i \<noteq> None then me_added_components e i
          else if ?S i = Some Withheld \<and> ?S' i = Some Admitted then topology_of ?m' i else None)" for i
    proof -
      note pres = standing_of_presence [OF step kind, of i env]
      have dec: "decide_pamm v drops ?ix i = ?S' i" by (rule decide_standing [OF ix])
      have k: "kept i = (if i \<in> set (me_removed_components e) then None else ?S i)" by (simp add: kept_def S)
      have st1: "states1 i = (case ?S' i of None \<Rightarrow> None
          | Some Withheld \<Rightarrow> Some (if ?S i = Some Admitted then Admitted else Withheld)
          | Some Admitted \<Rightarrow> if me_added_components e i = None then ?S i else Some Admitted)"
        using pres by (cases "?S i"; cases "?S' i") (auto simp: states1_def retained_def retain_added_def dec k not_admitted split: pamm_state.splits)
      have top: "topology_of ?m' i \<noteq> None" if "?S' i \<noteq> None"
        using that by (metis get_component_topology not_None_eq standing_component)
      have bk: "restored i = (if ?S' i = Some Admitted \<and> states1 i = Some Withheld then topology_of ?m' i else None)"
        using standing_withheld [OF ix, of drops i] standing_component [of env drops ?m' i]
        by (cases "?S' i") (auto simp: restored_def readmitted_def st1 split: option.splits pamm_state.splits)
      have st2: "states2 i = (if ?S' i = Some Admitted then Some Admitted else states1 i)"
        using top pres by (cases "?S' i"; cases "?S i") (auto simp: not_admitted states2_def bk map_add_def st1 split: option.splits pamm_state.splits)
      have gn: "i \<in> gone \<longleftrightarrow> ?S' i = Some Withheld \<and> states1 i = Some Admitted"
        using standing_withheld [OF ix, of drops i] standing_component [of env drops ?m' i]
        by (cases "?S' i") (auto simp: gone_def evicted_def st2 st1 split: option.splits pamm_state.splits)
      show ?thesis
        using pres by (cases "?S' i"; cases "?S i") (auto simp: not_admitted gn st2 bk st1 map_add_def retained_def retain_added_def dec k split: option.splits pamm_state.splits)
    qed
    have "gone \<subseteq> dom (mk_components ?m')"
      using point standing_component [of env drops ?m'] by (fastforce simp: get_component_def)
    then have "finite gone" using step by (auto simp: quiet_step_def intro: finite_subset)
    then have "set (order gone) = gone" using ord by (simp add: key_order_def)
    moreover have "(\<lambda>i. if i \<in> gone then Some Withheld else states2 i) = ?S'" using point by (intro ext) blast
    moreover have "gone = {i. ?S i = Some Admitted \<and> ?S' i = Some Withheld}" using point by blast
    ultimately show ?thesis using ix point by (simp add: res admission_of_def admitted_event_def)
  qed
qed

subsection \<open>What a graph fed with the event holds\<close>

definition routable ::
  "'s fallback_env \<Rightarrow> (protocol_component \<Rightarrow> bool) \<Rightarrow> 's market_state \<Rightarrow> component_id \<rightharpoonup> swap_direction set" where
  "routable env drops m i =
     (case get_component m i of
        None \<Rightarrow> None
      | Some c \<Rightarrow> if drops c \<or> unbacked env m c then None else Option.bind (topology_of m i) formed_directions)"

lemma routable_standing:
  "get_component m i = Some c \<Longrightarrow> \<not> drops c \<Longrightarrow> standing_of env drops m i = Some Withheld \<longleftrightarrow> unbacked env m c"
  "get_component m i = Some c \<Longrightarrow> drops c \<Longrightarrow> standing_of env drops m i = None"
  "get_component m i = None \<Longrightarrow> standing_of env drops m i = None"
  by (auto simp: standing_of_def unbacked_def)

definition held_after :: "market_event \<Rightarrow> (component_id \<rightharpoonup> swap_direction set) \<Rightarrow> component_id \<rightharpoonup> swap_direction set" where
  "held_after e tracked i =
     (if i \<in> set (me_removed_components e) then None
      else case Option.bind (me_added_components e i) formed_directions of None \<Rightarrow> tracked i | Some ds \<Rightarrow> Some ds)"

lemma formed_kept:
  assumes "get_component m i = Some c" "get_component m' i = Some c'" "same_kind c c'"
  shows "Option.bind (topology_of m' i) formed_directions = None \<longleftrightarrow> Option.bind (topology_of m i) formed_directions = None"
    and "swap_directions_of m' i = swap_directions_of m i \<Longrightarrow>
      Option.bind (topology_of m' i) formed_directions = Option.bind (topology_of m i) formed_directions"
  using assms by (auto simp: get_component_def topology_of_def swap_directions_of_def stored_topology_def formed_directions_def same_kind_def
      split: if_splits)

lemma filter_event_fields:
  "i \<in> set (me_removed_components (filter_event m e drops)) \<longleftrightarrow>
     i \<in> set (me_removed_components e) \<and> (\<forall>c. get_component m i = Some c \<longrightarrow> \<not> drops c)"
  "me_added_components (filter_event m e drops) i =
     (case get_component m i of Some c \<Rightarrow> if drops c then None else me_added_components e i | None \<Rightarrow> me_added_components e i)"
  by (auto simp: filter_event_def filter_component_ids_def filter_topology_def split: option.splits)

lemma routable_step_new:
  assumes "event_reports m e m'" "admitted_event env drops m m' e e'"
    and "get_component m i = None" "get_component m' i = Some c'"
  shows "held_after (filter_event m' e' drops) (routable env drops m) i = routable env drops m' i"
proof -
  have not_rem: "i \<notin> set (me_removed_components e)" using assms(1,4) by (auto simp: event_reports_def)
  have "me_added_components e i \<noteq> None"
    using unreported_component [OF assms(1) _ not_rem] assms(3,4) by (metis get_component_None_iff option.distinct(1))
  then obtain t where t: "me_added_components e i = Some t" "topology_of m' i = Some t"
    using reported_component [OF assms(1)] by blast
  have "standing_of env drops m i = None" "routable env drops m i = None" using assms(3) by (simp_all add: standing_of_def routable_def)
  then have "held_after (filter_event m' e' drops) (routable env drops m) i =
      (if drops c' \<or> standing_of env drops m' i = Some Withheld then None else formed_directions t)"
    using assms(2,4) not_rem t by (auto simp: held_after_def filter_event_fields admitted_event_def split: option.splits)
  then show ?thesis using assms(4) t routable_standing(1) [OF assms(4), of drops env] by (auto simp: routable_def)
qed

lemma routable_step_known:
  assumes step: "quiet_step m e m'" and kind: "respects_kind drops" and adm: "admitted_event env drops m m' e e'"
    and c: "get_component m i = Some c" and c': "get_component m' i = Some c'"
  shows "held_after (filter_event m' e' drops) (routable env drops m) i = routable env drops m' i"
proof -
  let ?S = "standing_of env drops m" and ?S' = "standing_of env drops m'"
  have ev: "event_reports m e m'" and same: "same_kind c c'" and drops: "drops c = drops c'"
    using step kind c c' by (auto simp: quiet_step_def keeps_kinds_def respects_kind_def)
  have not_rem: "i \<notin> set (me_removed_components e)" using ev c' by (auto simp: event_reports_def)
  note formed = formed_kept [OF c c' same] and pamm = same_kind_candidate(3) [OF same]
  have standing: "?S i = (if \<not> is_pamm c' \<or> drops c' then None else Some (if unbacked env m c then Withheld else Admitted))"
    "?S' i = (if \<not> is_pamm c' \<or> drops c' then None else Some (if unbacked env m' c' then Withheld else Admitted))"
    using c c' drops pamm by (simp_all add: standing_of_def)
  have is_pamm: "unbacked env m c \<Longrightarrow> is_pamm c'" "unbacked env m' c' \<Longrightarrow> is_pamm c'" using pamm by (simp_all add: unbacked_def)
  have target: "routable env drops m' i = (if drops c' \<or> unbacked env m' c' then None else Option.bind (topology_of m' i) formed_directions)"
    "routable env drops m i = (if drops c' \<or> unbacked env m c then None else Option.bind (topology_of m i) formed_directions)"
    using c c' drops by (simp_all add: routable_def)
  have after: "held_after (filter_event m' e' drops) (routable env drops m) i =
      (if drops c' then routable env drops m i else if ?S i = Some Admitted \<and> ?S' i = Some Withheld then None
       else case Option.bind (if ?S' i = Some Withheld then None else if me_added_components e i \<noteq> None then me_added_components e i
              else if ?S i = Some Withheld \<and> ?S' i = Some Admitted then topology_of m' i else None) formed_directions of
              None \<Rightarrow> routable env drops m i | Some ds \<Rightarrow> Some ds)"
    using c' not_rem adm by (simp add: held_after_def filter_event_fields admitted_event_def)
  show ?thesis
  proof (cases "me_added_components e i")
    case None
    have "Option.bind (topology_of m' i) formed_directions = Option.bind (topology_of m i) formed_directions"
      using formed(2) unreported_component [OF ev None not_rem] by blast
    then show ?thesis using None is_pamm unfolding after target standing
      by (cases "Option.bind (topology_of m i) formed_directions") auto
  next
    case (Some t)
    then show ?thesis using reported_component [OF ev Some] formed(1) is_pamm unfolding after target standing
      by (cases "formed_directions t") auto
  qed
qed

lemma routable_step:
  assumes step: "quiet_step m e m'" and kind: "respects_kind drops" and adm: "admitted_event env drops m m' e e'"
  shows "held_after (filter_event m' e' drops) (routable env drops m) i = routable env drops m' i"
proof (cases "get_component m' i")
  case None
  have ev: "event_reports m e m'" using step by (simp add: quiet_step_def)
  have "me_added_components e i = None" using None reported_component [OF ev, of i]
    by (cases "me_added_components e i") (simp_all add: get_component_topology)
  moreover have "get_component m i = None" if "i \<notin> set (me_removed_components e)"
    using unreported_component [OF ev calculation that] None by (simp add: get_component_None_iff)
  ultimately show ?thesis
    using None adm by (auto simp: held_after_def filter_event_fields routable_def admitted_event_def standing_of_def)
next
  case (Some c')
  then show ?thesis
    using assms routable_step_new [of m e m' env drops e' i c'] routable_step_known [OF step kind adm _ Some]
    by (cases "get_component m i") (auto simp: quiet_step_def)
qed

end
