(* ===== verification/Readiness.thy ===== *)
theory Readiness
  imports Prelude
begin

text \<open>
  When a worker may solve, as far as derived data goes: the requirements of an algorithm
  (\<open>src/fynd-core/src/derived/computation.rs\<close>), the events of the computation manager
  (\<open>derived/events.rs\<close>), the tracker each worker keeps (\<open>derived/tracker.rs\<close>) and the round that
  decides when the edge weights are rebuilt (\<open>WeightInputsRound\<close> of \<open>worker_pool/worker.rs\<close>).
  The lemmas read the state of both off the events they have seen.
\<close>

section \<open>Readiness of derived data\<close>

type_synonym computation_id = string

subsection \<open>Requirements\<close>

record computation_requirements =
  cr_require_fresh :: "computation_id set"
  cr_allow_stale :: "computation_id set"

datatype requirement_conflict = RequirementConflict computation_id

definition requirements_none :: computation_requirements where
  "requirements_none = \<lparr>cr_require_fresh = {}, cr_allow_stale = {}\<rparr>"

definition requirements_fresh :: "computation_id list \<Rightarrow> computation_requirements" where
  "requirements_fresh ids = \<lparr>cr_require_fresh = set ids, cr_allow_stale = {}\<rparr>"

definition requirements_stale :: "computation_id list \<Rightarrow> computation_requirements" where
  "requirements_stale ids = \<lparr>cr_require_fresh = {}, cr_allow_stale = set ids\<rparr>"

definition require_fresh :: "computation_id \<Rightarrow> computation_requirements \<Rightarrow> requirement_conflict + computation_requirements" where
  "require_fresh i r =
     (if i \<in> cr_allow_stale r then Inl (RequirementConflict i)
      else Inr (r\<lparr>cr_require_fresh := insert i (cr_require_fresh r)\<rparr>))"

definition allow_stale :: "computation_id \<Rightarrow> computation_requirements \<Rightarrow> requirement_conflict + computation_requirements" where
  "allow_stale i r =
     (if i \<in> cr_require_fresh r then Inl (RequirementConflict i)
      else Inr (r\<lparr>cr_allow_stale := insert i (cr_allow_stale r)\<rparr>))"

definition has_requirements :: "computation_requirements \<Rightarrow> bool" where
  "has_requirements r = (cr_require_fresh r \<noteq> {} \<or> cr_allow_stale r \<noteq> {})"

definition is_required :: "computation_id \<Rightarrow> computation_requirements \<Rightarrow> bool" where
  "is_required i r = (i \<in> cr_require_fresh r \<or> i \<in> cr_allow_stale r)"

subsection \<open>Events\<close>

text \<open>\<open>'f\<close> is the list of failed items a completion carries, which no reader here looks at.\<close>

datatype 'f derived_data_event =
    NewBlock nat
  | ComputationComplete computation_id nat 'f
  | ComputationFailed computation_id nat

subsection \<open>The tracker of a worker\<close>

record readiness_tracker =
  rk_current_block :: "nat option"
  rk_ready_for_block :: "computation_id set"
  rk_ever_computed :: "computation_id set"
  rk_failed_for_block :: "computation_id set"
  rk_requirements :: computation_requirements

definition tracker_new :: "computation_requirements \<Rightarrow> readiness_tracker" where
  "tracker_new r =
     \<lparr>rk_current_block = None, rk_ready_for_block = {}, rk_ever_computed = {}, rk_failed_for_block = {},
      rk_requirements = r\<rparr>"

definition newer :: "nat \<Rightarrow> nat option \<Rightarrow> bool" where
  "newer block current = (case current of None \<Rightarrow> True | Some b \<Rightarrow> b < block)"

definition on_new_block :: "nat \<Rightarrow> readiness_tracker \<Rightarrow> readiness_tracker" where
  "on_new_block block t =
     (if newer block (rk_current_block t)
      then t\<lparr>rk_current_block := Some block, rk_ready_for_block := {}, rk_failed_for_block := {}\<rparr>
      else t)"

definition on_computation_failed :: "computation_id \<Rightarrow> nat \<Rightarrow> readiness_tracker \<Rightarrow> readiness_tracker" where
  "on_computation_failed i block t =
     (if i \<in> cr_require_fresh (rk_requirements t) \<and> rk_current_block t = Some block
      then t\<lparr>rk_failed_for_block := insert i (rk_failed_for_block t)\<rparr>
      else t)"

definition on_computation_complete :: "computation_id \<Rightarrow> nat \<Rightarrow> readiness_tracker \<Rightarrow> readiness_tracker" where
  "on_computation_complete i block t =
     (let t1 = t\<lparr>rk_ever_computed := insert i (rk_ever_computed t)\<rparr> in
      if (case rk_current_block t1 of None \<Rightarrow> False | Some b \<Rightarrow> block < b) then t1
      else let t2 = (if newer block (rk_current_block t1) then on_new_block block t1 else t1) in
           t2\<lparr>rk_ready_for_block := insert i (rk_ready_for_block t2)\<rparr>)"

fun tracker_handle_event :: "'f derived_data_event \<Rightarrow> readiness_tracker \<Rightarrow> readiness_tracker" where
  "tracker_handle_event (NewBlock block) t = on_new_block block t"
| "tracker_handle_event (ComputationComplete i block _) t = on_computation_complete i block t"
| "tracker_handle_event (ComputationFailed i block) t = on_computation_failed i block t"

definition is_blocked_for_current_block :: "readiness_tracker \<Rightarrow> bool" where
  "is_blocked_for_current_block t = (\<exists>i \<in> cr_require_fresh (rk_requirements t). i \<in> rk_failed_for_block t)"

definition is_ready :: "readiness_tracker \<Rightarrow> bool" where
  "is_ready t =
     ((\<forall>i \<in> cr_require_fresh (rk_requirements t). i \<in> rk_ready_for_block t)
      \<and> (\<forall>i \<in> cr_allow_stale (rk_requirements t). i \<in> rk_ever_computed t))"

definition missing :: "readiness_tracker \<Rightarrow> computation_id set" where
  "missing t =
     (cr_require_fresh (rk_requirements t) - rk_ready_for_block t)
     \<union> (cr_allow_stale (rk_requirements t) - rk_ever_computed t)"

subsection \<open>When the edge weights are rebuilt\<close>

record weight_inputs_round =
  wr_inputs :: "computation_id list"
  wr_fresh_inputs :: "computation_id list"
  wr_block :: "nat option"
  wr_reported :: "computation_id list"

definition weight_round_new :: "computation_id list \<Rightarrow> computation_requirements \<Rightarrow> weight_inputs_round" where
  "weight_round_new inputs r =
     \<lparr>wr_inputs = inputs, wr_fresh_inputs = filter (\<lambda>i. i \<in> cr_require_fresh r) inputs, wr_block = None, wr_reported = []\<rparr>"

text \<open>The report of one input; \<open>completed\<close> tells a completion from a failure.\<close>

definition record_report :: "computation_id \<Rightarrow> nat \<Rightarrow> bool \<Rightarrow> weight_inputs_round \<Rightarrow> bool \<times> weight_inputs_round" where
  "record_report i block completed w =
     (if wr_block w \<noteq> Some block \<or> i \<notin> set (wr_inputs w) \<or> i \<in> set (wr_reported w) then (False, w)
      else let w' = w\<lparr>wr_reported := wr_reported w @ [i]\<rparr> in
           (completed \<and> i \<in> set (wr_fresh_inputs w) \<or> length (wr_reported w') = length (wr_inputs w'), w'))"

fun round_record :: "'f derived_data_event \<Rightarrow> weight_inputs_round \<Rightarrow> bool \<times> weight_inputs_round" where
  "round_record (NewBlock block) w = (False, w\<lparr>wr_block := Some block, wr_reported := []\<rparr>)"
| "round_record (ComputationComplete i block _) w = record_report i block True w"
| "round_record (ComputationFailed i block) w = record_report i block False w"

subsection \<open>What the tracker knows\<close>

fun completes :: "computation_id \<Rightarrow> nat \<Rightarrow> 'f derived_data_event \<Rightarrow> bool" where
  "completes i b (ComputationComplete j block _) = (i = j \<and> b = block)"
| "completes i b _ = False"

fun announces :: "nat \<Rightarrow> 'f derived_data_event \<Rightarrow> bool" where
  "announces b (NewBlock block) = (b = block)"
| "announces b (ComputationComplete _ block _) = (b = block)"
| "announces b (ComputationFailed _ _) = False"

text \<open>The latest block that a new block or a completion named.\<close>

definition is_latest :: "'f derived_data_event list \<Rightarrow> nat option \<Rightarrow> bool" where
  "is_latest events current =
     (case current of
        None \<Rightarrow> \<forall>e \<in> set events. \<forall>b. \<not> announces b e
      | Some c \<Rightarrow> (\<exists>e \<in> set events. announces c e) \<and> (\<forall>e \<in> set events. \<forall>b. announces b e \<longrightarrow> b \<le> c))"

definition knows :: "'f derived_data_event list \<Rightarrow> readiness_tracker \<Rightarrow> bool" where
  "knows events t =
     (is_latest events (rk_current_block t)
      \<and> (\<forall>i. i \<in> rk_ready_for_block t \<longleftrightarrow> (\<exists>b. rk_current_block t = Some b \<and> (\<exists>e \<in> set events. completes i b e)))
      \<and> (\<forall>i. i \<in> rk_ever_computed t \<longleftrightarrow> (\<exists>b. \<exists>e \<in> set events. completes i b e))
      \<and> (\<forall>i \<in> rk_failed_for_block t. \<exists>b. rk_current_block t = Some b \<and> ComputationFailed i b \<in> set events))"

lemma knows_new: "knows [] (tracker_new r)"
  by (simp add: knows_def is_latest_def tracker_new_def)

lemma completes_announces: "completes i b e \<Longrightarrow> announces b e"
  by (cases e) auto

lemma not_announced:
  assumes "is_latest events current" "newer b current" "e \<in> set events"
  shows "\<not> announces b e"
  using assms by (cases current) (auto simp: is_latest_def newer_def dest: leD)

lemma is_latest_snoc:
  assumes "is_latest events current"
  shows "newer b current \<Longrightarrow> announces b e \<Longrightarrow> is_latest (events @ [e]) (Some b)"
    and "\<not> newer b current \<Longrightarrow> announces b e \<Longrightarrow> is_latest (events @ [e]) current"
    and "\<forall>b. \<not> announces b e \<Longrightarrow> is_latest (events @ [e]) current"
proof -
  have one: "announces x e \<longleftrightarrow> x = b" if "announces b e" for x using that by (cases e) auto
  show "is_latest (events @ [e]) (Some b)" if "newer b current" "announces b e"
    using assms that one by (cases current) (fastforce simp: is_latest_def newer_def)+
  show "is_latest (events @ [e]) current" if "\<not> newer b current" "announces b e"
    using assms that one by (cases current) (auto simp: is_latest_def newer_def)
  show "is_latest (events @ [e]) current" if "\<forall>b. \<not> announces b e"
    using assms that by (cases current) (auto simp: is_latest_def)
qed

lemma knows_new_block:
  assumes "knows events t" shows "knows (events @ [NewBlock b]) (on_new_block b t)"
proof (cases "newer b (rk_current_block t)")
  case True
  have latest: "is_latest events (rk_current_block t)" using assms by (simp add: knows_def)
  have "\<not> completes i b e" if "e \<in> set events" for e i
    using not_announced [OF latest True that] completes_announces by blast
  then show ?thesis using assms True is_latest_snoc(1) [OF latest True, of "NewBlock b"]
    by (auto simp: knows_def on_new_block_def)
next
  case False
  then show ?thesis using assms is_latest_snoc(2) [of events "rk_current_block t" b "NewBlock b"]
    by (auto simp: knows_def on_new_block_def)
qed

lemma knows_complete:
  assumes "knows events t" shows "knows (events @ [ComputationComplete i b f]) (on_computation_complete i b t)"
proof (cases "newer b (rk_current_block t)")
  case True
  have latest: "is_latest events (rk_current_block t)" using assms by (simp add: knows_def)
  have "\<not> completes j b e" if "e \<in> set events" for e j
    using not_announced [OF latest True that] completes_announces by blast
  moreover have "\<not> (case rk_current_block t of None \<Rightarrow> False | Some c \<Rightarrow> b < c)"
    using True by (auto simp: newer_def split: option.splits)
  then have t: "on_computation_complete i b t = t\<lparr>rk_ever_computed := insert i (rk_ever_computed t), rk_current_block := Some b,
      rk_failed_for_block := {}, rk_ready_for_block := {i}\<rparr>"
    using True by (simp add: on_computation_complete_def on_new_block_def Let_def)
  ultimately show ?thesis using assms is_latest_snoc(1) [OF latest True, of "ComputationComplete i b f"]
    unfolding t by (auto simp: knows_def)
next
  case False
  then obtain c where c: "rk_current_block t = Some c" "b \<le> c" by (auto simp: newer_def split: option.splits)
  have "is_latest (events @ [ComputationComplete i b f]) (Some c)"
    using assms False is_latest_snoc(2) [of events "rk_current_block t" b "ComputationComplete i b f"] by (simp add: knows_def c)
  moreover have "on_computation_complete i b t = t\<lparr>rk_ever_computed := insert i (rk_ever_computed t),
      rk_ready_for_block := (if b < c then {} else {i}) \<union> rk_ready_for_block t\<rparr>"
    using c by (simp add: on_computation_complete_def Let_def newer_def)
  ultimately show ?thesis using assms c by (auto simp: knows_def)
qed

lemma knows_failed:
  assumes "knows events t" shows "knows (events @ [ComputationFailed i b]) (on_computation_failed i b t)"
  using assms is_latest_snoc(3) [of events "rk_current_block t" "ComputationFailed i b"]
  by (auto simp: knows_def on_computation_failed_def)

lemma requirements_kept [simp]: "rk_requirements (tracker_handle_event e t) = rk_requirements t"
  by (cases e) (simp_all add: on_new_block_def on_computation_complete_def on_computation_failed_def Let_def)

lemma knows_event: "knows events t \<Longrightarrow> knows (events @ [e]) (tracker_handle_event e t)"
  by (cases e) (simp_all add: knows_new_block knows_complete knows_failed)

lemma knows_events:
  "knows events (fold tracker_handle_event events (tracker_new r))
   \<and> rk_requirements (fold tracker_handle_event events (tracker_new r)) = r"
proof (induction events rule: rev_induct)
  case Nil
  show ?case by (simp add: knows_new) (simp add: tracker_new_def)
next
  case (snoc e events)
  then show ?case by (simp add: knows_event)
qed

lemma is_latest_unique:
  assumes "is_latest events current" shows "is_latest events (Some b) \<longleftrightarrow> current = Some b"
proof (cases current)
  case None
  then show ?thesis using assms by (auto simp: is_latest_def)
next
  case (Some c)
  have "b \<le> c" if "is_latest events (Some b)" using that assms unfolding is_latest_def Some option.case by blast
  moreover have "c \<le> b" if "is_latest events (Some b)" using that assms unfolding is_latest_def Some option.case by blast
  ultimately show ?thesis using assms Some by (metis le_antisym option.inject)
qed

lemma tracker_ready_iff:
  "is_ready (fold tracker_handle_event events (tracker_new r)) \<longleftrightarrow>
     (\<forall>i \<in> cr_require_fresh r. \<exists>b. is_latest events (Some b) \<and> (\<exists>e \<in> set events. completes i b e))
     \<and> (\<forall>i \<in> cr_allow_stale r. \<exists>b. \<exists>e \<in> set events. completes i b e)"
proof -
  let ?t = "fold tracker_handle_event events (tracker_new r)"
  have k: "knows events ?t" "rk_requirements ?t = r" using knows_events by blast+
  then have "i \<in> rk_ready_for_block ?t \<longleftrightarrow> (\<exists>b. is_latest events (Some b) \<and> (\<exists>e \<in> set events. completes i b e))" for i
    using is_latest_unique [of events "rk_current_block ?t"] by (simp add: knows_def)
  moreover have "i \<in> rk_ever_computed ?t \<longleftrightarrow> (\<exists>b. \<exists>e \<in> set events. completes i b e)" for i
    using k(1) by (simp add: knows_def)
  ultimately show ?thesis by (simp add: is_ready_def k(2))
qed

lemma missing_empty_iff: "missing t = {} \<longleftrightarrow> is_ready t"
  by (auto simp: missing_def is_ready_def)

subsection \<open>The round rebuilds once all inputs have reported\<close>

definition round_wf :: "weight_inputs_round \<Rightarrow> bool" where
  "round_wf w = (distinct (wr_inputs w) \<and> distinct (wr_reported w) \<and> set (wr_reported w) \<subseteq> set (wr_inputs w)
     \<and> set (wr_fresh_inputs w) \<subseteq> set (wr_inputs w))"

lemma round_wf_new: "distinct inputs \<Longrightarrow> round_wf (weight_round_new inputs r)"
  by (auto simp: round_wf_def weight_round_new_def)

lemma round_wf_record: "round_wf w \<Longrightarrow> round_wf (snd (round_record e w))"
  by (cases e) (auto simp: round_wf_def record_report_def Let_def)

lemma report_rebuilds_iff:
  assumes "round_wf w" "wr_block w = Some b" "i \<in> set (wr_inputs w)" "i \<notin> set (wr_reported w)"
  shows "fst (record_report i b completed w) \<longleftrightarrow>
    completed \<and> i \<in> set (wr_fresh_inputs w) \<or> insert i (set (wr_reported w)) = set (wr_inputs w)"
proof -
  have "length (wr_reported w @ [i]) = card (insert i (set (wr_reported w)))"
    using assms by (simp add: round_wf_def distinct_card)
  moreover have "length (wr_inputs w) = card (set (wr_inputs w))" using assms(1) by (simp add: round_wf_def distinct_card)
  moreover have "card (insert i (set (wr_reported w))) = card (set (wr_inputs w)) \<longleftrightarrow>
      insert i (set (wr_reported w)) = set (wr_inputs w)"
    using assms(1,3) card_subset_eq [of "set (wr_inputs w)" "insert i (set (wr_reported w))"] by (auto simp: round_wf_def)
  ultimately show ?thesis using assms(2-4) by (simp add: record_report_def Let_def)
qed

end
