(* ===== verification/PostProcess.thy ===== *)
theory PostProcess
  imports Feed Allocation
begin

text \<open>
  The post-processors a worker pool runs on the route of its algorithm:
  \<open>src/fynd-core/src/post_process/mod.rs\<close> and \<open>post_process/pipeline.rs\<close>.

  A post-processor is a trait object, so what an instance does is a parameter: \<open>processor_ops\<close> holds
  the three methods over a state of type \<open>'p\<close>. How long an instance takes is another:
  \<open>pace\<close> says of each position whether the instance started after the deadline, ran past it or
  finished in time.
\<close>

section \<open>Post-processors\<close>

type_synonym instant = nat

record ('s, 'v) post_process_request =
  pq_order :: order
  pq_market :: "'s market_data"
  pq_label :: "state_label option"
  pq_derived :: 'v
  pq_constraints :: resolved_route_constraints
  pq_pool_drops :: "(protocol_component \<Rightarrow> bool) option"
  pq_exclusive_access :: exclusive_access
  pq_deadline :: instant

definition post_process_request_new ::
  "order \<Rightarrow> 's market_data \<Rightarrow> 'v \<Rightarrow> resolved_route_constraints \<Rightarrow> instant \<Rightarrow> ('s, 'v) post_process_request" where
  "post_process_request_new d market derived constraints deadline =
     \<lparr>pq_order = d, pq_market = market, pq_label = None, pq_derived = derived, pq_constraints = constraints,
      pq_pool_drops = None, pq_exclusive_access = Denied, pq_deadline = deadline\<rparr>"

definition drops_component :: "('s, 'v) post_process_request \<Rightarrow> protocol_component \<Rightarrow> bool" where
  "drops_component q c = (case pq_pool_drops q of None \<Rightarrow> False | Some drops \<Rightarrow> drops c)"

record ('p, 's, 'v) processor_ops =
  px_initialize :: "'s market_data \<Rightarrow> 'p \<Rightarrow> 'p"
  px_handle_event :: "market_event \<Rightarrow> 'p \<Rightarrow> (string + unit) \<times> 'p"
  px_process :: "'p \<Rightarrow> ('s, 'v) post_process_request \<Rightarrow> 's route_result \<Rightarrow> 's route_result option"

type_synonym 'p post_processors = "(string \<times> 'p) list"

record 's processed_route =
  pz_route :: "'s route_result"
  pz_post_processed_by :: "string list"

definition initialize_post_processors ::
  "('p, 's, 'v) processor_ops \<Rightarrow> 's market_data \<Rightarrow> 'p post_processors \<Rightarrow> 'p post_processors" where
  "initialize_post_processors ops market instances = map (\<lambda>(name, p). (name, px_initialize ops market p)) instances"

definition post_processors_handle_event ::
  "('p, 's, 'v) processor_ops \<Rightarrow> market_event \<Rightarrow> 'p post_processors \<Rightarrow> 'p post_processors" where
  "post_processors_handle_event ops e instances = map (\<lambda>(name, p). (name, snd (px_handle_event ops e p))) instances"

datatype pace = StartedLate | RanLate | InTime

fun run_loop ::
  "('p, 's, 'v) processor_ops \<Rightarrow> ('s, 'v) post_process_request \<Rightarrow> 's route_result \<Rightarrow> (pace \<times> string \<times> 'p) list \<Rightarrow>
   's route_result option \<times> string list \<Rightarrow> 's route_result option \<times> string list" where
  "run_loop ops q route [] (latest, names) = (latest, names)"
| "run_loop ops q route ((StartedLate, _) # rest) (latest, names) = (latest, names)"
| "run_loop ops q route ((RanLate, _) # rest) (latest, names) = run_loop ops q route rest (latest, names)"
| "run_loop ops q route ((InTime, name, p) # rest) (latest, names) =
     (case px_process ops p q (case latest of None \<Rightarrow> route | Some r \<Rightarrow> r) of
        None \<Rightarrow> run_loop ops q route rest (latest, names)
      | Some replacement \<Rightarrow> run_loop ops q route rest (Some replacement, names @ [name]))"

definition run_post_processors ::
  "('p, 's, 'v) processor_ops \<Rightarrow> pace list \<Rightarrow> 'p post_processors \<Rightarrow> ('s, 'v) post_process_request \<Rightarrow> 's route_result \<Rightarrow>
   's processed_route option" where
  "run_post_processors ops paces instances q route =
     (case run_loop ops q route (zip paces instances) (None, []) of
        (None, _) \<Rightarrow> None
      | (Some r, names) \<Rightarrow> Some \<lparr>pz_route = r, pz_post_processed_by = names\<rparr>)"

lemma run_loop_names:
  "run_loop ops q route rest (latest, names) = (latest', names') \<Longrightarrow>
   (latest = None \<longleftrightarrow> names = []) \<Longrightarrow> (latest' = None \<longleftrightarrow> names' = [])"
  by (induction ops q route rest "(latest, names)" arbitrary: latest names rule: run_loop.induct)
    (auto split: option.splits)

lemma processed_route_named: "run_post_processors ops paces instances q route = Some z \<Longrightarrow> pz_post_processed_by z \<noteq> []"
  using run_loop_names [of ops q route "zip paces instances" None "[]"]
  by (auto simp: run_post_processors_def split: prod.splits option.splits)

end
