(* ===== verification/PriceImpact.thy ===== *)
theory PriceImpact
  imports Replay Split
begin

text \<open>
  The price impact of a quoted route: \<open>src/fynd-core/src/worker_pool/price_impact.rs\<close>.

  \<open>ten_to\<close> is \<open>10f64.powi(n)\<close>, whose rounding the standard library leaves open. The spot price of a
  pool state comes from \<open>sim_env\<close>; the call is not guarded, so a panic of the pool is a panic here.
\<close>

section \<open>Price impact\<close>

datatype amount_source = RouteInput | RouteOutput | SwapInput

datatype price_impact_error =
    ImpactEmptyRoute
  | UnknownToken address
  | SpotPriceQueryFailed component_id address address string
  | AmountOutOfRange amount_source biguint
  | UnfedToken address
  | ZeroConsumedInput address
  | InvalidSpotPrice address address f64
  | NoReferenceOutput
  | BasisPointsOutOfRange f64

fun impact_outcome :: "price_impact_error \<Rightarrow> string" where
  "impact_outcome ImpactEmptyRoute = ''empty_route''"
| "impact_outcome (UnknownToken _) = ''unknown_token''"
| "impact_outcome (SpotPriceQueryFailed _ _ _ _) = ''spot_price_query_failed''"
| "impact_outcome (AmountOutOfRange _ _) = ''amount_out_of_range''"
| "impact_outcome (UnfedToken _) = ''unfed_token''"
| "impact_outcome (ZeroConsumedInput _) = ''zero_consumed_input''"
| "impact_outcome (InvalidSpotPrice _ _ _) = ''invalid_spot_price''"
| "impact_outcome NoReferenceOutput = ''no_reference_output''"
| "impact_outcome (BasisPointsOutOfRange _) = ''basis_points_out_of_range''"

record spot_leg =
  sq_token_in :: address
  sq_token_out :: address
  sq_amount_in_raw :: f64
  sq_reported_spot_price :: f64

record price_impact_inputs =
  pj_token_in :: address
  pj_token_out :: address
  pj_amount_in_raw :: biguint
  pj_amount_out_raw :: biguint
  pj_input_decimals :: nat
  pj_output_decimals :: nat

fun f64_neg :: "f64 \<Rightarrow> f64" where
  "f64_neg NaN = NaN"
| "f64_neg (Infinite s) = Infinite (\<not> s)"
| "f64_neg (Finite a) = Finite (- a)"

definition finite_f64 :: "amount_source \<Rightarrow> biguint \<Rightarrow> price_impact_error + f64" where
  "finite_f64 kind raw =
     (if f64_is_finite (biguint_to_f64 raw) then Inr (biguint_to_f64 raw) else Inl (AmountOutOfRange kind raw))"

text \<open>\<open>decimals as i32\<close> wraps above \<open>2\<^sup>3\<^sup>1\<close>.\<close>

definition as_i32 :: "nat \<Rightarrow> int" where
  "as_i32 n = (let k = int (n mod 2 ^ 32) in if k < 2 ^ 31 then k else k - 2 ^ 32)"

definition raw_to_human_units :: "(int \<Rightarrow> f64) \<Rightarrow> biguint \<Rightarrow> nat \<Rightarrow> amount_source \<Rightarrow> price_impact_error + f64" where
  "raw_to_human_units ten_to raw decimals kind =
     map_sum id (\<lambda>x. f64_div x (ten_to (as_i32 decimals))) (finite_f64 kind raw)"

text \<open>The legs of one branch collection: the reference by token and the reference output.\<close>

fun reference_legs ::
  "address \<Rightarrow> f64 \<Rightarrow> f64 \<Rightarrow> spot_leg list \<Rightarrow> (address \<rightharpoonup> f64) \<times> f64 \<Rightarrow>
   price_impact_error + (address \<rightharpoonup> f64) \<times> f64" where
  "reference_legs out available consumed [] acc = Inr acc"
| "reference_legs out available consumed (leg # legs) (by_token, reference) =
     (if \<not> (f64_is_finite (sq_reported_spot_price leg) \<and> f64_less (Finite 0) (sq_reported_spot_price leg))
      then Inl (InvalidSpotPrice (sq_token_in leg) (sq_token_out leg) (sq_reported_spot_price leg))
      else
        let share = f64_div (sq_amount_in_raw leg) consumed;
            contribution = f64_mul (f64_mul available share) (sq_reported_spot_price leg) in
        reference_legs out available consumed legs
          (if sq_token_out leg = out then (by_token, f64_add reference contribution)
           else (by_token(sq_token_out leg \<mapsto>
                   f64_add (case by_token (sq_token_out leg) of None \<Rightarrow> Finite 0 | Some x \<Rightarrow> x) contribution), reference)))"

fun reference_collections ::
  "address \<Rightarrow> (address \<times> spot_leg list) list \<Rightarrow> (address \<rightharpoonup> f64) \<times> f64 \<Rightarrow>
   price_impact_error + (address \<rightharpoonup> f64) \<times> f64" where
  "reference_collections out [] acc = Inr acc"
| "reference_collections out ((t, legs) # cols) acc =
     (case fst acc t of
        None \<Rightarrow> Inl (UnfedToken t)
      | Some available \<Rightarrow>
          let consumed = foldl f64_add (Finite 0) (map sq_amount_in_raw legs) in
          if f64_le consumed (Finite 0) then Inl (ZeroConsumedInput t)
          else case reference_legs out available consumed legs acc of
                 Inl e \<Rightarrow> Inl e
               | Inr acc' \<Rightarrow> reference_collections out cols acc')"

definition spot_reference_output ::
  "(int \<Rightarrow> f64) \<Rightarrow> spot_leg list \<Rightarrow> price_impact_inputs \<Rightarrow> price_impact_error + f64" where
  "spot_reference_output ten_to legs inputs =
     (case raw_to_human_units ten_to (pj_amount_in_raw inputs) (pj_input_decimals inputs) RouteInput of
        Inl e \<Rightarrow> Inl e
      | Inr x \<Rightarrow>
          (case reference_collections (pj_token_out inputs) (branch_collections sq_token_in legs)
                  ([pj_token_in inputs \<mapsto> x], Finite 0) of
             Inl e \<Rightarrow> Inl e
           | Inr (_, reference) \<Rightarrow>
               if f64_is_finite reference \<and> f64_less (Finite 0) reference then Inr reference
               else Inl NoReferenceOutput))"

definition price_impact_from_spot_legs ::
  "(int \<Rightarrow> f64) \<Rightarrow> spot_leg list \<Rightarrow> price_impact_inputs \<Rightarrow> price_impact_error + f64" where
  "price_impact_from_spot_legs ten_to legs inputs =
     (if legs = [] then Inl ImpactEmptyRoute
      else case spot_reference_output ten_to legs inputs of
             Inl e \<Rightarrow> Inl e
           | Inr reference \<Rightarrow>
               map_sum id (\<lambda>executed. f64_add (Finite 1) (f64_neg (f64_div executed reference)))
                 (raw_to_human_units ten_to (pj_amount_out_raw inputs) (pj_output_decimals inputs) RouteOutput))"

fun f64_to_int :: "f64 \<Rightarrow> int" where
  "f64_to_int (Finite a) = (if 0 \<le> a then \<lfloor>a\<rfloor> else \<lceil>a\<rceil>)"
| "f64_to_int _ = 0"

definition price_impact_to_basis_points :: "f64 \<Rightarrow> price_impact_error + int" where
  "price_impact_to_basis_points impact =
     (let rounded = f64_round (f64_mul impact (Finite 10000)) in
      if \<not> f64_is_finite rounded \<or> f64_less rounded (Finite (- (2 ^ 31))) \<or> f64_less (Finite (2 ^ 31 - 1)) rounded
      then Inl (BasisPointsOutOfRange impact)
      else Inr (f64_to_int rounded))"

definition spot_leg_of :: "'s sim_env \<Rightarrow> 's route \<Rightarrow> 's swap \<Rightarrow> (price_impact_error + spot_leg) run" where
  "spot_leg_of env r swap =
     or_return (ok_or (rt_tokens r (sw_token_in swap)) (UnknownToken (sw_token_in swap))) (\<lambda>token_in.
     or_return (ok_or (rt_tokens r (sw_token_out swap)) (UnknownToken (sw_token_out swap))) (\<lambda>token_out. do {
       spot \<leftarrow> pm_spot_price env (sw_protocol_state swap) token_in token_out;
       or_return (map_sum (SpotPriceQueryFailed (sw_component_id swap) (tk_address token_in) (tk_address token_out)) id spot) (\<lambda>price.
       or_return (finite_f64 SwapInput (sw_amount_in swap)) (\<lambda>amount.
         ret (Inr \<lparr>sq_token_in = sw_token_in swap, sq_token_out = sw_token_out swap, sq_amount_in_raw = amount,
                   sq_reported_spot_price = price\<rparr>)))
     }))"

definition route_price_impact ::
  "'s sim_env \<Rightarrow> (int \<Rightarrow> f64) \<Rightarrow> 's route \<Rightarrow> biguint \<Rightarrow> biguint \<Rightarrow> (price_impact_error + f64) run" where
  "route_price_impact env ten_to r amount_in_raw amount_out_raw =
     (if rt_swaps r = [] then ret (Inl ImpactEmptyRoute)
      else do {
        legs \<leftarrow> try_each (spot_leg_of env r) (rt_swaps r);
        or_return legs (\<lambda>legs.
          let token_in = sw_token_in (hd (rt_swaps r)); token_out = sw_token_out (last (rt_swaps r)) in
          or_return (ok_or (rt_tokens r token_in) (UnknownToken token_in)) (\<lambda>first.
          or_return (ok_or (rt_tokens r token_out) (UnknownToken token_out)) (\<lambda>final.
            ret (price_impact_from_spot_legs ten_to legs
                   \<lparr>pj_token_in = token_in, pj_token_out = token_out, pj_amount_in_raw = amount_in_raw,
                    pj_amount_out_raw = amount_out_raw, pj_input_decimals = tk_decimals first,
                    pj_output_decimals = tk_decimals final\<rparr>))))
      })"

subsection \<open>Basis points\<close>

text \<open>Basis points fit the signed 32-bit field of a quote and are the nearest to the impact.\<close>

lemma f64_round_integral: "f64_round x = Finite a \<Longrightarrow> \<exists>k. a = of_int k"
proof (cases x)
  case (Finite b)
  assume "f64_round x = Finite a"
  then have "a = of_int (if 0 \<le> b then \<lfloor>b + 1 / 2\<rfloor> else - \<lfloor>- b + 1 / 2\<rfloor>)" using Finite by auto
  then show ?thesis by blast
qed simp_all

lemma basis_points_fit:
  assumes "price_impact_to_basis_points impact = Inr bps"
  shows "- (2 ^ 31) \<le> bps \<and> bps \<le> 2 ^ 31 - 1 \<and> f64_round (f64_mul impact (Finite 10000)) = Finite (of_int bps)"
proof -
  let ?y = "f64_round (f64_mul impact (Finite 10000))"
  obtain a where a: "?y = Finite a" "- (2 ^ 31) \<le> a" "a \<le> 2 ^ 31 - 1" "bps = f64_to_int (Finite a)"
    using assms by (cases ?y) (auto simp: price_impact_to_basis_points_def Let_def split: if_splits)
  obtain k :: int where k: "a = of_int k"
    using f64_round_integral [OF a(1)] by blast
  have "of_int (- (2 ^ 31)) \<le> (of_int k :: rat)" "(of_int k :: rat) \<le> of_int (2 ^ 31 - 1)" using a(2,3) unfolding k by simp_all
  then have "- (2 ^ 31) \<le> k" "k \<le> 2 ^ 31 - 1" unfolding of_int_le_iff .
  then show ?thesis using a(1,4) k by simp
qed

end
