(* ===== verification/Worker.thy ===== *)
theory Worker
  imports RouteCheck Pamm Readiness PostProcess PriceImpact
begin

text \<open>
  A solver worker: \<open>src/fynd-core/src/worker_pool/worker.rs\<close>. It keeps its graph in step with the
  market, waits for derived data, asks its algorithm for a route, checks and prices what it gets and
  answers the task.

  The worker is generic in its algorithm, so \<open>algorithm\<close> is a record of the trait's methods; the
  graph manager is that of \<open>Graph\<close>. The market and the derived data are shared with the feed,
  which writes between two reads of the worker: \<open>reads n\<close> is the market at the \<open>n\<close>-th read of a quote.
  Instants are nanoseconds. Error messages are cut to their fixed part where the source formats a set
  or a route error into them; logs and metrics are left out.
\<close>

section \<open>The solver worker\<close>

subsection \<open>The interfaces of a worker\<close>

record ('g, 's, 'v) solve_request =
  sr_graph :: 'g
  sr_market :: "'s market_data"
  sr_order :: order
  sr_label :: "state_label option"
  sr_derived :: "'v option"
  sr_constraints :: resolved_route_constraints

definition solve_request_new :: "'g \<Rightarrow> 's market_data \<Rightarrow> order \<Rightarrow> ('g, 's, 'v) solve_request" where
  "solve_request_new g market d =
     \<lparr>sr_graph = g, sr_market = market, sr_order = d, sr_label = None, sr_derived = None,
      sr_constraints = \<lparr>rr_excluded_pools = {}, rr_excluded_tokens = {}, rr_required_tokens = {}, rr_unsynced_pools = {}\<rparr>\<rparr>"

record ('g, 's, 'v) algorithm =
  ag_name :: string
  ag_supports_required_tokens :: bool
  ag_computation_requirements :: computation_requirements
  ag_timeout :: nat
  ag_find_best_route :: "('g, 's, 'v) solve_request \<Rightarrow> (algorithm_error + 's route_result) run"

text \<open>\<open>we_weight\<close> and \<open>we_weight_inputs\<close> belong to the weight type of the graph manager.\<close>

record ('g, 'd, 's, 'v, 'p) worker_env =
  we_graph :: "('g, 'd) graph_ops"
  we_key_order :: "component_id set \<Rightarrow> component_id list"
  we_fallback :: "'s fallback_env"
  we_sim :: "'s sim_env"
  we_algorithm :: "('g, 's, 'v) algorithm"
  we_processors :: "('p, 's, 'v) processor_ops"
  we_ten_to :: "int \<Rightarrow> f64"
  we_weight :: "'v \<Rightarrow> 's \<Rightarrow> component_id \<Rightarrow> token \<Rightarrow> token \<Rightarrow> 'd option"
  we_weight_inputs :: "computation_id list"

record solve_params =
  vp_state_label :: "state_label option"
  vp_route_filter :: route_constraints
  vp_exclusive_access :: exclusive_access
  vp_constraint_cache :: constraint_cache

record ('g, 'p) worker =
  wk_graph_manager :: "'g graph_manager"
  wk_readiness_tracker :: readiness_tracker
  wk_initialized :: bool
  wk_pamm_admission :: pamm_manager
  wk_worker_id :: nat
  wk_pool_name :: string
  wk_liquidity_scope :: liquidity_scope
  wk_exclude_protocols :: "string list"
  wk_algorithm_exclude_protocols :: "string list"
  wk_algorithm_exclusions :: "string list"
  wk_post_processors :: "'p post_processors"

definition worker_new :: "('g, 'd, 's, 'v, 'p) worker_env \<Rightarrow> nat \<Rightarrow> string \<Rightarrow> ('g, 'p) worker" where
  "worker_new env worker_id pool_name =
     \<lparr>wk_graph_manager = graph_manager_new (we_graph env),
      wk_readiness_tracker = tracker_new (ag_computation_requirements (we_algorithm env)), wk_initialized = False,
      wk_pamm_admission = pamm_manager_new pool_name, wk_worker_id = worker_id, wk_pool_name = pool_name,
      wk_liquidity_scope = PublicOnly, wk_exclude_protocols = [], wk_algorithm_exclude_protocols = [],
      wk_algorithm_exclusions = [], wk_post_processors = []\<rparr>"

definition with_liquidity_scope :: "liquidity_scope \<Rightarrow> ('g, 'p) worker \<Rightarrow> ('g, 'p) worker" where
  "with_liquidity_scope scope w = w\<lparr>wk_liquidity_scope := scope\<rparr>"

definition merge_algorithm_exclusions :: "('g, 'p) worker \<Rightarrow> ('g, 'p) worker" where
  "merge_algorithm_exclusions w =
     w\<lparr>wk_algorithm_exclusions := wk_exclude_protocols w @ wk_algorithm_exclude_protocols w\<rparr>"

definition with_exclude_protocols :: "string list \<Rightarrow> ('g, 'p) worker \<Rightarrow> ('g, 'p) worker" where
  "with_exclude_protocols systems w = merge_algorithm_exclusions (w\<lparr>wk_exclude_protocols := systems\<rparr>)"

definition with_algorithm_exclude_protocols :: "string list \<Rightarrow> ('g, 'p) worker \<Rightarrow> ('g, 'p) worker" where
  "with_algorithm_exclude_protocols systems w =
     merge_algorithm_exclusions (w\<lparr>wk_algorithm_exclude_protocols := systems\<rparr>)"

definition with_post_processors :: "'p post_processors \<Rightarrow> ('g, 'p) worker \<Rightarrow> ('g, 'p) worker" where
  "with_post_processors instances w = w\<lparr>wk_post_processors := instances\<rparr>"

definition read_market :: "'s market_data \<Rightarrow> state_label option \<Rightarrow> solve_error + 's market_data_view" where
  "read_market d label =
     (case label of
        Some l \<Rightarrow> map_sum (\<lambda>e. case e of LabelNotFound l \<Rightarrow> NotReady (''label not found: '' @ l)) id (read_labeled d l)
      | None \<Rightarrow> Inr (market_read d))"

subsection \<open>Keeping the graph in step with the market\<close>

definition graph_drops :: "('g, 'p) worker \<Rightarrow> protocol_component \<Rightarrow> bool" where
  "graph_drops w = should_drop_component (wk_liquidity_scope w) (wk_algorithm_exclusions w)"

text \<open>\<open>d\<close> is the market the topology is read from, \<open>d'\<close> the market the post-processors then read.\<close>

definition worker_initialize_graph ::
  "('g, 'd, 's, 'v, 'p) worker_env \<Rightarrow> 's market_data \<Rightarrow> 's market_data \<Rightarrow> ('g, 'p) worker \<Rightarrow> ('g, 'p) worker run" where
  "worker_initialize_graph env d d' w =
     (let v = market_read d;
          topology = component_topology_of_market (mv_base v);
          (withheld_pamms, pamm_admission) =
            withhold_from_graph (we_key_order env) (we_fallback env) v topology (graph_drops w) (wk_pamm_admission w);
          kept = filter_topology (mv_base v) topology (\<lambda>c. graph_drops w c \<or> pc_id c \<in> withheld_pamms) in
      do {
        gm \<leftarrow> initialize_graph (we_graph env) kept;
        ret (w\<lparr>wk_pamm_admission := pamm_admission, wk_graph_manager := gm,
               wk_post_processors := initialize_post_processors (we_processors env) d' (wk_post_processors w),
               wk_initialized := True\<rparr>)
      })"

definition process_event ::
  "('g, 'd, 's, 'v, 'p) worker_env \<Rightarrow> 's market_data \<Rightarrow> market_event \<Rightarrow> ('g, 'p) worker \<Rightarrow> ('g, 'p) worker run" where
  "process_event env d e w =
     (let v = market_read d;
          post_processor_drops = should_drop_component IncludeExclusive (wk_exclude_protocols w);
          (event, pamm_admission) =
            apply_pamm_admission (we_key_order env) (we_fallback env) v (graph_drops w) e (wk_pamm_admission w);
          (graph_event, post_processor_event) =
            (if wk_post_processors w = []
                \<or> wk_liquidity_scope w = IncludeExclusive \<and> wk_algorithm_exclude_protocols w = []
             then let f = filter_event (mv_base v) event (graph_drops w) in (f, f)
             else let f = filter_event (mv_base v) event post_processor_drops in
                  (filter_event (mv_base v) f (graph_drops w), f)) in
      do {
        (_, gm) \<leftarrow> graph_handle_event (we_graph env) graph_event (wk_graph_manager w);
        ret (w\<lparr>wk_pamm_admission := pamm_admission, wk_graph_manager := gm,
               wk_post_processors := post_processors_handle_event (we_processors env) post_processor_event (wk_post_processors w)\<rparr>)
      })"

subsection \<open>Checking and pricing a route\<close>

definition is_sell :: "order \<Rightarrow> bool" where
  "is_sell d = (od_side d = Sell)"

definition check_commitment :: "('g, 'p) worker \<Rightarrow> order \<Rightarrow> 's route_result \<Rightarrow> route_check_error + unit" where
  "check_commitment w d processed =
     (let route = rs_route processed; has_exclusive_leg = routes_through_exclusive (rt_swaps route) in
      case rs_commitment processed of
        None \<Rightarrow>
          if has_exclusive_leg \<and> wk_liquidity_scope w = PublicOnly then Inl ExclusiveWithoutCommitment else Inr ()
      | Some c \<Rightarrow>
          if \<not> is_sell d then Inl CommitmentNotOnSell
          else if \<not> has_exclusive_leg then Inl CommitmentWithoutExclusiveLeg
          else if (case output_token route of
                     None \<Rightarrow> True
                   | Some t \<Rightarrow> route_amount_out route t < cm_committed_amount_out c)
          then Inl (CommitmentAboveRoute (cm_committed_amount_out c))
          else Inr ())"

definition check_processed_route ::
  "('g, 'p) worker \<Rightarrow> order \<Rightarrow> 's route_result \<Rightarrow> liquidity_scope \<Rightarrow> route_check_error + unit" where
  "check_processed_route w d processed scope =
     (let route = rs_route processed in
      case check_all (\<lambda>s. if should_drop_component scope (wk_exclude_protocols w) (sw_protocol_component s)
                          then Inl (UsesDroppedComponent (sw_component_id s)) else Inr ()) (rt_swaps route) of
        Inl e \<Rightarrow> Inl e
      | Inr _ \<Rightarrow>
        (case check_commitment w d processed of
           Inl e \<Rightarrow> Inl e
         | Inr _ \<Rightarrow>
             if \<not> is_sell d then Inr ()
             else case output_token route of
                    None \<Rightarrow> Inr ()
                  | Some t \<Rightarrow>
                      if int (route_amount_out route t) < rs_net_amount_out processed
                      then Inl (NetAboveRoute (rs_net_amount_out processed) (route_amount_out route t))
                      else Inr ()))"

definition price_fallback_legs ::
  "('g, 'd, 's, 'v, 'p) worker_env \<Rightarrow> ('g, 'p) worker \<Rightarrow> 's market_data \<Rightarrow> order \<Rightarrow> solve_params \<Rightarrow> 's route \<Rightarrow>
   (solve_error + 's route) run" where
  "price_fallback_legs env w d order params r =
     (if \<not> has_fallback_leg r then ret (Inr r)
      else or_return (read_market d (vp_state_label params)) (\<lambda>v. do {
        priced \<leftarrow> price_through_fallbacks (we_sim env) (we_fallback env) v (pk_fallback_pools (wk_pamm_admission w))
                    (vp_route_filter params) (wk_algorithm_exclusions w) r;
        ret (case priced of
               Inr (stamped, amount) \<Rightarrow> Inr (stamped\<lparr>rt_fallback_amount_out := Some amount\<rparr>)
             | Inl e \<Rightarrow> Inl (RouteRejected (od_id order) (rejection e)))
      }))"

definition post_process_exclusive_access :: "('g, 'p) worker \<Rightarrow> solve_params \<Rightarrow> exclusive_access" where
  "post_process_exclusive_access w params =
     (case wk_liquidity_scope w of PublicOnly \<Rightarrow> vp_exclusive_access params | IncludeExclusive \<Rightarrow> Denied)"

definition post_process_deadline_margin :: nat where
  "post_process_deadline_margin = 10 * 10 ^ 6"

text \<open>\<open>d\<close> is the market the post-processors share, \<open>d'\<close> the market their route is priced on.\<close>

definition post_process ::
  "('g, 'd, 's, 'v, 'p) worker_env \<Rightarrow> ('g, 'p) worker \<Rightarrow> 's market_data \<Rightarrow> 's market_data \<Rightarrow> 'v \<Rightarrow> pace list \<Rightarrow> order \<Rightarrow>
   solve_params \<Rightarrow> resolved_route_constraints \<Rightarrow> instant \<Rightarrow> 's route_result \<Rightarrow> ('s route_result \<times> string list) run" where
  "post_process env w d d' derived paces order params constraints deadline result =
     (if wk_post_processors w = [] then ret (result, [])
      else
        let exclusive_access = post_process_exclusive_access w params;
            scope = (case exclusive_access of Granted \<Rightarrow> IncludeExclusive | Denied \<Rightarrow> wk_liquidity_scope w);
            request = (post_process_request_new order d derived constraints
                         (if post_process_deadline_margin \<le> deadline then deadline - post_process_deadline_margin else deadline))
                      \<lparr>pq_label := vp_state_label params,
                       pq_pool_drops := Some (should_drop_component scope (wk_exclude_protocols w)),
                       pq_exclusive_access := exclusive_access\<rparr> in
        case run_post_processors (we_processors env) paces (wk_post_processors w) request result of
          None \<Rightarrow> ret (result, [])
        | Some processed \<Rightarrow> do {
            checked \<leftarrow> check_route (rs_route (pz_route processed)) order (vp_route_filter params) constraints;
            case (case checked of
                    Inl e \<Rightarrow> Inl e
                  | Inr _ \<Rightarrow> check_processed_route w order (pz_route processed) scope) of
              Inl _ \<Rightarrow> ret (result, [])
            | Inr _ \<Rightarrow> do {
                priced \<leftarrow> price_fallback_legs env w d' order params (rs_route (pz_route processed));
                ret (case priced of
                       Inl _ \<Rightarrow> (result, [])
                     | Inr r \<Rightarrow> ((pz_route processed)\<lparr>rs_route := r\<rparr>, pz_post_processed_by processed))
              }
          })"

subsection \<open>Answering one order\<close>

definition route_carries_no_swaps :: "('g, 'd, 's, 'v, 'p) worker_env \<Rightarrow> solve_error" where
  "route_carries_no_swaps env = AlgorithmError (ag_name (we_algorithm env) @ '' returned a route with no swaps'')"

fun solve_error_from_algorithm_error :: "string \<Rightarrow> biguint \<Rightarrow> algorithm_error \<Rightarrow> solve_error" where
  "solve_error_from_algorithm_error order_id amount_in (NoPath _ _ reason) = NoRouteFound order_id (Some reason)"
| "solve_error_from_algorithm_error order_id amount_in (AlgTimeout elapsed_ms) = Timeout elapsed_ms"
| "solve_error_from_algorithm_error order_id amount_in AlgInsufficientLiquidity = InsufficientLiquidity amount_in 0"
| "solve_error_from_algorithm_error order_id amount_in (DataNotFound kind (Some i)) = MissingData (kind @ '': '' @ i)"
| "solve_error_from_algorithm_error order_id amount_in (DataNotFound kind None) = MissingData kind"
| "solve_error_from_algorithm_error order_id amount_in (AlgSimulationFailed c e) = SimulationFailed (c @ '': '' @ e)"
| "solve_error_from_algorithm_error order_id amount_in (InvalidConfiguration reason) =
     AlgorithmError (''invalid configuration: '' @ reason)"
| "solve_error_from_algorithm_error order_id amount_in ExactOutNotSupported = AlgorithmError ''exact-out orders not supported''"
| "solve_error_from_algorithm_error order_id amount_in (OtherAlgorithmError message) = AlgorithmError message"

text \<open>What a quote reads besides the worker: the market at each of its reads, the derived data, how the
  post-processors keep time and how long the solve takes.\<close>

record ('s, 'v) surroundings =
  xc_reads :: "nat \<Rightarrow> 's market_data"
  xc_derived :: 'v
  xc_paces :: "pace list"
  xc_solve_time_ms :: nat

definition route_amounts ::
  "('g, 'd, 's, 'v, 'p) worker_env \<Rightarrow> order \<Rightarrow> 's route \<Rightarrow> solve_error + biguint \<times> biguint" where
  "route_amounts env d r =
     (case (if is_sell d then Inr (od_amount d) else ok_or (input_amount r) (route_carries_no_swaps env)) of
        Inl e \<Rightarrow> Inl e
      | Inr amount_in \<Rightarrow>
          (if is_sell d
           then (case output_token r of
                   None \<Rightarrow> Inl (route_carries_no_swaps env)
                 | Some t \<Rightarrow> Inr (amount_in, route_amount_out r t))
           else Inr (amount_in, od_amount d)))"

definition route_price_impact_bps ::
  "('g, 'd, 's, 'v, 'p) worker_env \<Rightarrow> 's route \<Rightarrow> biguint \<Rightarrow> biguint \<Rightarrow> int option run" where
  "route_price_impact_bps env r amount_in amount_out =
     do {
       impact \<leftarrow> route_price_impact (we_sim env) (we_ten_to env) r amount_in amount_out;
       ret (case impact of
              Inl _ \<Rightarrow> None
            | Inr i \<Rightarrow> (case price_impact_to_basis_points i of Inl _ \<Rightarrow> None | Inr bps \<Rightarrow> Some bps))
     }"

definition quote_route ::
  "('g, 'd, 's, 'v, 'p) worker_env \<Rightarrow> order \<Rightarrow> block_info \<Rightarrow> state_label \<Rightarrow> 's route_result \<Rightarrow> string list \<Rightarrow>
   's route \<Rightarrow> (solve_error + 's order_quote) run" where
  "quote_route env d block_info solved_against result post_processed_by route =
     or_return (route_amounts env d route) (\<lambda>(amount_in_raw, amount_out_raw). do {
       price_impact_bps \<leftarrow> route_price_impact_bps env route amount_in_raw amount_out_raw;
       let q = with_gas_price (with_route
                 (order_quote_new (od_id d) QSuccess amount_in_raw amount_out_raw (total_gas route)
                    (nat (rs_net_amount_out result)) block_info (ag_name (we_algorithm env))
                    (od_sender d) (effective_receiver d) solved_against) route) (rs_gas_price result);
       q \<leftarrow> (case rs_commitment result of
               None \<Rightarrow> ret (set_post_processed_by q post_processed_by)
             | Some c \<Rightarrow> pin_route_commitment (set_post_processed_by q post_processed_by) c);
       ret (Inr (case price_impact_bps of None \<Rightarrow> q | Some bps \<Rightarrow> with_price_impact_bps q bps))
     })"

definition quote_result ::
  "('g, 'd, 's, 'v, 'p) worker_env \<Rightarrow> ('g, 'p) worker \<Rightarrow> ('s, 'v) surroundings \<Rightarrow> order \<Rightarrow> solve_params \<Rightarrow> instant \<Rightarrow>
   resolved_route_constraints \<Rightarrow> block_info \<Rightarrow> state_label \<Rightarrow> 's route_result \<Rightarrow> (solve_error + 's order_quote) run" where
  "quote_result env w x d params deadline constraints block_info solved_against result =
     do {
       checked \<leftarrow> check_route (rs_route result) d (vp_route_filter params) constraints;
       case checked of
         Inl _ \<Rightarrow> ret (Inl (AlgorithmError (ag_name (we_algorithm env) @ '' produced an invalid route: '')))
       | Inr _ \<Rightarrow> do {
           (result, post_processed_by) \<leftarrow>
             post_process env w (xc_reads x 4) (xc_reads x 5) (xc_derived x) (xc_paces x) d params constraints deadline result;
           priced \<leftarrow> (if post_processed_by = [] then price_fallback_legs env w (xc_reads x 6) d params (rs_route result)
                      else ret (Inr (rs_route result)));
           or_return priced (\<lambda>route.
             quote_route env d block_info solved_against result post_processed_by route)
         }
     }"

definition solve_order_for ::
  "('g, 'd, 's, 'v, 'p) worker_env \<Rightarrow> ('g, 'p) worker \<Rightarrow> ('s, 'v) surroundings \<Rightarrow> order \<Rightarrow> solve_params \<Rightarrow> instant \<Rightarrow>
   (solve_error + 's single_order_quote) run" where
  "solve_order_for env w x d params deadline =
     or_return (read_market (xc_reads x 2) (vp_state_label params)) (\<lambda>v.
     or_return (ok_or (mk_last_updated (mv_base v)) (NotReady ''No block info'')) (\<lambda>last_block.
       let solved_against = (case mv_overlay v of Some (label, _) \<Rightarrow> label | None \<Rightarrow> decimal (bi_number last_block));
           constraints = fst (resolve_constraints v (vp_route_filter params) (vp_constraint_cache params));
           request = (solve_request_new (gm_graph (wk_graph_manager w)) (xc_reads x 3) d)
             \<lparr>sr_derived := Some (xc_derived x), sr_constraints := constraints, sr_label := vp_state_label params\<rparr> in
       do {
         found \<leftarrow> ag_find_best_route (we_algorithm env) request;
         case found of
           Inl e \<Rightarrow> ret (Inl (solve_error_from_algorithm_error (od_id d) (od_amount d) e))
         | Inr result \<Rightarrow> do {
             q \<leftarrow> quote_result env w x d params deadline constraints last_block solved_against result;
             or_return q (\<lambda>q. ret (Inr \<lparr>so_order = q, so_solve_time_ms = xc_solve_time_ms x\<rparr>))
           }
       }))"

text \<open>The constraint cache behind \<open>params\<close> is shared with the tasks of the same request in other workers; what this
  quote leaves there is \<open>quote_cache\<close>.\<close>

definition quote_cache :: "('s, 'v) surroundings \<Rightarrow> solve_params \<Rightarrow> constraint_cache" where
  "quote_cache x params =
     (case read_market (xc_reads x 2) (vp_state_label params) of
        Inl _ \<Rightarrow> vp_constraint_cache params
      | Inr v \<Rightarrow>
          if mk_last_updated (mv_base v) = None then vp_constraint_cache params
          else snd (resolve_constraints v (vp_route_filter params) (vp_constraint_cache params)))"

definition quote ::
  "('g, 'd, 's, 'v, 'p) worker_env \<Rightarrow> ('s, 'v) surroundings \<Rightarrow> order \<Rightarrow> solve_params \<Rightarrow> instant \<Rightarrow> ('g, 'p) worker \<Rightarrow>
   ((solve_error + 's single_order_quote) \<times> ('g, 'p) worker) run" where
  "quote env x d params deadline w =
     (if rc_required_tokens (vp_route_filter params) \<noteq> {} \<and> \<not> ag_supports_required_tokens (we_algorithm env)
      then ret (Inl RequiredTokensNotSupported, w)
      else if has_requirements (rk_requirements (wk_readiness_tracker w)) \<and> \<not> is_ready (wk_readiness_tracker w)
      then ret (Inl (NotReady ''derived data not ready: missing ''), w)
      else do {
        w \<leftarrow> (if wk_initialized w then ret w else worker_initialize_graph env (xc_reads x 0) (xc_reads x 1) w);
        answer \<leftarrow> solve_order_for env w x d params deadline;
        ret (answer, w)
      })"

subsection \<open>The loop of a worker\<close>

definition task_budget :: "nat \<Rightarrow> instant \<Rightarrow> instant \<Rightarrow> nat option" where
  "task_budget pool_timeout deadline now =
     (if deadline < now then None else if deadline - now = 0 then None else Some (min pool_timeout (deadline - now)))"

text \<open>\<open>wakes\<close> are the instants at which the waiting worker is notified; the timer ends the wait otherwise.\<close>

fun wait_loop :: "readiness_tracker \<Rightarrow> instant \<Rightarrow> instant \<Rightarrow> instant list \<Rightarrow> solve_error + unit" where
  "wait_loop t deadline now wakes =
     (if is_ready t then Inr ()
      else if is_blocked_for_current_block t
      then Inl (solve_error.ComputationFailed ''required computation failed for current block: '')
      else if deadline \<le> now then Inl (NotReady ''timeout waiting for derived data: missing '')
      else case wakes of
             [] \<Rightarrow> Inl (NotReady ''timeout waiting for derived data: missing '')
           | woken # later \<Rightarrow>
               if deadline \<le> woken then Inl (NotReady ''timeout waiting for derived data: missing '')
               else if is_blocked_for_current_block t
               then Inl (solve_error.ComputationFailed ''required computation failed for current block: '')
               else wait_loop t deadline woken later)"

definition wait_until_ready :: "readiness_tracker \<Rightarrow> nat \<Rightarrow> instant \<Rightarrow> instant list \<Rightarrow> solve_error + unit" where
  "wait_until_ready t timeout now wakes =
     (if \<not> has_requirements (rk_requirements t) \<or> is_ready t then Inr () else wait_loop t (now + timeout) now wakes)"

record solve_task =
  tq_id :: string
  tq_order :: order
  tq_params :: solve_params
  tq_created_at :: instant
  tq_deadline :: instant

text \<open>What arrives at the loop, in the order the loop takes it up. A market event comes with the market it is
  processed against; a task with the instants at which it is taken up and, when it is late, answered, and with what
  its quote reads. Any message on the shutdown channel, and its end, is \<open>ShutdownReceived\<close>.\<close>

datatype ('s, 'v, 'f) worker_input =
    ShutdownReceived
  | MarketEventReceived market_event "'s market_data"
  | MarketEventsClosed
  | MarketEventsLagged "'s market_data" "'s market_data"
  | DerivedEventReceived "'f derived_data_event" "'s market_data" 'v
  | DerivedEventsClosed
  | DerivedEventsLagged "'s market_data" 'v
  | TaskReceived solve_task instant instant "instant list" "('s, 'v) surroundings"
  | TasksClosed

record ('g, 's, 'p) worker_loop =
  wl_worker :: "('g, 'p) worker"
  wl_derived_closed :: bool
  wl_weight_round :: weight_inputs_round
  wl_stopped :: bool
  wl_responses :: "(string \<times> (solve_error + 's single_order_quote)) list"

definition worker_loop_start :: "('g, 'd, 's, 'v, 'p) worker_env \<Rightarrow> ('g, 'p) worker \<Rightarrow> ('g, 's, 'p) worker_loop" where
  "worker_loop_start env w =
     \<lparr>wl_worker = w, wl_derived_closed = False,
      wl_weight_round = weight_round_new (we_weight_inputs env) (ag_computation_requirements (we_algorithm env)),
      wl_stopped = False, wl_responses = []\<rparr>"

definition respond :: "solve_task \<Rightarrow> solve_error + 's single_order_quote \<Rightarrow> ('g, 's, 'p) worker_loop \<Rightarrow> ('g, 's, 'p) worker_loop" where
  "respond task answer l = l\<lparr>wl_responses := wl_responses l @ [(tq_id task, answer)]\<rparr>"

definition update_weights ::
  "('g, 'd, 's, 'v, 'p) worker_env \<Rightarrow> 's market_data \<Rightarrow> 'v \<Rightarrow> ('g, 's, 'p) worker_loop \<Rightarrow> ('g, 's, 'p) worker_loop run" where
  "update_weights env d derived l =
     do {
       (_, gm) \<leftarrow> update_edge_weights_with_derived (we_graph env) (we_weight env derived) (market_read d)
                    (wk_graph_manager (wl_worker l));
       ret (l\<lparr>wl_worker := (wl_worker l)\<lparr>wk_graph_manager := gm\<rparr>\<rparr>)
     }"

text \<open>\<open>Duration::as_millis\<close> cast to \<open>u64\<close>.\<close>

definition wait_time_ms :: "solve_task \<Rightarrow> instant \<Rightarrow> nat" where
  "wait_time_ms task now = (now - tq_created_at task) div 10 ^ 6 mod 2 ^ 64"

definition run_task ::
  "('g, 'd, 's, 'v, 'p) worker_env \<Rightarrow> solve_task \<Rightarrow> instant \<Rightarrow> instant \<Rightarrow> instant list \<Rightarrow> ('s, 'v) surroundings \<Rightarrow>
   ('g, 's, 'p) worker_loop \<Rightarrow> ('g, 's, 'p) worker_loop run" where
  "run_task env task started abandoned wakes x l =
     (case task_budget (ag_timeout (we_algorithm env)) (tq_deadline task) started of
        None \<Rightarrow> ret (respond task (Inl (Timeout (wait_time_ms task abandoned))) l)
      | Some budget \<Rightarrow>
          (case wait_until_ready (wk_readiness_tracker (wl_worker l)) budget started wakes of
             Inl e \<Rightarrow> ret (respond task (Inl e) l)
           | Inr _ \<Rightarrow> do {
               (answer, w) \<leftarrow> quote env x (tq_order task) (tq_params task) (tq_deadline task) (wl_worker l);
               ret (respond task answer (l\<lparr>wl_worker := w\<rparr>))
             }))"

fun worker_step ::
  "('g, 'd, 's, 'v, 'p) worker_env \<Rightarrow> ('s, 'v, 'f) worker_input \<Rightarrow> ('g, 's, 'p) worker_loop \<Rightarrow> ('g, 's, 'p) worker_loop run" where
  "worker_step env ShutdownReceived l = ret (l\<lparr>wl_stopped := True\<rparr>)"
| "worker_step env (MarketEventReceived e d) l =
     do { w \<leftarrow> process_event env d e (wl_worker l); ret (l\<lparr>wl_worker := w\<rparr>) }"
| "worker_step env MarketEventsClosed l = ret (l\<lparr>wl_stopped := True\<rparr>)"
| "worker_step env (MarketEventsLagged d d') l =
     do { w \<leftarrow> worker_initialize_graph env d d' (wl_worker l); ret (l\<lparr>wl_worker := w\<rparr>) }"
| "worker_step env (DerivedEventReceived e d derived) l =
     (if wl_derived_closed l then ret l
      else let w = wl_worker l;
               l = l\<lparr>wl_worker := w\<lparr>wk_readiness_tracker := tracker_handle_event e (wk_readiness_tracker w)\<rparr>\<rparr>;
               (rebuild, r) = round_record e (wl_weight_round l);
               l = l\<lparr>wl_weight_round := r\<rparr> in
           if rebuild then update_weights env d derived l else ret l)"
| "worker_step env DerivedEventsClosed l = ret (l\<lparr>wl_derived_closed := True\<rparr>)"
| "worker_step env (DerivedEventsLagged d derived) l =
     (if wl_derived_closed l then ret l else update_weights env d derived l)"
| "worker_step env (TaskReceived task started abandoned wakes x) l = run_task env task started abandoned wakes x l"
| "worker_step env TasksClosed l = ret (l\<lparr>wl_stopped := True\<rparr>)"

fun run_worker ::
  "('g, 'd, 's, 'v, 'p) worker_env \<Rightarrow> ('s, 'v, 'f) worker_input list \<Rightarrow> ('g, 's, 'p) worker_loop \<Rightarrow> ('g, 's, 'p) worker_loop run" where
  "run_worker env [] l = ret l"
| "run_worker env (i # inputs) l =
     (if wl_stopped l then ret l else do { l \<leftarrow> worker_step env i l; run_worker env inputs l })"

text \<open>How the pool starts a worker: it builds it from its configuration, initializes its graph and enters the loop.\<close>

definition start_worker ::
  "('g, 'd, 's, 'v, 'p) worker_env \<Rightarrow> nat \<Rightarrow> string \<Rightarrow> liquidity_scope \<Rightarrow> string list \<Rightarrow> string list \<Rightarrow> 'p post_processors \<Rightarrow>
   's market_data \<Rightarrow> 's market_data \<Rightarrow> ('g, 's, 'p) worker_loop run" where
  "start_worker env worker_id pool_name scope exclude_protocols algorithm_exclude_protocols post_processors d d' =
     do {
       w \<leftarrow> worker_initialize_graph env d d'
              (with_post_processors post_processors
                (with_algorithm_exclude_protocols algorithm_exclude_protocols
                  (with_exclude_protocols exclude_protocols
                    (with_liquidity_scope scope (worker_new env worker_id pool_name)))));
       ret (worker_loop_start env w)
     }"

end
