(* ===== verification/WorkerGraph.thy ===== *)
theory WorkerGraph
  imports Worker
begin

text \<open>
  The graph of a worker against the market: the initialization and every market event leave the graph
  with exactly the components the worker may route through, in the directions the market gives them.
\<close>

section \<open>The graph a worker keeps\<close>

subsection \<open>The rules of a worker\<close>

lemma should_drop_component_kind: "respects_kind (should_drop_component scope excluded)"
  by (auto simp: respects_kind_def should_drop_component_def same_kind_def is_exclusive_def is_excluded_protocol_def)

lemma graph_drops_kind: "respects_kind (graph_drops w)"
  by (simp add: graph_drops_def should_drop_component_kind)

definition merged :: "('g, 'p) worker \<Rightarrow> bool" where
  "merged w = (wk_algorithm_exclusions w = wk_exclude_protocols w @ wk_algorithm_exclude_protocols w)"

lemma processor_drops_graph_drops:
  "merged w \<Longrightarrow> should_drop_component IncludeExclusive (wk_exclude_protocols w) c \<Longrightarrow> graph_drops w c"
  by (auto simp: merged_def graph_drops_def should_drop_component_def is_excluded_protocol_def)

lemma filter_event_twice:
  assumes "\<And>c. f c \<Longrightarrow> g c" shows "filter_event m (filter_event m e f) g = filter_event m e g"
proof -
  have "filter_topology m (filter_topology m t f) g = filter_topology m t g" for t
    using assms by (auto simp: filter_topology_def fun_eq_iff split: option.splits)
  moreover have "filter_component_ids m (filter_component_ids m ids f) g = filter_component_ids m ids g" for ids
    using assms by (auto simp: filter_component_ids_def split: option.splits intro!: filter_cong)
  ultimately show ?thesis by (simp add: filter_event_def)
qed

subsection \<open>What a worker holds of a market\<close>

definition graph_of :: "('g, 'd, 's, 'v, 'p) worker_env \<Rightarrow> 's market_state \<Rightarrow> ('g, 'p) worker \<Rightarrow> bool" where
  "graph_of env m w =
     (manager_wf (we_graph env) (wk_graph_manager w)
      \<and> tracked_directions (wk_graph_manager w) = routable (we_fallback env) (graph_drops w) m
      \<and> admission_of (we_fallback env) (graph_drops w) m (wk_pamm_admission w))"

definition same_rules :: "('g, 'p) worker \<Rightarrow> ('g, 'p) worker \<Rightarrow> bool" where
  "same_rules w w' =
     (wk_liquidity_scope w' = wk_liquidity_scope w \<and> wk_exclude_protocols w' = wk_exclude_protocols w
      \<and> wk_algorithm_exclude_protocols w' = wk_algorithm_exclude_protocols w
      \<and> wk_algorithm_exclusions w' = wk_algorithm_exclusions w)"

lemma same_rulesD:
  assumes "same_rules w w'" shows "graph_drops w' = graph_drops w" "merged w' = merged w"
  using assms by (simp_all add: same_rules_def graph_drops_def merged_def)

lemma kept_topology:
  assumes "ids_match m" "withheld = {i. standing_of env drops m i = Some Withheld}"
  shows "Option.bind (filter_topology m (component_topology_of_market m) (\<lambda>c. drops c \<or> pc_id c \<in> withheld) i) formed_directions
    = routable env drops m i"
proof (cases "get_component m i")
  case None
  then show ?thesis by (simp add: filter_topology_def routable_def component_topology_of_market_def get_component_def)
next
  case (Some c)
  then have "pc_id c = i" using assms(1) by (simp add: ids_match_def)
  then have "pc_id c \<in> withheld \<longleftrightarrow> standing_of env drops m i = Some Withheld" using assms(2) by simp
  then show ?thesis using Some routable_standing(1) [OF Some, of drops env]
    by (cases "drops c") (simp_all add: filter_topology_def routable_def component_topology_of_market_def topology_of_def)
qed

lemma kept_topology_finite:
  "finite (dom (mk_components m)) \<Longrightarrow> finite (dom (filter_topology m (component_topology_of_market m) f))"
  by (rule finite_subset [of _ "dom (mk_components m)"])
    (auto simp: filter_topology_def component_topology_of_market_def split: option.splits if_splits)

lemma worker_initialize_graph_of:
  assumes "stable_graph (we_graph env)" "key_order (we_key_order env)"
    and "finite (dom (mk_components (md_data d)))" "ids_match (md_data d)"
  obtains w' where "worker_initialize_graph env d d' w = ret w'" "graph_of env (md_data d) w'" "same_rules w w'" "wk_initialized w'"
    "wk_readiness_tracker w' = wk_readiness_tracker w"
proof -
  let ?m = "md_data d" and ?topology = "component_topology_of_market (md_data d)"
  obtain withheld mgr where wh: "withhold_from_graph (we_key_order env) (we_fallback env) (market_read d) ?topology (graph_drops w)
      (wk_pamm_admission w) = (withheld, mgr)" by fastforce
  have base: "mv_base (market_read d) = ?m" by (simp add: market_read_def)
  note adm = withhold_from_graph_of [OF assms(2), of "market_read d", unfolded base, OF assms(3) wh]
  let ?kept = "filter_topology ?m ?topology (\<lambda>c. graph_drops w c \<or> pc_id c \<in> withheld)"
  obtain gm where gm: "initialize_graph (we_graph env) ?kept = ret gm" "manager_wf (we_graph env) gm"
      "tracked_directions gm = (\<lambda>i. Option.bind (?kept i) formed_directions)"
    by (rule initialize_graph_tracked [OF assms(1) kept_topology_finite [OF assms(3)]])
  have tracked: "tracked_directions gm = routable (we_fallback env) (graph_drops w) ?m"
    unfolding gm(3) using kept_topology [OF assms(4) adm(2)] by (rule ext)
  let ?w = "w\<lparr>wk_pamm_admission := mgr, wk_graph_manager := gm,
      wk_post_processors := initialize_post_processors (we_processors env) d' (wk_post_processors w), wk_initialized := True\<rparr>"
  have "worker_initialize_graph env d d' w = ret ?w"
    by (simp add: worker_initialize_graph_def Let_def base wh gm(1))
  moreover have "same_rules w ?w" by (simp add: same_rules_def)
  moreover have "graph_of env ?m ?w"
    unfolding graph_of_def same_rulesD(1) [OF calculation(2)] using gm(2) tracked adm(1) by simp
  ultimately show thesis using that by simp
qed

subsection \<open>A market event\<close>

lemma admitted_event_finite:
  assumes "quiet_step m e m'" "admitted_event env drops m m' e e'"
  shows "finite (dom (me_added_components (filter_event m' e' f)))"
proof (rule finite_subset)
  show "finite (dom (mk_components m'))" using assms(1) by (simp add: quiet_step_def)
  have "topology_of m' i \<noteq> None" if "me_added_components e' i \<noteq> None" for i
  proof -
    have "me_added_components e i \<noteq> None \<longrightarrow> me_added_components e i = topology_of m' i"
      using assms(1) by (simp add: quiet_step_def event_reports_def)
    then show ?thesis using that assms(2) unfolding admitted_event_def by metis
  qed
  then show "dom (me_added_components (filter_event m' e' f)) \<subseteq> dom (mk_components m')"
    by (fastforce simp: filter_event_fields topology_of_def split: option.splits if_splits)
qed

lemma process_event_of:
  assumes law: "stable_graph (we_graph env)" and ord: "key_order (we_key_order env)"
    and inv: "graph_of env m w" "merged w" and step: "quiet_step m e (md_data d)"
  obtains w' where "process_event env d e w = ret w'" "graph_of env (md_data d) w'" "same_rules w w'"
    "wk_initialized w' = wk_initialized w" "wk_readiness_tracker w' = wk_readiness_tracker w"
proof -
  let ?m = "md_data d" and ?drops = "graph_drops w"
  have base: "mv_base (market_read d) = ?m" by (simp add: market_read_def)
  obtain e' mgr where run: "apply_pamm_admission (we_key_order env) (we_fallback env) (market_read d) ?drops e (wk_pamm_admission w)
      = (e', mgr)" by fastforce
  have "admission_of (we_fallback env) ?drops m (wk_pamm_admission w)" using inv(1) by (simp add: graph_of_def)
  note adm = pamm_admission_step [OF ord this step [folded base] graph_drops_kind run, unfolded base]
  let ?e = "filter_event ?m e' ?drops"
  obtain r gm where gm: "graph_handle_event (we_graph env) ?e (wk_graph_manager w) = ret (r, gm)" "manager_wf (we_graph env) gm"
      "tracked_directions gm = held_after ?e (tracked_directions (wk_graph_manager w))"
    using graph_handle_event_tracked [OF law _ admitted_event_finite [OF step conjunct2 [OF adm]], of "wk_graph_manager w" ?drops] inv(1)
    unfolding graph_of_def held_after_def [abs_def] by blast
  have tracked: "tracked_directions gm = routable (we_fallback env) ?drops ?m"
    using gm(3) inv(1) routable_step [OF step graph_drops_kind conjunct2 [OF adm]] by (simp add: graph_of_def ext)
  have twice: "filter_event ?m (filter_event ?m e' (should_drop_component IncludeExclusive (wk_exclude_protocols w))) ?drops = ?e"
    by (rule filter_event_twice) (rule processor_drops_graph_drops [OF inv(2)])
  have "\<exists>ps. process_event env d e w = ret (w\<lparr>wk_pamm_admission := mgr, wk_graph_manager := gm, wk_post_processors := ps\<rparr>)"
    by (cases "wk_post_processors w = [] \<or> wk_liquidity_scope w = IncludeExclusive \<and> wk_algorithm_exclude_protocols w = []")
      (auto simp: process_event_def Let_def run base twice gm(1))
  then obtain ps where "process_event env d e w = ret (w\<lparr>wk_pamm_admission := mgr, wk_graph_manager := gm, wk_post_processors := ps\<rparr>)"
    by blast
  moreover have "same_rules w (w\<lparr>wk_pamm_admission := mgr, wk_graph_manager := gm, wk_post_processors := ps\<rparr>)"
    by (simp add: same_rules_def)
  moreover have "graph_of env ?m (w\<lparr>wk_pamm_admission := mgr, wk_graph_manager := gm, wk_post_processors := ps\<rparr>)"
    unfolding graph_of_def same_rulesD(1) [OF calculation(2)] using gm(2) tracked adm by simp
  ultimately show thesis using that by simp
qed

subsection \<open>The events of the feeds\<close>

text \<open>A feed reports a change of the market to its subscribers; \<open>sound_market\<close> is what it keeps of the market.\<close>

definition sound_market :: "'s market_state \<Rightarrow> bool" where
  "sound_market m = (finite (dom (mk_components m)) \<and> ids_match m)"

lemma sound_market_cong: "mk_components m' = mk_components m \<Longrightarrow> sound_market m' = sound_market m"
  by (simp add: sound_market_def ids_match_def get_component_def)

lemma sound_upserts:
  assumes "sound_market m" "upsert_components tenv cs m = (m1, u)" "mk_components m' = mk_components m1 |` S"
  shows "sound_market m'"
proof -
  have m1: "get_component m1 = get_component m ++ map_of (rev (map (\<lambda>c. (pc_id c, c)) cs))"
    using get_component_upserts [of tenv cs m "\<lparr>uc_new = [], uc_reshaped = []\<rparr>"] assms(2) by (simp add: upsert_components_def)
  have dom_get: "dom (get_component n) = dom (mk_components n)" for n :: "'a market_state"
    by (auto simp: get_component_def)
  have "finite (dom (mk_components m1))"
    using assms(1) unfolding dom_get [symmetric] m1 by (simp add: sound_market_def dom_get finite_dom_map_of)
  then have "finite (dom (mk_components m'))" by (simp add: assms(3))
  moreover have "get_component m' i = Some c \<Longrightarrow> get_component m1 i = Some c" for i c
    by (auto simp: get_component_def assms(3) restrict_map_def split: if_splits)
  moreover have "pc_id c = i" if "get_component m1 i = Some c" for i c
    using that assms(1) map_of_SomeD [of "rev (map (\<lambda>c. (pc_id c, c)) cs)" i c]
    by (auto simp: m1 map_add_Some_iff sound_market_def ids_match_def)
  ultimately show ?thesis by (auto simp: sound_market_def ids_match_def)
qed

lemma reported_event:
  assumes "me_added_components e = added_topology m' u" "swap_directions_of m' = apply_directions e (swap_directions_of m)"
    and "mk_components m' = comps |` (- set (me_removed_components e))"
  shows "event_reports m e m'"
proof -
  have "dom (added_topology m' u) \<subseteq> set (uc_new u @ uc_reshaped u)" by (auto simp: added_topology_def split: if_splits)
  then have "finite (dom (me_added_components e))" unfolding assms(1) by (rule finite_subset) simp
  then show ?thesis using assms(2) by (auto simp: event_reports_def assms(1,3) added_topology_def get_component_def)
qed

lemma tycho_message_reports:
  assumes "handle_tycho_message tenv lag True msg d = (d', r)" "sound_market (md_data d)"
  obtains reported where "r = Inr reported" "sound_market (md_data d')"
    "\<And>e. reported = Some e \<Longrightarrow> event_reports (md_data d) e (md_data d')"
    "reported = None \<Longrightarrow> swap_directions_of (md_data d') = swap_directions_of (md_data d)"
proof -
  let ?m = "(md_data d)\<lparr>mk_label := decimal (tu_block_number msg)\<rparr>"
  obtain m1 u where up: "upsert_components tenv (map (market_component \<circ> snd) (tu_new_pairs msg)) ?m = (m1, u)"
    by fastforce
  have d': "d' = apply_block_update (tu_block_number msg) (fst \<circ> apply_tycho_update tenv lag msg) d"
    using assms(1) by (simp add: handle_tycho_message_def Let_def)
  have m': "mk_components (md_data d') = mk_components m1 |` (- set (map to_lowercase (tu_removed_pairs msg)))"
    by (simp add: d' apply_block_update_data apply_tycho_update_def up Let_def
        update_states_fields upsert_tokens_fields mk_components_remove_components)
  have "sound_market ?m" using assms(2) sound_market_cong [of ?m "md_data d"] by simp
  then have sound: "sound_market (md_data d')" by (rule sound_upserts [OF _ up m'])
  let ?e = "tycho_event msg (added_topology (md_data d') u)"
  have u: "snd (apply_tycho_update tenv lag msg ?m) = u"
    by (simp add: apply_tycho_update_def up Let_def)
  have r: "r = (if me_added_components ?e \<noteq> Map.empty \<or> me_removed_components ?e \<noteq> []
      \<or> me_updated_components ?e \<noteq> [] then send_event True ?e else Inr None)"
    using assms(1) unfolding handle_tycho_message_def Let_def u d' by simp
  then obtain reported where reported: "r = Inr reported" "\<And>e. reported = Some e \<Longrightarrow> e = ?e"
    by (auto simp: send_event_def split: if_splits)
  note dirs = tycho_message_directions [OF assms(1) [unfolded reported(1)]]
  have "event_reports (md_data d) e (md_data d')" if "reported = Some e" for e
    by (rule reported_event [where u = u and comps = "mk_components m1"])
      (use dirs that reported(2) [OF that] m' in \<open>auto simp: tycho_event_def\<close>)
  then show thesis using that [OF reported(1) sound] dirs by simp
qed

lemma book_update_reports:
  assumes "handle_book_update tenv True update d = (d', r)" "sound_market (md_data d)"
  obtains e where "r = Inr (Some e)" "sound_market (md_data d')" "event_reports (md_data d) e (md_data d')"
proof -
  let ?u = "drop_foreign_components (md_data d) update"
  let ?m = "upsert_tokens (concat (map sc_tokens (bu_added ?u))) (md_data d)"
  obtain m1 up where up: "upsert_components tenv (map market_component (bu_added ?u @ bu_updated ?u)) ?m = (m1, up)"
    by fastforce
  obtain m where m: "apply_book_update tenv ?u (md_data d) = (m, up)"
    and comps: "mk_components m = mk_components m1 |` (- set (bu_removed ?u))"
    unfolding apply_book_update_def Let_def up
    by (simp add: update_states_fields mk_components_remove_components)
  obtain e where e: "r = Inr (Some e)" "me_added_components e = added_topology m up"
      "me_removed_components e = bu_removed ?u" and d': "md_data d' = m"
    using assms(1) by (auto simp: handle_book_update_def Let_def m send_event_def split: if_splits)
  have "sound_market ?m" using assms(2) sound_market_cong [of ?m "md_data d"] by (simp add: upsert_tokens_fields)
  then have sound: "sound_market (md_data d')" unfolding d' by (rule sound_upserts [OF _ up comps])
  have "swap_directions_of m = apply_directions e (swap_directions_of (md_data d))"
    using book_update_directions [OF assms(1) [unfolded e(1)]] d' by simp
  then have "event_reports (md_data d) e (md_data d')" unfolding d' by (rule reported_event [OF e(2)]) (simp add: comps e(3))
  then show thesis using that [OF e(1) sound] by simp
qed

lemma unreported_step:
  assumes ord: "key_order (we_key_order env)" and inv: "graph_of env m w" and kinds: "keeps_kinds m m'" and sound: "sound_market m'"
    and same: "swap_directions_of m' = swap_directions_of m"
  shows "graph_of env m' w"
proof -
  let ?e = "\<lparr>me_added_components = Map.empty, me_removed_components = [], me_updated_components = []\<rparr>"
  let ?v = "\<lparr>mv_base = m', mv_overlay = None\<rparr>"
  have step: "quiet_step m ?e m'"
    using kinds sound same by (simp add: quiet_step_def event_reports_def sound_market_def apply_directions_def)
  have adm: "admission_of (we_fallback env) (graph_drops w) m (wk_pamm_admission w)" using inv by (simp add: graph_of_def)
  have "order {} = [] \<Longrightarrow> apply_pamm_admission order (we_fallback env) ?v (graph_drops w) ?e (wk_pamm_admission w) = (?e, wk_pamm_admission w)"
    for order by (simp add: apply_pamm_admission_def index_apply_event_def Let_def)
  moreover have "set (we_key_order env {}) = {}" using ord unfolding key_order_def by blast
  ultimately have run: "apply_pamm_admission (we_key_order env) (we_fallback env) ?v (graph_drops w) ?e (wk_pamm_admission w)
      = (?e, wk_pamm_admission w)" by simp
  have adm': "admission_of (we_fallback env) (graph_drops w) m' (wk_pamm_admission w)
      \<and> admitted_event (we_fallback env) (graph_drops w) m m' ?e ?e"
    using pamm_admission_step [OF ord adm _ graph_drops_kind run] step by simp
  have "me_added_components (filter_event m' ?e (graph_drops w)) i = None" for i
    by (cases "get_component m' i") (simp_all add: filter_event_fields(2))
  moreover have "held_after (filter_event m' ?e (graph_drops w)) (routable (we_fallback env) (graph_drops w) m) i
      = routable (we_fallback env) (graph_drops w) m' i" for i
    using routable_step [OF step graph_drops_kind conjunct2 [OF adm']] .
  ultimately have "routable (we_fallback env) (graph_drops w) m i = routable (we_fallback env) (graph_drops w) m' i" for i
    by (simp add: held_after_def filter_event_fields(1))
  then have "routable (we_fallback env) (graph_drops w) m = routable (we_fallback env) (graph_drops w) m'" by (rule ext)
  then show ?thesis using inv adm' by (simp add: graph_of_def)
qed

end
