(* ===== verification/WorkerQuote.thy ===== *)
theory WorkerQuote
  imports WorkerGraph
begin

text \<open>
  The quotes of a worker: the routes they carry passed every check, whatever the algorithm and the
  post-processors returned, and answering never panics.
\<close>

section \<open>What a worker quotes\<close>

subsection \<open>What the checks read of a route\<close>

text \<open>Stamping a fallback leg and pinning a commitment leave the bare swaps as they are, and the checks
  read nothing else.\<close>

definition bare :: "'s swap \<Rightarrow> 's swap" where
  "bare s = s\<lparr>sw_committed_amount_out := None, sw_fallback := None\<rparr>"

lemma bare_fields [simp]:
  "sw_token_in (bare s) = sw_token_in s" "sw_token_out (bare s) = sw_token_out s" "sw_split (bare s) = sw_split s"
  "sw_component_id (bare s) = sw_component_id s" "sw_protocol_component (bare s) = sw_protocol_component s"
  "sw_amount_in (bare s) = sw_amount_in s" "sw_amount_out (bare s) = sw_amount_out s" "sw_protocol (bare s) = sw_protocol s"
  by (simp_all add: bare_def)

abbreviation bare_collections :: "(address \<times> 's swap list) list \<Rightarrow> (address \<times> 's swap list) list" where
  "bare_collections cols \<equiv> map (\<lambda>(t, ss). (t, map bare ss)) cols"

lemma find_map: "find P (map f xs) = map_option f (find (P \<circ> f) xs)"
  by (induction xs) simp_all

lemma check_connected_bare: "check_connected (map bare ss) = check_connected ss"
  by (induction ss rule: check_connected.induct) simp_all

lemma check_cycle_bare: "check_cycle a b seen (map bare ss) = check_cycle a b seen ss"
  by (induction ss arbitrary: seen) simp_all

lemma branch_collections_bare: "branch_collections sw_token_in (map bare ss) = bare_collections (branch_collections sw_token_in ss)"
  by (simp add: branch_collections_eq comp_def filter_map)

lemma check_branch_splits_bare: "check_branch_splits x i (map bare ss) = check_branch_splits x i ss"
  by (induction ss arbitrary: x i) simp_all

lemma validate_split_amounts_bare: "validate_split_amounts (bare_collections cols) = validate_split_amounts cols"
proof (induction cols)
  case (Cons c cols)
  obtain t branch where c: "c = (t, branch)" by fastforce
  show ?case
  proof (cases "\<exists>s s' ss. branch = s # s' # ss")
    case True
    then obtain s s' ss where branch: "branch = s # s' # ss" by blast
    have "check_branch_splits (Finite 0) 0 (bare s # bare s' # map bare ss) = check_branch_splits (Finite 0) 0 (s # s' # ss)"
      using check_branch_splits_bare [of "Finite 0" 0 "s # s' # ss"] by (simp del: check_branch_splits.simps)
    then show ?thesis using Cons.IH by (simp add: c branch del: check_branch_splits.simps split: sum.splits)
  next
    case False
    then have "branch = [] \<or> (\<exists>s. branch = [s])" by (metis neq_Nil_conv)
    then show ?thesis using Cons.IH by (auto simp: c)
  qed
qed simp

lemma collection_outputs_bare: "collection_outputs (bare_collections cols) t = collection_outputs cols t"
proof -
  have index: "token_in_to_index (bare_collections cols) = token_in_to_index cols"
    by (simp add: token_in_to_index_def comp_def case_prod_unfold)
  show ?thesis
    using token_in_to_index_Some [of cols t]
    unfolding collection_outputs_def index by (auto simp: case_prod_unfold comp_def split: option.splits)
qed

lemma bfs_loop_bare: "bfs_loop (bare_collections cols) reachable queue = bfs_loop cols reachable queue"
  by (induction cols reachable queue rule: bfs_loop.induct) (simp_all add: collection_outputs_bare split: prod.splits)

lemma check_collection_cycles_bare:
  "check_collection_cycles trip a b earlier (bare_collections cols) = check_collection_cycles trip a b earlier cols"
  by (induction trip a b earlier cols rule: check_collection_cycles.induct) (simp_all add: find_map comp_def Let_def split: option.splits)

lemma validate_bfs_connectivity_bare: "validate_bfs_connectivity (bare_collections cols) = validate_bfs_connectivity cols"
proof (cases cols)
  case (Cons c cs)
  have "bfs_loop (bare_collections cols) {fst c} [fst c] = bfs_loop cols {fst c} [fst c]" by (rule bfs_loop_bare)
  then show ?thesis
    by (simp add: validate_bfs_connectivity_def Cons find_map comp_def case_prod_unfold Let_def split: option.splits)
qed simp

lemma validate_dead_ends_bare:
  "validate_dead_ends (bare_collections cols) (map bare ss) = validate_dead_ends cols ss"
proof -
  have "concat (map snd (bare_collections cols)) = map bare (concat (map snd cols))" by (induction cols) auto
  moreover have "map fst (drop (Suc 0) (bare_collections cols)) = map fst (drop (Suc 0) cols)" by (simp add: drop_map comp_def case_prod_unfold)
  ultimately show ?thesis
    by (auto simp: validate_dead_ends_def Let_def find_map comp_def last_map split: option.splits)
qed

lemma validate_cycles_bare: "validate_cycles (bare_collections cols) (map bare ss) = validate_cycles cols ss"
proof (cases cols)
  case (Cons c cs)
  then show ?thesis using check_collection_cycles_bare [of "fst c = sw_token_out (last ss)" "fst c" "sw_token_out (last ss)" "{}" cols]
    by (cases c) (auto simp: validate_cycles_def Let_def last_map simp del: check_collection_cycles.simps)
qed (auto simp: validate_cycles_def Let_def)

lemma validate_route_bare: "validate_route (r\<lparr>rt_swaps := map bare (rt_swaps r)\<rparr>) = validate_route r"
proof -
  have "is_split (r\<lparr>rt_swaps := map bare (rt_swaps r)\<rparr>) = is_split r" by (simp add: is_split_def list_ex_iff)
  moreover have "validate_split_route (r\<lparr>rt_swaps := map bare (rt_swaps r)\<rparr>) = validate_split_route r"
    by (simp add: validate_split_route_def Let_def branch_collections_bare validate_split_amounts_bare
        validate_bfs_connectivity_bare validate_dead_ends_bare validate_cycles_bare)
  moreover have "validate_sequential_route (r\<lparr>rt_swaps := map bare (rt_swaps r)\<rparr>) = validate_sequential_route r"
    using check_cycle_bare [of _ _ _ "rt_swaps r"]
    by (cases "rt_swaps r") (simp_all add: validate_sequential_route_def check_connected_bare last_map
        check_connected_bare [of "_ # _", simplified] del: check_cycle.simps check_connected.simps)
  ultimately show ?thesis by (simp add: validate_route_def)
qed

definition same_legs :: "'s route \<Rightarrow> 's route \<Rightarrow> bool" where
  "same_legs r r' = (map bare (rt_swaps r') = map bare (rt_swaps r))"

lemma same_legs_refl [simp]: "same_legs r r"
  by (simp add: same_legs_def)

lemma same_legs_trans: "same_legs r r' \<Longrightarrow> same_legs r' r'' \<Longrightarrow> same_legs r r''"
  by (simp add: same_legs_def)

lemma map_bare_fields:
  assumes "map bare ss' = map bare ss" "\<And>s. f (bare s) = f s" shows "map f ss' = map f ss"
proof -
  have "map f (map bare ss') = map f (map bare ss)" using assms(1) by simp
  then show ?thesis using assms(2) by (simp add: comp_def)
qed

lemma list_all_bare:
  assumes "map bare ss' = map bare ss" "\<And>s. P (bare s) = P s" shows "list_all P ss' = list_all P ss"
proof -
  have "list_all id (map P ss') = list_all id (map P ss)" using map_bare_fields [OF assms(1), of P, OF assms(2)] by simp
  then show ?thesis by (simp add: list.pred_map)
qed

lemma validate_route_same:
  assumes "same_legs r r'" shows "validate_route r' = validate_route r"
proof -
  have swaps: "validate_route q = validate_route q'" if "rt_swaps q = rt_swaps q'" for q q' :: "'a route"
    using that by (simp add: validate_route_def is_split_def validate_split_route_def validate_sequential_route_def)
  have "validate_route r' = validate_route (r'\<lparr>rt_swaps := map bare (rt_swaps r')\<rparr>)" by (simp add: validate_route_bare)
  also have "\<dots> = validate_route (r\<lparr>rt_swaps := map bare (rt_swaps r)\<rparr>)"
    by (rule swaps) (use assms in \<open>simp add: same_legs_def\<close>)
  finally show ?thesis by (simp add: validate_route_bare)
qed

lemma route_allowed_same:
  assumes "same_legs r r'" shows "route_allowed d flt constraints r' = route_allowed d flt constraints r"
proof -
  note legs = assms [unfolded same_legs_def]
  have "map (\<lambda>s. (sw_token_in s, sw_token_out s)) (rt_swaps r') = map (\<lambda>s. (sw_token_in s, sw_token_out s)) (rt_swaps r)"
    by (rule map_bare_fields [OF legs]) simp
  then have ends: "(\<lambda>s. (sw_token_in s, sw_token_out s)) ` set (rt_swaps r') = (\<lambda>s. (sw_token_in s, sw_token_out s)) ` set (rt_swaps r)"
    by (metis list.set_map)
  have hops: "hops_avoiding a ss = {(x, y) \<in> (\<lambda>s. (sw_token_in s, sw_token_out s)) ` set ss. y \<noteq> a}" for a and ss :: "'a swap list"
    by (auto simp: hops_avoiding_def image_iff)
  then have "hops_avoiding a (rt_swaps r') = hops_avoiding a (rt_swaps r)" for a by (simp add: hops ends)
  moreover have "list_all (swap_allowed d flt) (rt_swaps r') = list_all (swap_allowed d flt) (rt_swaps r)"
    by (rule list_all_bare [OF legs]) (simp add: swap_allowed_def)
  moreover have "list_all (\<lambda>s. \<not> is_unsynced_pool constraints (sw_component_id s)) (rt_swaps r')
      = list_all (\<lambda>s. \<not> is_unsynced_pool constraints (sw_component_id s)) (rt_swaps r)"
    by (rule list_all_bare [OF legs]) simp
  ultimately show ?thesis by (simp add: route_allowed_def)
qed

lemma same_legs_amounts:
  assumes "same_legs r r'"
  shows "output_token r' = output_token r" "route_amount_out r' t = route_amount_out r t"
    and "no_free_output (rt_swaps r') = no_free_output (rt_swaps r)"
proof -
  note legs = assms [unfolded same_legs_def]
  have outs: "map sw_token_out (rt_swaps r') = map sw_token_out (rt_swaps r)" by (rule map_bare_fields [OF legs]) simp
  then have "(rt_swaps r' = []) = (rt_swaps r = [])" by (metis map_is_Nil_conv)
  then show "output_token r' = output_token r"
    using outs by (auto simp: output_token_def) (metis last_map)
  have pay: "map (\<lambda>s. (sw_token_out s, sw_amount_out s)) (rt_swaps r') = map (\<lambda>s. (sw_token_out s, sw_amount_out s)) (rt_swaps r)"
    by (rule map_bare_fields [OF legs]) simp
  have "route_amount_out q t = sum_list (map snd (filter (\<lambda>x. fst x = t) (map (\<lambda>s. (sw_token_out s, sw_amount_out s)) (rt_swaps q))))"
    for q :: "'a route" by (simp add: route_amount_out_def filter_map comp_def)
  then show "route_amount_out r' t = route_amount_out r t" using pay by metis
  show "no_free_output (rt_swaps r') = no_free_output (rt_swaps r)"
    unfolding no_free_output_def by (rule list_all_bare [OF legs]) simp
qed

lemma ok_or_Inr_iff: "ok_or v e = Inr x \<longleftrightarrow> v = Some x"
  by (simp add: ok_or_def split: option.splits)

subsection \<open>Stamping and pinning\<close>

lemma bare_set_fallback [simp]: "bare (set_fallback leg s) = bare s"
  by (simp add: bare_def set_fallback_def)

lemma map_sum_Inr_iff: "map_sum f g x = Inr y \<longleftrightarrow> (\<exists>z. x = Inr z \<and> y = g z)"
  by (cases x) auto

lemma stamp_fallbacks_bare:
  "stamp_fallbacks select ss = Inr ss' \<Longrightarrow> map bare ss' = map bare ss \<and>
     map sw_committed_amount_out ss' = map sw_committed_amount_out ss"
proof (induction ss arbitrary: ss')
  case (Cons s ss)
  then obtain s' rest where s': "(if take 9 (sw_protocol s) = ''fallback:'' then map_sum id (\<lambda>leg. set_fallback leg s) (select s) else Inr s) = Inr s'"
    and rest: "stamp_fallbacks select ss = Inr rest" "ss' = s' # rest"
    by (auto simp: map_sum_Inr_iff split: sum.splits)
  from s' have "bare s' = bare s" "sw_committed_amount_out s' = sw_committed_amount_out s"
    by (auto simp: map_sum_Inr_iff set_fallback_def bare_def split: if_splits)
  then show ?case using Cons.IH [OF rest(1)] rest(2) by simp
qed simp

lemma has_exclusive_leg_map: "has_exclusive_leg q = list_ex (\<lambda>c. c \<noteq> None) (map sw_committed_amount_out (rt_swaps q))"
  by (simp add: has_exclusive_leg_def list_ex_iff)

lemma price_fallback_legs_Inr:
  assumes "price_fallback_legs env w d order params r = ret (Inr r')"
  shows "same_legs r r'" "has_exclusive_leg r' = has_exclusive_leg r" "has_fallback_leg r' \<Longrightarrow> rt_fallback_amount_out r' \<noteq> None"
proof -
  have "same_legs r r' \<and> has_exclusive_leg r' = has_exclusive_leg r \<and> (has_fallback_leg r' \<longrightarrow> rt_fallback_amount_out r' \<noteq> None)"
  proof (cases "has_fallback_leg r")
    case True
    then obtain v y where y: "price_through_fallbacks (we_sim env) (we_fallback env) v (pk_fallback_pools (wk_pamm_admission w))
        (vp_route_filter params) (wk_algorithm_exclusions w) r = ret y"
      and "(case y of Inr (stamped, amount) \<Rightarrow> Inr (stamped\<lparr>rt_fallback_amount_out := Some amount\<rparr>)
             | Inl e \<Rightarrow> Inl (RouteRejected (od_id order) (rejection e))) = Inr r'"
      using assms by (auto simp: price_fallback_legs_def or_return_Inr_iff bind_eq_Some_conv)
    then obtain a amount where priced: "price_through_fallbacks (we_sim env) (we_fallback env) v (pk_fallback_pools (wk_pamm_admission w))
        (vp_route_filter params) (wk_algorithm_exclusions w) r = ret (Inr (a, amount))"
      and r': "r' = a\<lparr>rt_fallback_amount_out := Some amount\<rparr>" by (cases y) auto
    from priced obtain ss where a: "a = r\<lparr>rt_swaps := ss\<rparr>" and ss: "\<exists>select. stamp_fallbacks select (rt_swaps r) = Inr ss"
      unfolding price_through_fallbacks_def Let_def by (auto simp: or_return_Inr_iff bind_eq_Some_conv)
    note legs = stamp_fallbacks_bare [of _ "rt_swaps r" ss]
    have "has_exclusive_leg r' = has_exclusive_leg r" unfolding has_exclusive_leg_map using ss legs by (auto simp: r' a)
    then show ?thesis using ss legs by (auto simp: r' a same_legs_def)
  next
    case False
    then show ?thesis using assms by (simp add: price_fallback_legs_def)
  qed
  then show "same_legs r r'" "has_exclusive_leg r' = has_exclusive_leg r" "has_fallback_leg r' \<Longrightarrow> rt_fallback_amount_out r' \<noteq> None"
    by blast+
qed

lemma pin_leg_bare: "pin_leg out surplus s = ret (left, s') \<Longrightarrow> bare s' = bare s"
  by (auto simp: pin_leg_def bare_def set_committed_amount_out_def bind_eq_Some_conv Let_def split: if_splits option.splits)

lemma pin_legs_bare: "pin_legs outputs surplus ss = ret ss' \<Longrightarrow> map bare ss' = map bare ss"
proof (induction outputs surplus ss arbitrary: ss' rule: pin_legs.induct)
  case (2 outputs surplus s ss)
  then obtain left s' rest where "pin_leg (case outputs of [] \<Rightarrow> None | out # _ \<Rightarrow> out) surplus s = ret (left, s')"
    "pin_legs (drop 1 outputs) left ss = ret rest" "ss' = s' # rest"
    by (auto simp: bind_eq_Some_conv)
  then show ?case using 2 pin_leg_bare by fastforce
qed simp

lemma pin_commitment_ret:
  assumes "pin_commitment q c = ret q'" "oq_route q = Some r"
  obtains ss where "oq_route q' = Some (r\<lparr>rt_swaps := ss\<rparr>)" "map bare ss = map bare (rt_swaps r)" "c \<le> oq_amount_out q"
    "oq_amount_out q' = c" "oq_surplus q' \<noteq> None" "oq_status q' = oq_status q" "oq_amount_in q' = oq_amount_in q"
    "oq_post_processed_by q' = oq_post_processed_by q" "oq_order_id q' = oq_order_id q" "oq_block q' = oq_block q"
proof -
  obtain ss where ss: "pin_legs (leg_route_outputs r) (oq_amount_out q - c) (rt_swaps r) = ret ss" "c \<le> oq_amount_out q"
    and "\<exists>q2 net gas. set_amount_out (q\<lparr>oq_route := Some (r\<lparr>rt_swaps := ss\<rparr>)\<rparr>) c = ret q2
      \<and> q' = with_surplus (set_amount_out_net_gas q2 net) \<lparr>si_surplus_amount = oq_amount_out q - c, si_committed_amount_out = c\<rparr>"
    using assms by (auto simp: pin_commitment_def bind_eq_Some_conv biguint_sub_def split: if_splits)
  then show thesis using that [of ss] pin_legs_bare [OF ss(1)]
    by (auto simp: set_amount_out_def order_quote_setters bind_eq_Some_conv biguint_sub_def split: if_splits)
qed

subsection \<open>The route a quote carries\<close>

lemma quote_route_Inr:
  assumes "quote_route env d block solved result names route = ret (Inr q)"
  obtains r t where "oq_route q = Some r" "same_legs route r" "rt_fallback_amount_out r = rt_fallback_amount_out route"
    "output_token r = Some t" "oq_amount_out q \<le> route_amount_out r t"
    "rs_commitment result = None \<longrightarrow> oq_amount_out q = route_amount_out r t"
    "oq_surplus q \<noteq> None \<longleftrightarrow> rs_commitment result \<noteq> None" "oq_status q = QSuccess" "oq_amount_in q = od_amount d"
    "oq_post_processed_by q = names" "oq_order_id q = od_id d" "oq_block q = block"
proof -
  have sell: "is_sell d" by (cases "od_side d") (simp add: is_sell_def)
  let ?out = "route_amount_out route"
  let ?q = "\<lambda>t. set_post_processed_by (with_gas_price (with_route (order_quote_new (od_id d) QSuccess (od_amount d) (?out t)
      (total_gas route) (nat (rs_net_amount_out result)) block (ag_name (we_algorithm env)) (od_sender d) (effective_receiver d) solved)
      route) (rs_gas_price result)) names"
  obtain t where t: "output_token route = Some t"
    using assms by (cases "output_token route") (simp_all add: quote_route_def route_amounts_def sell)
  with assms obtain bps q1 where q1: "(case rs_commitment result of None \<Rightarrow> ret (?q t) | Some c \<Rightarrow> pin_route_commitment (?q t) c) = ret q1"
    and q: "q = (case bps of None \<Rightarrow> q1 | Some b \<Rightarrow> with_price_impact_bps q1 b)"
    by (auto simp: quote_route_def route_amounts_def sell bind_eq_Some_conv Let_def)
  show thesis
  proof (cases "rs_commitment result")
    case None
    then have "q1 = ?q t" using q1 by simp
    then show thesis using that [of route t] t None
      by (cases bps) (simp_all add: q order_quote_setters order_quote_new_def)
  next
    case (Some c)
    then have pin: "pin_commitment (?q t) (cm_committed_amount_out c) = ret q1" using q1 by (simp add: pin_route_commitment_def)
    have "oq_route (?q t) = Some route" by (simp add: order_quote_setters)
    from pin_commitment_ret [OF pin this] obtain ss where ss: "oq_route q1 = Some (route\<lparr>rt_swaps := ss\<rparr>)"
      "map bare ss = map bare (rt_swaps route)" "cm_committed_amount_out c \<le> oq_amount_out (?q t)" "oq_amount_out q1 = cm_committed_amount_out c"
      "oq_surplus q1 \<noteq> None" "oq_status q1 = oq_status (?q t)" "oq_amount_in q1 = oq_amount_in (?q t)"
      "oq_post_processed_by q1 = oq_post_processed_by (?q t)" "oq_order_id q1 = oq_order_id (?q t)" "oq_block q1 = oq_block (?q t)" by blast
    have legs: "same_legs route (route\<lparr>rt_swaps := ss\<rparr>)" using ss(2) by (simp add: same_legs_def)
    show thesis
      by (rule that [of "route\<lparr>rt_swaps := ss\<rparr>" t])
        (use ss t legs same_legs_amounts [OF legs] Some in \<open>cases bps; simp add: q order_quote_setters order_quote_new_def\<close>)+
  qed
qed

definition granted_scope :: "('g, 'p) worker \<Rightarrow> solve_params \<Rightarrow> liquidity_scope" where
  "granted_scope w params =
     (case post_process_exclusive_access w params of Granted \<Rightarrow> IncludeExclusive | Denied \<Rightarrow> wk_liquidity_scope w)"

definition processed_by :: "('p, 's, 'v) processor_ops \<Rightarrow> 's route_result \<Rightarrow> bool" where
  "processed_by ops r = (\<exists>p q r0. px_process ops p q r0 = Some r)"

lemma run_loop_processed:
  "run_loop ops q route rest (latest, names) = (Some r, names') \<Longrightarrow> latest = Some r \<or> processed_by ops r"
proof (induction ops q route rest "(latest, names)" arbitrary: latest names rule: run_loop.induct)
  case (4 ops q route name p rest latest names)
  then show ?case by (cases "px_process ops p q (case latest of None \<Rightarrow> route | Some r \<Rightarrow> r)") (auto simp: processed_by_def)
qed auto

lemma run_post_processors_processed:
  "run_post_processors ops paces instances q route = Some z \<Longrightarrow> processed_by ops (pz_route z)"
  using run_loop_processed [of ops q route "zip paces instances" None "[]"]
  by (auto simp: run_post_processors_def split: prod.splits option.splits)

lemma post_process_cases:
  assumes "post_process env w d d' derived paces order params constraints deadline result = ret (result', names)"
  obtains (kept) "result' = result" "names = []"
  | (processed) z r where "names \<noteq> []" "processed_by (we_processors env) z" "result' = z\<lparr>rs_route := r\<rparr>"
      "check_route (rs_route z) order (vp_route_filter params) constraints = ret (Inr ())"
      "check_processed_route w order z (granted_scope w params) = Inr ()"
      "price_fallback_legs env w d' order params (rs_route z) = ret (Inr r)"
proof (cases "wk_post_processors w = []")
  case True
  then show thesis using assms kept by (simp add: post_process_def)
next
  case False
  define request where "request = (post_process_request_new order d derived constraints
      (if post_process_deadline_margin \<le> deadline then deadline - post_process_deadline_margin else deadline))
      \<lparr>pq_label := vp_state_label params,
       pq_pool_drops := Some (should_drop_component (granted_scope w params) (wk_exclude_protocols w)),
       pq_exclusive_access := post_process_exclusive_access w params\<rparr>"
  let ?run = "run_post_processors (we_processors env) paces (wk_post_processors w) request result"
  note run = assms [unfolded post_process_def Let_def granted_scope_def [symmetric] request_def [symmetric]]
  show thesis
  proof (cases ?run)
    case None
    then show thesis using run False kept by simp
  next
    case (Some z)
    note named = processed_route_named [OF Some] and made = run_post_processors_processed [OF Some]
    obtain checked where c: "check_route (rs_route (pz_route z)) order (vp_route_filter params) constraints = ret checked"
      using run False Some by (auto simp: bind_eq_Some_conv)
    show thesis
    proof (cases "checked = Inr () \<and> check_processed_route w order (pz_route z) (granted_scope w params) = Inr ()")
      case True
      then obtain priced where p: "price_fallback_legs env w d' order params (rs_route (pz_route z)) = ret priced"
        and out: "(result', names) = (case priced of Inl _ \<Rightarrow> (result, [])
            | Inr r \<Rightarrow> ((pz_route z)\<lparr>rs_route := r\<rparr>, pz_post_processed_by z))"
        using run False Some c by (auto simp: bind_eq_Some_conv)
      show thesis
        using out kept processed [of "pz_route z"] named made c p True by (cases priced) auto
    next
      case False
      then obtain e where "(case checked of Inl e \<Rightarrow> Inl e | Inr _ \<Rightarrow> check_processed_route w order (pz_route z) (granted_scope w params)) = Inl e"
        by (cases checked; cases "check_processed_route w order (pz_route z) (granted_scope w params)") auto
      then have "(result', names) = (result, [])" using run \<open>wk_post_processors w \<noteq> []\<close> Some c by simp
      then show thesis using kept by simp
    qed
  qed
qed

subsection \<open>Every quote is admissible\<close>

definition admissible_quote ::
  "('g, 'p) worker \<Rightarrow> order \<Rightarrow> solve_params \<Rightarrow> resolved_route_constraints \<Rightarrow> 's order_quote \<Rightarrow> bool" where
  "admissible_quote w d params constraints q =
     (\<exists>r t. oq_route q = Some r \<and> validate_route r = ret (Inr ())
        \<and> route_allowed d (vp_route_filter params) constraints r
        \<and> (has_fallback_leg r \<longrightarrow> rt_fallback_amount_out r \<noteq> None)
        \<and> oq_status q = QSuccess \<and> oq_order_id q = od_id d \<and> oq_amount_in q = od_amount d
        \<and> output_token r = Some t \<and> oq_amount_out q \<le> route_amount_out r t
        \<and> (oq_surplus q = None \<longrightarrow> oq_amount_out q = route_amount_out r t)
        \<and> (oq_post_processed_by q \<noteq> [] \<longrightarrow>
             list_all (\<lambda>s. \<not> should_drop_component (granted_scope w params) (wk_exclude_protocols w) (sw_protocol_component s)) (rt_swaps r)
             \<and> (wk_liquidity_scope w = PublicOnly \<and> routes_through_exclusive (rt_swaps r) \<longrightarrow> oq_surplus q \<noteq> None)))"

lemma has_fallback_leg_same:
  assumes "same_legs r r'" shows "has_fallback_leg r' = has_fallback_leg r"
proof -
  have "has_fallback_leg q = (\<not> list_all (\<lambda>s. take 9 (sw_protocol s) \<noteq> ''fallback:'') (rt_swaps q))" for q :: "'a route"
    by (simp add: has_fallback_leg_def list_ex_iff list_all_iff)
  moreover have "list_all (\<lambda>s. take 9 (sw_protocol s) \<noteq> ''fallback:'') (rt_swaps r')
      = list_all (\<lambda>s. take 9 (sw_protocol s) \<noteq> ''fallback:'') (rt_swaps r)"
    by (rule list_all_bare [OF assms [unfolded same_legs_def]]) simp
  ultimately show ?thesis by simp
qed

lemma routes_through_exclusive_same:
  assumes "same_legs r r'" shows "routes_through_exclusive (rt_swaps r') = routes_through_exclusive (rt_swaps r)"
proof -
  have "routes_through_exclusive q = (\<not> list_all (\<lambda>s. \<not> is_exclusive_leg s) q)" for q :: "'a swap list"
    by (simp add: routes_through_exclusive_def list_ex_iff list_all_iff)
  moreover have "list_all (\<lambda>s. \<not> is_exclusive_leg s) (rt_swaps r') = list_all (\<lambda>s. \<not> is_exclusive_leg s) (rt_swaps r)"
    by (rule list_all_bare [OF assms [unfolded same_legs_def]]) (simp add: is_exclusive_leg_def)
  ultimately show ?thesis by simp
qed

lemma check_processed_route_Inr:
  assumes "check_processed_route w d z scope = Inr ()"
  shows "list_all (\<lambda>s. \<not> should_drop_component scope (wk_exclude_protocols w) (sw_protocol_component s)) (rt_swaps (rs_route z))"
    and "wk_liquidity_scope w = PublicOnly \<Longrightarrow> routes_through_exclusive (rt_swaps (rs_route z)) \<Longrightarrow> rs_commitment z \<noteq> None"
    and "rs_commitment z = Some c \<Longrightarrow> output_token (rs_route z) = Some t \<Longrightarrow> cm_committed_amount_out c \<le> route_amount_out (rs_route z) t"
    and "output_token (rs_route z) = Some t \<Longrightarrow> rs_net_amount_out z \<le> int (route_amount_out (rs_route z) t)"
proof -
  have sell: "is_sell d" by (cases "od_side d") (simp add: is_sell_def)
  have "check_all (\<lambda>s. if should_drop_component scope (wk_exclude_protocols w) (sw_protocol_component s)
      then Inl (UsesDroppedComponent (sw_component_id s)) else Inr ()) (rt_swaps (rs_route z)) = Inr ()"
    and commitment: "check_commitment w d z = Inr ()"
    using assms by (auto simp: check_processed_route_def Let_def split: sum.splits)
  then show "list_all (\<lambda>s. \<not> should_drop_component scope (wk_exclude_protocols w) (sw_protocol_component s)) (rt_swaps (rs_route z))"
    by (auto simp: check_all_Inr list_all_iff split: if_splits)
  show "rs_commitment z \<noteq> None" if "wk_liquidity_scope w = PublicOnly" "routes_through_exclusive (rt_swaps (rs_route z))"
    using commitment that by (cases "rs_commitment z") (simp_all add: check_commitment_def Let_def)
  show "cm_committed_amount_out c \<le> route_amount_out (rs_route z) t" if "rs_commitment z = Some c" "output_token (rs_route z) = Some t"
    using commitment that by (auto simp: check_commitment_def Let_def split: if_splits)
  show "rs_net_amount_out z \<le> int (route_amount_out (rs_route z) t)" if "output_token (rs_route z) = Some t"
    using assms that sell by (auto simp: check_processed_route_def Let_def split: sum.splits if_splits)
qed

lemma admissible_route:
  assumes checked: "check_route r0 d (vp_route_filter params) constraints = ret (Inr ())"
    and legs: "same_legs r0 route" and priced: "has_fallback_leg route \<Longrightarrow> rt_fallback_amount_out route \<noteq> None"
    and quoted: "quote_route env d block solved result names route = ret (Inr q)"
    and processed: "names \<noteq> [] \<Longrightarrow> rs_commitment result = rs_commitment z \<and> rs_route z = r0
      \<and> check_processed_route w d z (granted_scope w params) = Inr ()"
  shows "admissible_quote w d params constraints q \<and> oq_block q = block"
proof -
  obtain r t where r: "oq_route q = Some r" "same_legs route r" "rt_fallback_amount_out r = rt_fallback_amount_out route"
    "output_token r = Some t" "oq_amount_out q \<le> route_amount_out r t"
    "rs_commitment result = None \<longrightarrow> oq_amount_out q = route_amount_out r t"
    "oq_surplus q \<noteq> None \<longleftrightarrow> rs_commitment result \<noteq> None" "oq_status q = QSuccess" "oq_amount_in q = od_amount d"
    "oq_post_processed_by q = names" "oq_order_id q = od_id d" "oq_block q = block"
    by (rule quote_route_Inr [OF quoted])
  have same: "same_legs r0 r" by (rule same_legs_trans [OF legs r(2)])
  have ok: "validate_route r = ret (Inr ())" "route_allowed d (vp_route_filter params) constraints r"
    using checked by (simp_all add: check_route_iff validate_route_same [OF same] route_allowed_same [OF same])
  moreover have "has_fallback_leg r \<Longrightarrow> rt_fallback_amount_out r \<noteq> None"
    using priced by (simp add: has_fallback_leg_same [OF r(2)] r(3))
  moreover have "list_all (\<lambda>s. \<not> should_drop_component (granted_scope w params) (wk_exclude_protocols w) (sw_protocol_component s)) (rt_swaps r)
      \<and> (wk_liquidity_scope w = PublicOnly \<and> routes_through_exclusive (rt_swaps r) \<longrightarrow> oq_surplus q \<noteq> None)" if "names \<noteq> []"
  proof -
    note z = processed [OF that]
    have "list_all (\<lambda>s. \<not> should_drop_component (granted_scope w params) (wk_exclude_protocols w) (sw_protocol_component s)) (rt_swaps r)
        = list_all (\<lambda>s. \<not> should_drop_component (granted_scope w params) (wk_exclude_protocols w) (sw_protocol_component s)) (rt_swaps r0)"
      by (rule list_all_bare [OF same [unfolded same_legs_def]]) simp
    then show ?thesis using z r(7) check_processed_route_Inr(1,2) [of w d z "granted_scope w params"]
      by (auto simp: routes_through_exclusive_same [OF same])
  qed
  moreover have "oq_surplus q = None \<Longrightarrow> oq_amount_out q = route_amount_out r t" using r(6,7) by simp
  ultimately show ?thesis
    unfolding admissible_quote_def by (intro conjI exI [of _ r] exI [of _ t]) (use r in simp_all)
qed

lemma quote_result_admissible:
  assumes "quote_result env w x d params deadline constraints block solved result = ret (Inr q)"
  shows "admissible_quote w d params constraints q \<and> oq_block q = block"
proof -
  from assms obtain checked where c: "check_route (rs_route result) d (vp_route_filter params) constraints = ret checked"
    by (auto simp: quote_result_def bind_eq_Some_conv)
  then have checked: "check_route (rs_route result) d (vp_route_filter params) constraints = ret (Inr ())"
    using assms by (cases checked) (simp_all add: quote_result_def)
  from assms obtain result' names route where
    post: "post_process env w (xc_reads x 4) (xc_reads x 5) (xc_derived x) (xc_paces x) d params constraints deadline result = ret (result', names)"
    and route: "(if names = [] then price_fallback_legs env w (xc_reads x 6) d params (rs_route result')
                      else ret (Inr (rs_route result'))) = ret (Inr route)"
    and quoted: "quote_route env d block solved result' names route = ret (Inr q)"
    by (auto simp: quote_result_def checked bind_eq_Some_conv or_return_Inr_iff)
  from post show ?thesis
  proof (cases rule: post_process_cases)
    case kept
    with route have p: "price_fallback_legs env w (xc_reads x 6) d params (rs_route result) = ret (Inr route)" by simp
    show ?thesis
      by (rule admissible_route [OF checked price_fallback_legs_Inr(1,3) [OF p] quoted]) (simp_all add: kept)
  next
    case (processed z r)
    with route have "route = r" by simp
    show ?thesis
      by (rule admissible_route [OF processed(4) price_fallback_legs_Inr(1,3) [OF processed(6)] quoted [unfolded \<open>route = r\<close>], where z = z])
        (simp_all add: processed)
  qed
qed

text \<open>C40: Whatever the algorithm and the post-processors return, a quote the worker answers with carries a route
  that validates, that respects the filter and the constraints resolved for the request, and whose legs that trade
  through a fallback are priced. It succeeds for the order's id and amount, at the block of the market it was read
  from, and promises no more than the route pays. When post-processors made the route, it uses no component the pool
  leaves out for this caller, and a public-only pool commits to an amount whenever it holds an exclusive leg.\<close>

theorem worker_quotes_admissible:
  assumes "quote env x d params deadline w = ret (Inr q, w')"
  shows "\<exists>v b. read_market (xc_reads x 2) (vp_state_label params) = Inr v \<and> mk_last_updated (mv_base v) = Some b
    \<and> oq_block (so_order q) = b
    \<and> admissible_quote w' d params (fst (resolve_constraints v (vp_route_filter params) (vp_constraint_cache params))) (so_order q)"
proof -
  from assms have "solve_order_for env w' x d params deadline = ret (Inr q)"
    by (auto simp: quote_def bind_eq_Some_conv split: if_splits)
  then obtain v b solved found where v: "read_market (xc_reads x 2) (vp_state_label params) = Inr v" "mk_last_updated (mv_base v) = Some b"
    and found: "(case found of
        Inl e \<Rightarrow> ret (Inl (solve_error_from_algorithm_error (od_id d) (od_amount d) e))
      | Inr result \<Rightarrow> do {
          q \<leftarrow> quote_result env w' x d params deadline
            (fst (resolve_constraints v (vp_route_filter params) (vp_constraint_cache params))) b solved result;
          or_return q (\<lambda>q. ret (Inr \<lparr>so_order = q, so_solve_time_ms = xc_solve_time_ms x\<rparr>))
        }) = ret (Inr q)"
    by (auto simp: solve_order_for_def ok_or_Inr_iff or_return_Inr_iff bind_eq_Some_conv Let_def)
  show ?thesis
  proof (cases found)
    case (Inr result)
    then obtain q' where q': "quote_result env w' x d params deadline
        (fst (resolve_constraints v (vp_route_filter params) (vp_constraint_cache params))) b solved result = ret (Inr q')"
      "q = \<lparr>so_order = q', so_solve_time_ms = xc_solve_time_ms x\<rparr>"
      using found by (auto simp: bind_eq_Some_conv or_return_Inr_iff)
    then show ?thesis using v quote_result_admissible [OF q'(1)] by simp
  qed (use found in simp)
qed

subsection \<open>Answering does not panic\<close>

lemma replay_route_no_panic [no_panic]: "replay_route sim r m \<noteq> panic"
  unfolding replay_route_def simulate_swaps_def Let_def by (intro no_panic simulate_each_no_panic)

lemma check_route_no_panic [no_panic]: "check_route r d flt constraints \<noteq> panic"
  unfolding check_route_def by (intro no_panic validate_route_no_panic)

lemma price_fallback_legs_no_panic [no_panic]: "price_fallback_legs env w d order params r \<noteq> panic"
  unfolding price_fallback_legs_def price_through_fallbacks_def Let_def by (intro no_panic)

lemma post_process_no_panic [no_panic]:
  "post_process env w d d' derived paces order params constraints deadline result \<noteq> panic"
  unfolding post_process_def Let_def by (intro no_panic)

lemma route_price_impact_bps_no_panic:
  "(\<And>s a b. pm_spot_price (we_sim env) s a b \<noteq> panic) \<Longrightarrow> route_price_impact_bps env r amount_in amount_out \<noteq> panic"
  unfolding route_price_impact_bps_def route_price_impact_def spot_leg_of_def Let_def by (intro no_panic)

text \<open>What the worker relies on: the algorithm and the spot prices of the pools do not panic, an algorithm
  commits to nothing, and a post-processor commits to at least the gas cost, on legs without output for free
  that hold no commitment yet.\<close>

definition pinnable :: "'s route_result \<Rightarrow> bool" where
  "pinnable z =
     (\<forall>c t. rs_commitment z = Some c \<longrightarrow> output_token (rs_route z) = Some t \<longrightarrow>
        route_amount_out (rs_route z) t \<le> cm_committed_amount_out c + nat (rs_net_amount_out z)
        \<and> no_free_output (rt_swaps (rs_route z)) \<and> \<not> has_exclusive_leg (rs_route z))"

definition well_behaved :: "('g, 'd, 's, 'v, 'p) worker_env \<Rightarrow> bool" where
  "well_behaved env =
     ((\<forall>request. case ag_find_best_route (we_algorithm env) request of
          None \<Rightarrow> False | Some (Inl _) \<Rightarrow> True | Some (Inr result) \<Rightarrow> rs_commitment result = None)
      \<and> (\<forall>s a b. pm_spot_price (we_sim env) s a b \<noteq> panic)
      \<and> (\<forall>p q r. case px_process (we_processors env) p q r of None \<Rightarrow> True | Some z \<Rightarrow> pinnable z))"

lemma well_behavedD:
  assumes "well_behaved env"
  shows "ag_find_best_route (we_algorithm env) request \<noteq> panic"
    and "ag_find_best_route (we_algorithm env) request = ret (Inr result) \<Longrightarrow> rs_commitment result = None"
    and "pm_spot_price (we_sim env) s a b \<noteq> panic"
    and "processed_by (we_processors env) z \<Longrightarrow> pinnable z"
proof -
  have request: "case ag_find_best_route (we_algorithm env) request of
          None \<Rightarrow> False | Some (Inl _) \<Rightarrow> True | Some (Inr result) \<Rightarrow> rs_commitment result = None" for request
    using assms unfolding well_behaved_def by blast
  show "ag_find_best_route (we_algorithm env) request \<noteq> panic" using request [of request] by (cases "ag_find_best_route (we_algorithm env) request") auto
  show "rs_commitment result = None" if "ag_find_best_route (we_algorithm env) request = ret (Inr result)"
    using request [of request] that by simp
  show "pm_spot_price (we_sim env) s a b \<noteq> panic" using assms unfolding well_behaved_def by blast
  have "case px_process (we_processors env) p q r of None \<Rightarrow> True | Some z \<Rightarrow> pinnable z" for p q r
    using assms unfolding well_behaved_def by blast
  then show "pinnable z" if "processed_by (we_processors env) z" using that unfolding processed_by_def by (metis option.simps(5))
qed

lemma quote_route_no_panic:
  assumes "well_behaved env"
    and "\<And>c t. rs_commitment result = Some c \<Longrightarrow> output_token route = Some t \<Longrightarrow>
      cm_committed_amount_out c \<le> route_amount_out route t \<and> nat (rs_net_amount_out result) \<le> route_amount_out route t
      \<and> route_amount_out route t \<le> cm_committed_amount_out c + nat (rs_net_amount_out result)
      \<and> no_free_output (rt_swaps route) \<and> \<not> has_exclusive_leg route"
  shows "quote_route env d block solved result names route \<noteq> panic"
proof (cases "output_token route")
  case None
  then show ?thesis by (cases "od_side d") (simp add: quote_route_def route_amounts_def is_sell_def)
next
  case (Some t)
  have sell: "is_sell d" by (cases "od_side d") (simp add: is_sell_def)
  let ?q = "set_post_processed_by (with_gas_price (with_route (order_quote_new (od_id d) QSuccess (od_amount d) (route_amount_out route t)
      (total_gas route) (nat (rs_net_amount_out result)) block (ag_name (we_algorithm env)) (od_sender d) (effective_receiver d) solved)
      route) (rs_gas_price result)) names"
  have q: "oq_amount_out ?q = route_amount_out route t" "oq_amount_out_net_gas ?q = nat (rs_net_amount_out result)" "oq_route ?q = Some route"
    by (simp_all add: order_quote_setters order_quote_new_def)
  have "pin_route_commitment ?q c \<noteq> panic" if "rs_commitment result = Some c" for c
  proof -
    note ok = assms(2) [OF that Some]
    have "\<exists>q'. pin_commitment ?q (cm_committed_amount_out c) = ret q'"
      using pin_commitment_ok [of ?q "cm_committed_amount_out c"] ok by (fastforce simp: q net_le_out_def)
    then show ?thesis by (auto simp: pin_route_commitment_def)
  qed
  then have "(case rs_commitment result of None \<Rightarrow> ret ?q | Some c \<Rightarrow> pin_route_commitment ?q c) \<noteq> panic"
    by (simp split: option.splits)
  then show ?thesis
    using route_price_impact_bps_no_panic [OF well_behavedD(3) [OF assms(1)], of route "od_amount d" "route_amount_out route t"]
    by (auto simp: quote_route_def route_amounts_def sell Some Let_def)
qed

lemma quote_result_no_panic:
  assumes "well_behaved env" "rs_commitment result = None"
  shows "quote_result env w x d params deadline constraints block solved result \<noteq> panic"
proof -
  have "quote_route env d block solved result' names route \<noteq> panic"
    if post: "post_process env w (xc_reads x 4) (xc_reads x 5) (xc_derived x) (xc_paces x) d params constraints deadline result
        = ret (result', names)"
      and route: "(if names = [] then price_fallback_legs env w (xc_reads x 6) d params (rs_route result')
                      else ret (Inr (rs_route result'))) = ret (Inr route)" for result' names route
    using post
  proof (cases rule: post_process_cases)
    case kept
    then show ?thesis using assms by (intro quote_route_no_panic) simp_all
  next
    case (processed z r)
    with route have "route = r" by simp
    note legs = price_fallback_legs_Inr(1) [OF processed(6)] and held = price_fallback_legs_Inr(2) [OF processed(6)]
    show ?thesis
    proof (rule quote_route_no_panic [OF assms(1)])
      fix c t assume "rs_commitment result' = Some c" "output_token route = Some t"
      then have c: "rs_commitment z = Some c" "output_token (rs_route z) = Some t"
        using processed(3) same_legs_amounts(1) [OF legs] \<open>route = r\<close> by simp_all
      show "cm_committed_amount_out c \<le> route_amount_out route t \<and> nat (rs_net_amount_out result') \<le> route_amount_out route t
        \<and> route_amount_out route t \<le> cm_committed_amount_out c + nat (rs_net_amount_out result')
        \<and> no_free_output (rt_swaps route) \<and> \<not> has_exclusive_leg route"
        using well_behavedD(4) [OF assms(1) processed(2)] check_processed_route_Inr(3) [OF processed(5) c]
          check_processed_route_Inr(4) [OF processed(5) c(2)] c
        by (simp add: pinnable_def processed(3) \<open>route = r\<close> same_legs_amounts [OF legs] held nat_le_iff)
    qed
  qed
  then show ?thesis unfolding quote_result_def by (intro no_panic) blast
qed

lemma solve_order_for_no_panic:
  assumes "well_behaved env" shows "solve_order_for env w x d params deadline \<noteq> panic"
  unfolding solve_order_for_def Let_def
  by (intro no_panic well_behavedD(1) [OF assms] quote_result_no_panic [OF assms] well_behavedD(2) [OF assms]) simp_all

lemma quote_returns:
  assumes "well_behaved env" "wk_initialized w"
  obtains answer where "quote env x d params deadline w = ret (answer, w)"
proof -
  obtain answer where "solve_order_for env w x d params deadline = ret answer"
    using solve_order_for_no_panic [OF assms(1), of w x d params deadline] by auto
  then have "\<exists>answer. quote env x d params deadline w = ret (answer, w)" using assms(2) by (simp add: quote_def)
  then show thesis using that by blast
qed

subsection \<open>A worker on a list graph\<close>

text \<open>The example: the graph library as lists in which a removed edge leaves a hole, an algorithm that knows one route
  and no post-processor.\<close>

type_synonym list_graph = "address list \<times> (nat \<times> nat \<times> unit edge_data) option list"

definition list_graph_ops :: "(list_graph, unit) graph_ops" where
  "list_graph_ops =
     \<lparr>gp_empty = ([], []),
      gp_node = (\<lambda>(ns, _) i. if i < length ns then Some (ns ! i) else None),
      gp_edge = (\<lambda>(_, es) i. if i < length es then es ! i else None),
      gp_edge_indices = (\<lambda>(_, es). filter (\<lambda>i. es ! i \<noteq> None) [0..<length es]),
      gp_add_node = (\<lambda>a (ns, es). (length ns, ns @ [a], es)),
      gp_add_edge = (\<lambda>i j w (ns, es).
        if i < length ns \<and> j < length ns then ret (length es, ns, es @ [Some (i, j, w)]) else panic),
      gp_remove_edge = (\<lambda>e (ns, es). (ns, es[e := None])),
      gp_set_weight = (\<lambda>e w (ns, es).
        (ns, if e < length es then es[e := map_option (\<lambda>(i, j, _). (i, j, w)) (es ! e)] else es))\<rparr>"

lemma stable_list_graph: "stable_graph list_graph_ops"
  by (auto simp: stable_graph_def list_graph_ops_def fun_eq_iff nth_append nth_list_update split: option.splits)

definition example_worker_route :: "unit route" where
  "example_worker_route = \<lparr>rt_swaps = [example_swap ''A'' ''B'' 10 40], rt_tokens = Map.empty, rt_fallback_amount_out = None\<rparr>"

definition example_worker_env :: "(list_graph, unit, unit, unit, unit) worker_env" where
  "example_worker_env =
     \<lparr>we_graph = list_graph_ops, we_key_order = sorted_list_of_set, we_fallback = example_fallback_env,
      we_sim = \<lparr>pm_get_amount_out = (\<lambda>_ n _ _. ret (Inr \<lparr>ao_amount = 4 * n, ao_gas = 1, ao_new_state = ()\<rparr>)),
                pm_spot_price = (\<lambda>_ _ _. ret (Inr (Finite 4))), pm_show_address = id, pm_panic_message = (\<lambda>_ _ _ _. [])\<rparr>,
      we_algorithm = \<lparr>ag_name = ''one'', ag_supports_required_tokens = False, ag_computation_requirements = requirements_none,
                      ag_timeout = 100, ag_find_best_route = (\<lambda>_. ret (Inr (route_result_new example_worker_route 38 2)))\<rparr>,
      we_processors = \<lparr>px_initialize = (\<lambda>_ p. p), px_handle_event = (\<lambda>_ p. (Inr (), p)), px_process = (\<lambda>_ _ _. None)\<rparr>,
      we_ten_to = (\<lambda>_. Finite 1), we_weight = (\<lambda>_ _ _ _ _. None), we_weight_inputs = []\<rparr>"

lemma example_worker_env_laws:
  "stable_graph (we_graph example_worker_env)" "key_order (we_key_order example_worker_env)" "well_behaved example_worker_env"
  by (simp_all add: example_worker_env_def stable_list_graph key_order_def well_behaved_def route_result_new_def)

definition example_sell :: order where
  "example_sell = \<lparr>od_id = ''o1'', od_token_in = ''A'', od_token_out = ''B'', od_amount = 10, od_side = Sell, od_sender = ''s'',
     od_receiver = None\<rparr>"

definition example_solve_params :: solve_params where
  "example_solve_params = \<lparr>vp_state_label = None, vp_route_filter = no_constraints, vp_exclusive_access = Denied, vp_constraint_cache = None\<rparr>"

definition example_read :: "unit market_data" where
  "example_read = \<lparr>md_data = market_state_new\<lparr>mk_last_updated := Some \<lparr>bi_number = 7, bi_hash = ''h'', bi_timestamp = 1\<rparr>\<rparr>, md_overlays = Map.empty\<rparr>"

definition example_surroundings :: "(unit, unit) surroundings" where
  "example_surroundings = \<lparr>xc_reads = (\<lambda>_. example_read), xc_derived = (), xc_paces = [], xc_solve_time_ms = 3\<rparr>"

definition example_worker :: "(list_graph, unit) worker" where
  "example_worker = (worker_new example_worker_env 0 ''pool'')\<lparr>wk_initialized := True\<rparr>"

lemma example_checked:
  "check_route example_worker_route example_sell no_constraints
     (fst (resolve_constraints (market_read example_read) no_constraints None)) = ret (Inr ())"
  unfolding check_route_iff
  by (auto simp: example_worker_route_def example_swap_def swap_new_def validate_route_def is_split_def validate_sequential_route_def
      route_allowed_def swap_allowed_def no_constraints_def resolve_constraints_def Let_def example_read_def market_read_def
      resolve_route_filter_def market_state_new_def is_unsynced_pool_def example_component_def)

theorem worker_quotes_admissible_witness:
  "\<exists>q w'. quote example_worker_env example_surroundings example_sell example_solve_params 1000 example_worker = ret (Inr q, w')
    \<and> admissible_quote w' example_sell example_solve_params
        (fst (resolve_constraints (market_read example_read) no_constraints None)) (so_order q)
    \<and> oq_block (so_order q) = \<lparr>bi_number = 7, bi_hash = ''h'', bi_timestamp = 1\<rparr>"
proof -
  obtain bps where bps: "route_price_impact_bps example_worker_env example_worker_route 10 40 = ret bps"
    using route_price_impact_bps_no_panic [OF well_behavedD(3) [OF example_worker_env_laws(3)]] by (metis not_None_eq)
  have route: "output_token example_worker_route = Some ''B''" "route_amount_out example_worker_route ''B'' = 40"
      "\<not> has_fallback_leg example_worker_route" "od_amount example_sell = 10" "is_sell example_sell"
    by (simp_all add: example_worker_route_def output_token_def route_amount_out_def has_fallback_leg_def example_swap_def swap_new_def
        example_sell_def is_sell_def)
  have read: "read_market (xc_reads example_surroundings 2) (vp_state_label example_solve_params) = Inr (market_read example_read)"
    "mk_last_updated (mv_base (market_read example_read)) = Some \<lparr>bi_number = 7, bi_hash = ''h'', bi_timestamp = 1\<rparr>"
    by (simp_all add: read_market_def example_surroundings_def example_solve_params_def market_read_def example_read_def)
  have params: "vp_route_filter example_solve_params = no_constraints" "vp_constraint_cache example_solve_params = None"
    "rc_required_tokens no_constraints = {}"
    by (simp_all add: example_solve_params_def no_constraints_def)
  have worker: "wk_initialized example_worker" "wk_post_processors example_worker = []"
    "\<not> has_requirements (rk_requirements (wk_readiness_tracker example_worker))"
    by (simp_all add: example_worker_def worker_new_def tracker_new_def example_worker_env_def requirements_none_def has_requirements_def)
  have found: "ag_find_best_route (we_algorithm example_worker_env) request = ret (Inr (route_result_new example_worker_route 38 2))" for request
    by (simp add: example_worker_env_def)
  have "\<exists>q. solve_order_for example_worker_env example_worker example_surroundings example_sell example_solve_params 1000 = ret (Inr q)"
    by (simp add: solve_order_for_def read ok_or_def found quote_result_def params route_result_new_def example_checked post_process_def worker
        price_fallback_legs_def route quote_route_def route_amounts_def bps Let_def)
  then obtain q where q: "quote example_worker_env example_surroundings example_sell example_solve_params 1000 example_worker = ret (Inr q, example_worker)"
    by (auto simp: quote_def params worker)
  show ?thesis using worker_quotes_admissible [OF q] q read params by auto
qed

end
