(* ===== verification/WorkerRun.thy ===== *)
theory WorkerRun
  imports WorkerQuote
begin

text \<open>
  The loop of a worker: it answers every task it takes up, once and in order, and its graph follows
  the market through any interleaving of feed messages, derived data and tasks.
\<close>

section \<open>Runs of a worker\<close>

subsection \<open>Waiting for derived data\<close>

text \<open>The tracker does not change while the worker waits, so the wait ends as it began: a task that is taken up
  before the derived data is ready is never solved, however often the worker is woken.\<close>

declare wait_loop.simps [simp del]

lemma wait_loop_ready: "wait_loop t deadline now wakes = Inr () \<longleftrightarrow> is_ready t"
  by (induction wakes arbitrary: now; subst wait_loop.simps) auto

lemma wait_until_ready_iff:
  "wait_until_ready t timeout now wakes = Inr () \<longleftrightarrow> \<not> has_requirements (rk_requirements t) \<or> is_ready t"
  by (simp add: wait_until_ready_def wait_loop_ready)

lemma task_budget_Some:
  "task_budget timeout deadline now = Some b \<longleftrightarrow> now < deadline \<and> b = min timeout (deadline - now)"
  by (auto simp: task_budget_def)

subsection \<open>Every task is answered\<close>

definition loop_wf :: "('g, 'd, 's, 'v, 'p) worker_env \<Rightarrow> ('g, 's, 'p) worker_loop \<Rightarrow> bool" where
  "loop_wf env l = (manager_wf (we_graph env) (wk_graph_manager (wl_worker l)) \<and> wk_initialized (wl_worker l))"

fun finite_input :: "('s, 'v, 'f) worker_input \<Rightarrow> bool" where
  "finite_input (MarketEventReceived e d) = (finite (dom (me_added_components e)) \<and> finite (dom (mk_components (md_data d))))"
| "finite_input (MarketEventsLagged d _) = finite (dom (mk_components (md_data d)))"
| "finite_input _ = True"

fun stops :: "('s, 'v, 'f) worker_input \<Rightarrow> bool" where
  "stops ShutdownReceived = True"
| "stops MarketEventsClosed = True"
| "stops TasksClosed = True"
| "stops _ = False"

fun task_of :: "('s, 'v, 'f) worker_input \<Rightarrow> string list" where
  "task_of (TaskReceived task _ _ _ _) = [tq_id task]"
| "task_of _ = []"

lemma update_weights_returns:
  assumes "stable_graph (we_graph env)" "manager_wf (we_graph env) (wk_graph_manager (wl_worker l))"
  obtains gm where "update_weights env d derived l = ret (l\<lparr>wl_worker := (wl_worker l)\<lparr>wk_graph_manager := gm\<rparr>\<rparr>)"
    "manager_wf (we_graph env) gm" "tracked_directions gm = tracked_directions (wk_graph_manager (wl_worker l))"
proof -
  obtain n gm where "update_edge_weights_with_derived (we_graph env) (we_weight env derived) (market_read d) (wk_graph_manager (wl_worker l))
      = ret (n, gm)" "manager_wf (we_graph env) gm" "tracked_directions gm = tracked_directions (wk_graph_manager (wl_worker l))"
    by (rule update_edge_weights_wf [OF assms])
  then show thesis using that by (simp add: update_weights_def)
qed

lemma run_task_returns:
  assumes "well_behaved env" "wk_initialized (wl_worker l)"
  obtains answer where "run_task env task started abandoned wakes x l = ret (respond task answer l)"
proof (cases "task_budget (ag_timeout (we_algorithm env)) (tq_deadline task) started")
  case None
  then show thesis using that by (simp add: run_task_def)
next
  case (Some budget)
  obtain answer where answer: "quote env x (tq_order task) (tq_params task) (tq_deadline task) (wl_worker l) = ret (answer, wl_worker l)"
    by (rule quote_returns [OF assms])
  show thesis
  proof (cases "wait_until_ready (wk_readiness_tracker (wl_worker l)) budget started wakes")
    case (Inl e)
    then show thesis using that Some by (simp add: run_task_def)
  next
    case (Inr u)
    then show thesis using that Some answer by (simp add: run_task_def)
  qed
qed

lemma filter_event_finite:
  "finite (dom (me_added_components e)) \<Longrightarrow> finite (dom (me_added_components (filter_event m e drops)))"
  by (rule finite_subset [of _ "dom (me_added_components e)"])
    (auto simp: filter_event_fields(2) split: option.splits if_splits)

lemma apply_pamm_admission_finite:
  assumes "finite (dom (me_added_components e))" "finite (dom (mk_components (mv_base v)))"
  shows "finite (dom (me_added_components (fst (apply_pamm_admission order fb v drops e mgr))))"
proof (rule finite_subset)
  show "dom (me_added_components (fst (apply_pamm_admission order fb v drops e mgr)))
      \<subseteq> dom (me_added_components e) \<union> dom (mk_components (mv_base v))"
    by (auto simp: apply_pamm_admission_def Let_def readmitted_def topology_of_def split: if_splits option.splits)
  show "finite (dom (me_added_components e) \<union> dom (mk_components (mv_base v)))" using assms by simp
qed

lemma process_event_returns:
  assumes "stable_graph (we_graph env)" "manager_wf (we_graph env) (wk_graph_manager w)"
    and "finite (dom (me_added_components e))" "finite (dom (mk_components (md_data d)))"
  obtains w' where "process_event env d e w = ret w'" "manager_wf (we_graph env) (wk_graph_manager w')"
    "wk_initialized w' = wk_initialized w"
proof -
  obtain e' mgr where run: "apply_pamm_admission (we_key_order env) (we_fallback env) (market_read d) (graph_drops w) e (wk_pamm_admission w)
      = (e', mgr)" by fastforce
  have "finite (dom (me_added_components e'))"
    using apply_pamm_admission_finite [OF assms(3), of "market_read d"] assms(4) run by (metis fst_conv market_data_view.select_convs(1) market_read_def)
  then have fin: "finite (dom (me_added_components (filter_event m e' f)))"
    "finite (dom (me_added_components (filter_event m (filter_event m e' f) g)))" for m :: "'c market_state" and f g
    by (simp_all add: filter_event_finite)
  obtain graph_event other where events: "(if wk_post_processors w = []
                \<or> wk_liquidity_scope w = IncludeExclusive \<and> wk_algorithm_exclude_protocols w = []
             then let f = filter_event (mv_base (market_read d)) e' (graph_drops w) in (f, f)
             else let f = filter_event (mv_base (market_read d)) e' (should_drop_component IncludeExclusive (wk_exclude_protocols w)) in
                  (filter_event (mv_base (market_read d)) f (graph_drops w), f)) = (graph_event, other)"
    by fastforce
  then have "finite (dom (me_added_components graph_event))" using fin by (auto simp: Let_def split: if_splits)
  then obtain r gm where "graph_handle_event (we_graph env) graph_event (wk_graph_manager w) = ret (r, gm)" "manager_wf (we_graph env) gm"
    using graph_handle_event_tracked [OF assms(1,2)] by metis
  then show thesis using that [of "w\<lparr>wk_pamm_admission := mgr, wk_graph_manager := gm,
      wk_post_processors := post_processors_handle_event (we_processors env) other (wk_post_processors w)\<rparr>"] run events
    by (simp add: process_event_def)
qed

lemma worker_initialize_graph_returns:
  assumes "stable_graph (we_graph env)" "finite (dom (mk_components (md_data d)))"
  obtains w' where "worker_initialize_graph env d d' w = ret w'" "manager_wf (we_graph env) (wk_graph_manager w')" "wk_initialized w'"
proof -
  obtain withheld mgr where wh: "withhold_from_graph (we_key_order env) (we_fallback env) (market_read d)
      (component_topology_of_market (md_data d)) (graph_drops w) (wk_pamm_admission w) = (withheld, mgr)" by fastforce
  let ?kept = "filter_topology (md_data d) (component_topology_of_market (md_data d)) (\<lambda>c. graph_drops w c \<or> pc_id c \<in> withheld)"
  obtain gm where "initialize_graph (we_graph env) ?kept = ret gm" "manager_wf (we_graph env) gm"
      "tracked_directions gm = (\<lambda>i. Option.bind (?kept i) formed_directions)"
    by (rule initialize_graph_tracked [OF assms(1) kept_topology_finite [OF assms(2)]])
  then show thesis using that wh by (simp add: worker_initialize_graph_def market_read_def Let_def)
qed

lemma worker_step_returns:
  assumes law: "stable_graph (we_graph env)" and env: "well_behaved env" and wf: "loop_wf env l" and fin: "finite_input i"
  obtains l' where "worker_step env i l = ret l'" "loop_wf env l'" "map fst (wl_responses l') = map fst (wl_responses l) @ task_of i"
    "wl_stopped l' \<longleftrightarrow> stops i \<or> wl_stopped l"
proof (cases i)
  case (MarketEventReceived e d)
  obtain w' where "process_event env d e (wl_worker l) = ret w'" "manager_wf (we_graph env) (wk_graph_manager w')"
    "wk_initialized w' = wk_initialized (wl_worker l)"
    by (rule process_event_returns [OF law]) (use wf fin MarketEventReceived in \<open>auto simp: loop_wf_def\<close>)
  then show thesis using that wf MarketEventReceived by (simp add: loop_wf_def)
next
  case (MarketEventsLagged d d')
  obtain w' where "worker_initialize_graph env d d' (wl_worker l) = ret w'" "manager_wf (we_graph env) (wk_graph_manager w')"
    "wk_initialized w'"
    by (rule worker_initialize_graph_returns [OF law]) (use fin MarketEventsLagged in auto)
  then show thesis using that MarketEventsLagged by (simp add: loop_wf_def)
next
  case (DerivedEventReceived e d derived)
  define l1 where "l1 = l\<lparr>wl_worker := (wl_worker l)\<lparr>wk_readiness_tracker := tracker_handle_event e (wk_readiness_tracker (wl_worker l))\<rparr>,
      wl_weight_round := snd (round_record e (wl_weight_round l))\<rparr>"
  obtain gm where "update_weights env d derived l1 = ret (l1\<lparr>wl_worker := (wl_worker l1)\<lparr>wk_graph_manager := gm\<rparr>\<rparr>)"
    "manager_wf (we_graph env) gm"
    by (rule update_weights_returns [OF law, of l1 d derived]) (use wf in \<open>auto simp: loop_wf_def l1_def\<close>)
  then show thesis using that wf DerivedEventReceived
    by (cases "wl_derived_closed l"; cases "fst (round_record e (wl_weight_round l))")
      (simp_all add: l1_def loop_wf_def case_prod_unfold Let_def)
next
  case (DerivedEventsLagged d derived)
  obtain gm where "update_weights env d derived l = ret (l\<lparr>wl_worker := (wl_worker l)\<lparr>wk_graph_manager := gm\<rparr>\<rparr>)"
    "manager_wf (we_graph env) gm"
    by (rule update_weights_returns [OF law, of l d derived]) (use wf in \<open>auto simp: loop_wf_def\<close>)
  then show thesis using that wf DerivedEventsLagged by (cases "wl_derived_closed l") (simp_all add: loop_wf_def)
next
  case (TaskReceived task started abandoned wakes x)
  obtain answer where "run_task env task started abandoned wakes x l = ret (respond task answer l)"
    by (rule run_task_returns [OF env]) (use wf in \<open>auto simp: loop_wf_def\<close>)
  then show thesis using that wf TaskReceived by (simp add: loop_wf_def respond_def)
qed (use that wf in \<open>simp_all add: loop_wf_def\<close>)

lemma run_worker_returns:
  assumes "stable_graph (we_graph env)" "well_behaved env"
  shows "loop_wf env l \<Longrightarrow> \<forall>i \<in> set inputs. finite_input i \<Longrightarrow>
    \<exists>l'. run_worker env inputs l = ret l'
      \<and> map fst (wl_responses l') = map fst (wl_responses l)
          @ (if wl_stopped l then [] else concat (map task_of (takeWhile (\<lambda>i. \<not> stops i) inputs)))"
proof (induction inputs arbitrary: l)
  case (Cons i inputs)
  obtain l1 where l1: "worker_step env i l = ret l1" "loop_wf env l1"
    "map fst (wl_responses l1) = map fst (wl_responses l) @ task_of i" "wl_stopped l1 \<longleftrightarrow> stops i \<or> wl_stopped l"
    by (rule worker_step_returns [OF assms Cons.prems(1)]) (use Cons.prems(2) in auto)
  have "stops i \<Longrightarrow> task_of i = []" by (cases i) simp_all
  then show ?case using Cons.IH [OF l1(2)] Cons.prems(2) l1 by (cases "wl_stopped l") auto
qed simp

lemma start_worker_returns:
  assumes "stable_graph (we_graph env)" "finite (dom (mk_components (md_data d)))"
  obtains l where "start_worker env worker_id pool_name scope excluded algorithm_excluded ps d d' = ret l" "loop_wf env l"
    "wl_responses l = []" "\<not> wl_stopped l"
proof -
  let ?w = "with_post_processors ps (with_algorithm_exclude_protocols algorithm_excluded (with_exclude_protocols excluded
      (with_liquidity_scope scope (worker_new env worker_id pool_name))))"
  obtain w where "worker_initialize_graph env d d' ?w = ret w" "manager_wf (we_graph env) (wk_graph_manager w)" "wk_initialized w"
    by (rule worker_initialize_graph_returns [OF assms])
  then show thesis using that [of "worker_loop_start env w"] by (simp add: start_worker_def worker_loop_start_def loop_wf_def)
qed


subsection \<open>The graph follows the market\<close>

datatype 's feed_message = TychoMessage "'s tycho_update" | BookUpdated "'s book_update"

fun feed_handle ::
  "topology_env \<Rightarrow> nat \<Rightarrow> 's feed_message \<Rightarrow> 's market_data \<Rightarrow> 's market_data \<times> (data_feed_error + market_event option)" where
  "feed_handle tenv lag (TychoMessage msg) d = handle_tycho_message tenv lag True msg d"
| "feed_handle tenv lag (BookUpdated update) d = handle_book_update tenv True update d"

lemma feed_handle_reports:
  assumes "feed_handle tenv lag msg d = (d', r)" "sound_market (md_data d)"
  obtains reported where "r = Inr reported" "sound_market (md_data d')"
    "\<And>e. reported = Some e \<Longrightarrow> event_reports (md_data d) e (md_data d')"
    "reported = None \<Longrightarrow> swap_directions_of (md_data d') = swap_directions_of (md_data d)"
proof (cases msg)
  case (TychoMessage m)
  then have "handle_tycho_message tenv lag True m d = (d', r)" using assms(1) by simp
  then show thesis by (rule tycho_message_reports [OF _ assms(2)]) (rule that)
next
  case (BookUpdated u)
  then have "handle_book_update tenv True u d = (d', r)" using assms(1) by simp
  then show thesis by (rule book_update_reports [OF _ assms(2)]) (rule that, auto)
qed

text \<open>What happens around a worker: a feed message whose event it takes up at once, messages whose events it misses
  before it rebuilds its graph from the market they left, and other inputs.\<close>

datatype ('s, 'v, 'f) occurrence =
    Fed "'s feed_message"
  | Lagged "'s feed_message list" "'s market_data"
  | Meanwhile "('s, 'v, 'f) worker_input"

fun observe ::
  "topology_env \<Rightarrow> nat \<Rightarrow> ('s, 'v, 'f) occurrence list \<Rightarrow> 's market_data \<Rightarrow> ('s, 'v, 'f) worker_input list \<times> 's market_data" where
  "observe tenv lag [] d = ([], d)"
| "observe tenv lag (Fed msg # rest) d =
     (case feed_handle tenv lag msg d of
        (d', Inr (Some e)) \<Rightarrow> apfst (Cons (MarketEventReceived e d')) (observe tenv lag rest d')
      | (d', _) \<Rightarrow> observe tenv lag rest d')"
| "observe tenv lag (Lagged msgs seen # rest) d =
     (let d' = fold (\<lambda>msg. fst \<circ> feed_handle tenv lag msg) msgs d in
      apfst (Cons (MarketEventsLagged d' seen)) (observe tenv lag rest d'))"
| "observe tenv lag (Meanwhile i # rest) d = apfst (Cons i) (observe tenv lag rest d)"

fun between_events :: "('s, 'v, 'f) worker_input \<Rightarrow> bool" where
  "between_events (DerivedEventReceived _ _ _) = True"
| "between_events DerivedEventsClosed = True"
| "between_events (DerivedEventsLagged _ _) = True"
| "between_events (TaskReceived _ _ _ _ _) = True"
| "between_events _ = False"

text \<open>A message that re-sends a component keeps its kind, and the other inputs do not touch the graph.\<close>

fun orderly :: "topology_env \<Rightarrow> nat \<Rightarrow> ('s, 'v, 'f) occurrence list \<Rightarrow> 's market_data \<Rightarrow> bool" where
  "orderly tenv lag [] d = True"
| "orderly tenv lag (Fed msg # rest) d =
     (let d' = fst (feed_handle tenv lag msg d) in keeps_kinds (md_data d) (md_data d') \<and> orderly tenv lag rest d')"
| "orderly tenv lag (Lagged msgs seen # rest) d =
     orderly tenv lag rest (fold (\<lambda>msg. fst \<circ> feed_handle tenv lag msg) msgs d)"
| "orderly tenv lag (Meanwhile i # rest) d = (between_events i \<and> orderly tenv lag rest d)"

definition follows :: "('g, 'd, 's, 'v, 'p) worker_env \<Rightarrow> (protocol_component \<Rightarrow> bool) \<Rightarrow> 's market_state \<Rightarrow> ('g, 's, 'p) worker_loop \<Rightarrow> bool" where
  "follows env drops m l =
     (graph_of env m (wl_worker l) \<and> merged (wl_worker l) \<and> graph_drops (wl_worker l) = drops
      \<and> wk_initialized (wl_worker l) \<and> \<not> wl_stopped l)"

lemma follows_between_events:
  assumes law: "stable_graph (we_graph env)" and env: "well_behaved env" and "follows env drops m l" "between_events i"
  obtains l' where "worker_step env i l = ret l'" "follows env drops m l'"
proof -
  have wf: "manager_wf (we_graph env) (wk_graph_manager (wl_worker l))" and init: "wk_initialized (wl_worker l)"
    using assms(3) by (simp_all add: follows_def graph_of_def)
  have weights: "follows env drops m (l1\<lparr>wl_worker := (wl_worker l1)\<lparr>wk_graph_manager := gm\<rparr>\<rparr>)"
    if "follows env drops m l1" "manager_wf (we_graph env) gm" "tracked_directions gm = tracked_directions (wk_graph_manager (wl_worker l1))" for l1 gm
    using that by (auto simp: follows_def graph_of_def merged_def graph_drops_def)
  show thesis
  proof (cases i)
    case (DerivedEventReceived e d derived)
    define l1 where "l1 = l\<lparr>wl_worker := (wl_worker l)\<lparr>wk_readiness_tracker := tracker_handle_event e (wk_readiness_tracker (wl_worker l))\<rparr>,
        wl_weight_round := snd (round_record e (wl_weight_round l))\<rparr>"
    have l1: "follows env drops m l1" using assms(3) by (auto simp: follows_def graph_of_def merged_def graph_drops_def l1_def)
    obtain gm where gm: "update_weights env d derived l1 = ret (l1\<lparr>wl_worker := (wl_worker l1)\<lparr>wk_graph_manager := gm\<rparr>\<rparr>)"
      "manager_wf (we_graph env) gm" "tracked_directions gm = tracked_directions (wk_graph_manager (wl_worker l1))"
      by (rule update_weights_returns [OF law, of l1 d derived]) (use wf in \<open>auto simp: l1_def\<close>)
    have "worker_step env i l = (if wl_derived_closed l then ret l
        else if fst (round_record e (wl_weight_round l)) then update_weights env d derived l1 else ret l1)"
      by (simp add: DerivedEventReceived l1_def case_prod_unfold Let_def)
    then show thesis using that assms(3) l1 gm(1) weights [OF l1 gm(2,3)] by (auto split: if_splits)
  next
    case (DerivedEventsLagged d derived)
    obtain gm where gm: "update_weights env d derived l = ret (l\<lparr>wl_worker := (wl_worker l)\<lparr>wk_graph_manager := gm\<rparr>\<rparr>)"
      "manager_wf (we_graph env) gm" "tracked_directions gm = tracked_directions (wk_graph_manager (wl_worker l))"
      by (rule update_weights_returns [OF law wf, of d derived])
    then show thesis using that assms(3) weights [OF assms(3) gm(2,3)] DerivedEventsLagged by (cases "wl_derived_closed l") auto
  next
    case (TaskReceived task started abandoned wakes x)
    obtain answer where "run_task env task started abandoned wakes x l = ret (respond task answer l)"
      by (rule run_task_returns [OF env init])
    then show thesis using that assms(3) TaskReceived by (simp add: follows_def respond_def)
  qed (use that assms(3,4) in \<open>simp_all add: follows_def\<close>)
qed

lemma follows_reinitialized:
  assumes "stable_graph (we_graph env)" "key_order (we_key_order env)" "sound_market (md_data d)"
    and "merged (wl_worker l)" "graph_drops (wl_worker l) = drops" "\<not> wl_stopped l"
  obtains l' where "worker_step env (MarketEventsLagged d d') l = ret l'" "follows env drops (md_data d) l'"
proof -
  obtain w' where "worker_initialize_graph env d d' (wl_worker l) = ret w'" "graph_of env (md_data d) w'" "same_rules (wl_worker l) w'"
    "wk_initialized w'" "wk_readiness_tracker w' = wk_readiness_tracker (wl_worker l)"
    by (rule worker_initialize_graph_of [OF assms(1,2)]) (use assms(3) in \<open>auto simp: sound_market_def\<close>)
  then show thesis using that assms(4-6) by (simp add: follows_def same_rulesD)
qed

lemma follows_event:
  assumes "stable_graph (we_graph env)" "key_order (we_key_order env)" "follows env drops m l" "quiet_step m e (md_data d)"
  obtains l' where "worker_step env (MarketEventReceived e d) l = ret l'" "follows env drops (md_data d) l'"
proof -
  obtain w' where "process_event env d e (wl_worker l) = ret w'" "graph_of env (md_data d) w'" "same_rules (wl_worker l) w'"
    "wk_initialized w' = wk_initialized (wl_worker l)" "wk_readiness_tracker w' = wk_readiness_tracker (wl_worker l)"
    by (rule process_event_of [OF assms(1,2) _ _ assms(4), of "wl_worker l"]) (use assms(3) in \<open>auto simp: follows_def\<close>)
  then show thesis using that assms(3) by (simp add: follows_def same_rulesD)
qed

lemma sound_market_fed:
  "sound_market (md_data d) \<Longrightarrow> sound_market (md_data (fold (\<lambda>msg. fst \<circ> feed_handle tenv lag msg) msgs d))"
proof (induction msgs arbitrary: d)
  case (Cons msg msgs)
  obtain d' r where "feed_handle tenv lag msg d = (d', r)" by fastforce
  moreover from this have "sound_market (md_data d')" by (rule feed_handle_reports [OF _ Cons.prems])
  ultimately show ?case using Cons.IH by simp
qed simp

lemma run_worker_Cons:
  "worker_step env i l = ret l1 \<Longrightarrow> \<not> wl_stopped l \<Longrightarrow> run_worker env (i # inputs) l = run_worker env inputs l1"
  by simp

lemma run_worker_follows:
  fixes timeline :: "('s, 'v, 'f) occurrence list"
  assumes law: "stable_graph (we_graph env)" "key_order (we_key_order env)" and env: "well_behaved env"
  shows "follows env drops (md_data d) l \<Longrightarrow> sound_market (md_data d) \<Longrightarrow> orderly tenv lag timeline d \<Longrightarrow>
    \<exists>l'. run_worker env (fst (observe tenv lag timeline d)) l = ret l' \<and> follows env drops (md_data (snd (observe tenv lag timeline d))) l'"
proof (induction timeline arbitrary: d l)
  case (Cons occurrence timeline)
  have running: "\<not> wl_stopped l" using Cons.prems(1) by (simp add: follows_def)
  show ?case
  proof (cases occurrence)
    case (Fed msg)
    obtain d' r where h: "feed_handle tenv lag msg d = (d', r)" by fastforce
    obtain reported where r: "r = Inr reported" "sound_market (md_data d')"
      "\<And>e. reported = Some e \<Longrightarrow> event_reports (md_data d) e (md_data d')"
      "reported = None \<Longrightarrow> swap_directions_of (md_data d') = swap_directions_of (md_data d)"
      by (rule feed_handle_reports [OF h Cons.prems(2)]) blast
    have kinds: "keeps_kinds (md_data d) (md_data d')" and rest: "orderly tenv lag timeline d'"
      using Cons.prems(3) h Fed by (simp_all add: Let_def)
    show ?thesis
    proof (cases reported)
      case None
      then have "graph_of env (md_data d') (wl_worker l)"
        using unreported_step [OF law(2) _ kinds r(2) r(4)] Cons.prems(1) by (simp add: follows_def)
      then have "follows env drops (md_data d') l" using Cons.prems(1) by (simp add: follows_def)
      then show ?thesis using Cons.IH [OF _ r(2) rest] by (simp add: Fed h r(1) None)
    next
      case (Some e)
      then have "quiet_step (md_data d) e (md_data d')"
        using r(2,3) kinds by (simp add: quiet_step_def sound_market_def)
      then obtain l1 where l1: "worker_step env (MarketEventReceived e d' :: ('s, 'v, 'f) worker_input) l = ret l1" "follows env drops (md_data d') l1"
        by (rule follows_event [OF law Cons.prems(1)])
      then show ?thesis using Cons.IH [OF l1(2) r(2) rest] running by (simp add: Fed h r(1) Some)
    qed
  next
    case (Lagged msgs seen)
    let ?d = "fold (\<lambda>msg. fst \<circ> feed_handle tenv lag msg) msgs d"
    note sound = sound_market_fed [OF Cons.prems(2), of tenv lag msgs]
    obtain l1 where l1: "worker_step env (MarketEventsLagged ?d seen :: ('s, 'v, 'f) worker_input) l = ret l1" "follows env drops (md_data ?d) l1"
      by (rule follows_reinitialized [OF law sound]) (use Cons.prems(1) in \<open>auto simp: follows_def\<close>)
    have "orderly tenv lag timeline ?d" using Cons.prems(3) Lagged by simp
    from Cons.IH [OF l1(2) sound this] show ?thesis
      unfolding Lagged observe.simps Let_def fst_apfst snd_apfst run_worker_Cons [OF l1(1) running] .
  next
    case (Meanwhile i)
    then have i: "between_events i" "orderly tenv lag timeline d" using Cons.prems(3) by simp_all
    obtain l1 where l1: "worker_step env i l = ret l1" "follows env drops (md_data d) l1"
      by (rule follows_between_events [OF law(1) env Cons.prems(1) i(1)])
    then show ?thesis using Cons.IH [OF l1(2) Cons.prems(2) i(2)] running by (simp add: Meanwhile)
  qed
qed simp


definition example_task :: "string \<Rightarrow> solve_task" where
  "example_task i = \<lparr>tq_id = i, tq_order = example_sell, tq_params = example_solve_params, tq_created_at = 0, tq_deadline = 1000\<rparr>"

text \<open>The run of the example: a task in time, a market event, a task past its deadline, the shutdown and a task nobody
  takes up.\<close>

definition example_inputs :: "(unit, unit, unit) worker_input list" where
  "example_inputs =
     [TaskReceived (example_task ''t1'') 5 5 [] example_surroundings,
      MarketEventReceived \<lparr>me_added_components = Map.empty, me_removed_components = [''p''], me_updated_components = []\<rparr> example_read,
      TaskReceived (example_task ''t2'') 2000 2001 [] example_surroundings, ShutdownReceived,
      TaskReceived (example_task ''t3'') 2002 2002 [] example_surroundings]"


definition example_listing :: "unit book_update" where
  "example_listing = \<lparr>bu_protocol_system = ''rfq:v'', bu_added = [example_book], bu_removed = [], bu_updated = [], bu_states = [(''book'', ())]\<rparr>"


end
