(* ===== verification/Spec2Isabelle.thy ===== *)
theory Spec2Isabelle
  imports Router Split WorkerRun
begin

text \<open>
  Verification of fynd, a solver that quotes and encodes token swaps over on-chain liquidity. All
  sources are under \<open>src/fynd-core/src\<close> unless a path says otherwise.

  \<^bold>\<open>The program.\<close> A feed applies stream messages to one shared market and reports what changed. Every
  worker keeps a routing graph in step with these reports. A request carries orders; the router
  allocates worker pools to each order, sends it to them, collects what they answer until a deadline,
  ranks the answers, overlays exclusive liquidity, checks prices against external providers and encodes
  the best candidate, with retries down the ranking. A worker that takes up a task waits for derived
  data, resolves the route filter, runs its algorithm, post-processes the route, prices its fallback
  legs, checks it and quotes it.

  \<^bold>\<open>Conventions.\<close> \<open>'a run\<close> is the outcome of code that may panic (\<open>None\<close>); a \<open>Result\<close> is a sum with
  \<open>Inl\<close> the error; \<open>BigUint\<close> is \<open>nat\<close> with partial subtraction and division; addresses, ids and bytes
  are strings; \<open>f64\<close> is an exact model of binary64 (\<open>F64\<close>). Structs are records whose selectors carry a
  two-letter prefix, enums are datatypes with the constructors of the source. A pool state is a type
  parameter \<open>'s\<close>. What lies outside the sources (pools, petgraph, keccak256, ECDSA, the ABI codec, the
  Tycho encoder, price providers, clocks) is a parameter of the definitions, with its documented laws as
  named hypotheses, and every theorem under such a hypothesis has a witness that instantiates it. Where
  a hash map is iterated the key order is a parameter under the law \<open>key_order\<close>. Timeouts are inputs: a
  predicate per round or the position of a deadline in the sequence of events.

  \<^bold>\<open>Types and arithmetic.\<close>
  \<^item> \<open>Prelude\<close>: \<open>run\<close>, the \<open>?\<close> operator, searches and sorts of the standard library, the rules
    \<open>no_panic\<close>. \<open>F64\<close>: rounding, and that it is monotone. \<open>Bytes\<close>: big-endian words.
  \<^item> \<open>Routes\<close> (\<open>types/quote.rs\<close>): swaps, routes, split branches and the validator \<open>validate_route\<close>.
    The validator never panics; acceptance is characterised for sequential routes, and implies for split
    routes that producers come before consumers and that the input amount is exact.
  \<^item> \<open>Quotes\<close> (\<open>types/quote.rs\<close>, \<open>types/internal.rs\<close>, \<open>algorithm/mod.rs\<close>): orders, options, filters,
    quotes, errors. \<open>Amounts\<close> (\<open>bps.rs\<close>, \<open>derived/types.rs\<close>): scaling and gas conversion.

  \<^bold>\<open>The request path.\<close>
  \<^item> \<open>Allocation\<close> (\<open>worker_pool_router/allocation.rs\<close>): which pools serve an order; a caller without
    exclusive access never reaches an exclusive pool.
  \<^item> \<open>Fanout\<close> (\<open>solve_order\<close>): the select loop over answers as a fold over events, in every order of
    arrival. \<open>Ranking\<close> (\<open>rank_quotes\<close>, \<open>combine_with_surplus\<close>): descending candidates and the exclusive
    overlay. \<open>Exclusive\<close> (\<open>exclusive_route.rs\<close>): the commitment of an exclusive candidate, bounded
    below by the public quote.
  \<^item> \<open>PriceGuard\<close> (\<open>price_guard/guard.rs\<close>): tolerance bounds and the candidates that pass.
  \<^item> \<open>Signing\<close> (\<open>encoding/exclusive_swap.rs\<close>), \<open>FallbackData\<close> (\<open>fallback/user_data.rs\<close>), \<open>Fees\<close>
    (\<open>encoding/router_fees.rs\<close>), \<open>RouterCall\<close> (\<open>encoding/router_call.rs\<close>) and \<open>Encoding\<close>
    (\<open>encoding/encoder.rs\<close>): signed payloads keep the commitment, nonces are distinct, fees partition the
    output, the router call decodes to what it was built from, a failing quote does not disturb others.
  \<^item> \<open>Retries\<close> and \<open>Router\<close> (\<open>encode_with_retries\<close>, \<open>quote\<close>): the retry loop settles every order, and the
    locale \<open>quote_pass\<close> carries an invariant of quotes through all passes of the pipeline.

  \<^bold>\<open>Market, feed and graph.\<close>
  \<^item> \<open>Market\<close> (\<open>feed/market_data.rs\<close>, \<open>types/topology.rs\<close>): \<open>market_state\<close>, one function per mutation, the
    invariant of the protocol index, overlays, subsets and batched snapshots under concurrent writes.
  \<^item> \<open>Feed\<close> (\<open>feed/tycho_feed.rs\<close>, \<open>feed/book_stream.rs\<close>, \<open>feed/events.rs\<close>): messages applied to the market
    and the events they publish. \<open>Graph\<close> (\<open>graph/petgraph.rs\<close>): the graph manager over the parameter
    \<open>graph_ops\<close>, whose law is \<open>stable_graph\<close>.

  \<^bold>\<open>Solving.\<close>
  \<^item> \<open>Replay\<close> (\<open>replay.rs\<close>, \<open>algorithm/sim_guard.rs\<close>) and \<open>Split\<close> (\<open>algorithm/split_primitives.rs\<close>):
    simulation of routes and split plans; a route built from a plan replays to the amounts it carries.
  \<^item> \<open>Fallback\<close> and \<open>Pamm\<close> (\<open>fallback/mod.rs\<close>, \<open>fallback/manager.rs\<close>): fallback pools of pAMM legs and
    the admission of pAMMs to a graph. \<open>Readiness\<close> (\<open>derived/tracker.rs\<close>), \<open>PostProcess\<close>
    (\<open>post_process/pipeline.rs\<close>), \<open>PriceImpact\<close> (\<open>worker_pool/price_impact.rs\<close>).
  \<^item> \<open>RouteCheck\<close> and \<open>Worker\<close> (\<open>worker_pool/worker.rs\<close>): the checks of a route and the worker, from its
    start to its last task. \<open>WorkerGraph\<close>: initialization and every event leave the graph of exactly the
    admissible components. \<open>WorkerQuote\<close>: a quote passed every check, whatever the algorithm returned.
    \<open>WorkerRun\<close>: the loop answers every task once and in order, and through any interleaving of feed
    messages, derived data and tasks the graph refines the market.

  \<^bold>\<open>Loops and fuel.\<close> Loops are structural recursions or functions with a termination proof; no
  definition carries a bound that the source does not have.

  \<^bold>\<open>Not modelled.\<close> Network I/O (HTTP layer, clients, stream connections, chain reads), metrics, log lines
  and recording have no state that a quote depends on. Configuration parsing and the wiring of tasks and
  channels are left out; the channels are the sequences of inputs of the components. Tools, benchmarks
  and test helpers are not part of the solver.
\<close>

end
